(* ===== verification/Kernel_Prelude.thy ===== *)
theory Kernel_Prelude
  imports Main "HOL-Library.Word"
begin

text \<open>
  Shared vocabulary of the development: the machine types of the C sources
  (\<open>uint32_t\<close> as \<open>32 word\<close>, \<open>char\<close> as Isabelle's 8-bit \<open>char\<close>, which is how the
  ARM EABI's unsigned \<open>char\<close> behaves), the fact collections the component theories
  add to, and the generic lemmas on arrays, array loops and ring buffers that more
  than one component needs.

  A C array is a list and \<open>a[i] = v\<close> is \<open>a[i := v]\<close>; every index the sources use is
  shown to be in range by the component that uses it. A loop that fills an array is
  a \<open>fold\<close> over the index range, and the lemmas of the section on array loops give
  the closed form of the result.
\<close>

unbundle bit_operations_syntax

type_synonym u32 = "32 word"
type_synonym u8 = "8 word"

text \<open>The dash of the messages, in UTF-8.\<close>

definition em_dash :: string where
  "em_dash = [CHR 0xE2, CHR 0x80, CHR 0x94]"

named_theorems kernel_const
  \<open>numeric values of the constants of platform.h, board.h, mmu.h and the driver headers\<close>
named_theorems kernel_inv
  \<open>every operation keeps the invariant of its component\<close>
named_theorems kernel_frame
  \<open>fields and entries an operation leaves alone\<close>

section \<open>Words\<close>

lemma unat_u32_less: "unat (x::u32) < 4294967296"
  using unsigned_less [of x] by simp

lemma unat_u32_add: "unat (x::u32) + unat y < 4294967296 \<Longrightarrow> unat (x + y) = unat x + unat y"
  by (simp add: unat_word_ariths)

lemma unat_u32_plus1: "unat (x::u32) < 4294967295 \<Longrightarrow> unat (x + 1) = Suc (unat x)"
  by (simp add: unat_word_ariths)

lemma unat_u32_of_nat: "n < 4294967296 \<Longrightarrow> unat (of_nat n :: u32) = n"
  by (simp add: unat_of_nat take_bit_eq_mod)

lemma unat_u32_minus:
  fixes x :: u32
  assumes "x \<noteq> 0"
  shows "unat (- x) = 4294967296 - unat x"
proof -
  have "(unat x + unat (- x)) mod 4294967296 = 0" using unat_word_ariths(1) [of x "- x"] by simp
  moreover have "0 < unat x" using assms by (simp add: unat_gt_0)
  ultimately obtain k where k: "unat x + unat (- x) = 4294967296 * k" "0 < unat x" by (metis dvdE mod_0_imp_dvd)
  then have "4294967296 * k < 4294967296 * 2" "0 < 4294967296 * k"
    using unat_u32_less [of x] unat_u32_less [of "- x"] by linarith+
  then have "k = 1" by simp
  with k show ?thesis by simp
qed

text \<open>Consecutive regions of equal size do not overlap.\<close>

lemma region_unique:
  assumes "i * n + a = j * n + b" "a < n" "b < (n::nat)"
  shows "i = j"
proof -
  have "(i * n + a) div n = i" using assms(2) by simp
  moreover have "(j * n + b) div n = j" using assms(3) by simp
  ultimately show ?thesis using assms(1) by simp
qed

text \<open>The indices of the thread and of the process table.\<close>

lemma less_6_cases: "(t::nat) < 6 \<Longrightarrow> t = 0 \<or> t = 1 \<or> t = 2 \<or> t = 3 \<or> t = 4 \<or> t = 5"
  by auto

lemma less_3_cases: "(i::nat) < 3 \<Longrightarrow> i = 0 \<or> i = 1 \<or> i = 2"
  by auto

section \<open>Array loops\<close>

text \<open>The loop \<open>for (i = 0; i < n; i++) a[f(i)] = g(i)\<close> on an array seen as a function
  of its index, when no index is written twice.\<close>

lemma fold_fun_upd_other:
  "j \<notin> f ` set is \<Longrightarrow> fold (\<lambda>i a. a(f i := g i)) is a j = a j"
  by (induction "is" arbitrary: a) auto

lemma fold_fun_upd_at:
  "distinct is \<Longrightarrow> inj_on f (set is) \<Longrightarrow> i \<in> set is \<Longrightarrow>
   fold (\<lambda>i a. a(f i := g i)) is a (f i) = g i"
proof (induction "is" arbitrary: a)
  case Nil
  then show ?case by simp
next
  case (Cons k ks)
  show ?case
  proof (cases "i = k")
    case True
    with Cons.prems have "f i \<notin> f ` set ks" by auto
    then have "fold (\<lambda>i a. a(f i := g i)) ks (a(f k := g k)) (f i) = (a(f k := g k)) (f i)"
      by (rule fold_fun_upd_other)
    with True show ?thesis by (simp add: fun_upd_same del: fun_upd_apply)
  next
    case False
    with Cons show ?thesis by (simp del: fun_upd_apply)
  qed
qed

lemma fold_fun_upd_upto:
  "fold (\<lambda>i a. a(i := g i)) [lo..<hi] a j = (if lo \<le> j \<and> j < hi then g j else a j)"
proof (cases "j \<in> set [lo..<hi]")
  case True
  then show ?thesis using fold_fun_upd_at [of "[lo..<hi]" "\<lambda>i. i" j g a] by auto
next
  case False
  then show ?thesis using fold_fun_upd_other [of j "\<lambda>i. i" "[lo..<hi]" g a] by auto
qed

text \<open>The same loop with a guard that \<open>continue\<close>s over some indices.\<close>

lemma fold_fun_upd_guard:
  "fold (\<lambda>i a. if P i then a(i := g i) else a) [lo..<hi] a j =
     (if lo \<le> j \<and> j < hi \<and> P j then g j else a j)"
proof (induction hi)
  case 0
  then show ?case by simp
next
  case (Suc hi)
  then show ?case by (cases "lo \<le> hi") auto
qed

lemma length_fold_list_update [simp]:
  "length (fold (\<lambda>i xs. xs[f i := g i xs]) is xs) = length xs"
  by (induction "is" arbitrary: xs) auto

section \<open>Ring buffers\<close>

text \<open>\<open>ring_slice a h n\<close> is the content of a ring buffer in the array \<open>a\<close> with \<open>n\<close>
  entries, the oldest at index \<open>h mod length a\<close>.\<close>

definition ring_slice :: "'a list \<Rightarrow> nat \<Rightarrow> nat \<Rightarrow> 'a list" where
  "ring_slice a h n = map (\<lambda>i. a ! ((h + i) mod length a)) [0..<n]"

lemma length_ring_slice [simp]: "length (ring_slice a h n) = n"
  by (simp add: ring_slice_def)

lemma ring_slice_0 [simp]: "ring_slice a h 0 = []"
  by (simp add: ring_slice_def)

lemma ring_slice_mod: "ring_slice a (h mod length a) n = ring_slice a h n"
  by (simp add: ring_slice_def mod_add_left_eq)

lemma ring_slice_Suc: "ring_slice a h (Suc n) = a ! (h mod length a) # ring_slice a (Suc h) n"
  by (simp add: ring_slice_def upt_conv_Cons map_Suc_upt [symmetric] del: upt_Suc)

lemma ring_slice_snoc: "ring_slice a h (Suc n) = ring_slice a h n @ [a ! ((h + n) mod length a)]"
  by (simp add: ring_slice_def)

lemma ring_index_inj:
  assumes "i < L" "j < L" "(h + i) mod L = (h + j) mod (L::nat)"
  shows "i = j"
proof -
  have "(int h + int i) mod int L = (int h + int j) mod int L"
    using assms(3) by (metis of_nat_add of_nat_mod)
  then have "int i mod int L = int j mod int L"
    by (metis add.commute add_diff_cancel_right' mod_diff_cong)
  with assms(1,2) show ?thesis by simp
qed

lemma ring_slice_update_other:
  assumes "n \<le> k" "k < length a"
  shows "ring_slice (a[(h + k) mod length a := x]) h n = ring_slice a h n"
proof -
  have "(h + k) mod length a \<noteq> (h + i) mod length a" if "i < n" for i
    using that assms ring_index_inj [of k "length a" i h] by auto
  then show ?thesis by (auto simp: ring_slice_def nth_list_update)
qed

text \<open>Writing the slot after the last entry appends it.\<close>

lemma ring_slice_push:
  assumes "n < length a"
  shows "ring_slice (a[(h + n) mod length a := x]) h (Suc n) = ring_slice a h n @ [x]"
proof -
  have "ring_slice (a[(h + n) mod length a := x]) h n = ring_slice a h n"
    using assms by (simp add: ring_slice_update_other)
  moreover have "(h + n) mod length a < length a"
    using assms by (intro mod_less_divisor) linarith
  ultimately show ?thesis by (simp add: ring_slice_snoc)
qed

text \<open>Clearing the slot of the oldest entry leaves the others.\<close>

lemma ring_slice_clear:
  assumes "n < length a"
  shows "ring_slice (a[h mod length a := x]) (Suc h) n = ring_slice a (Suc h) n"
proof -
  have "Suc h + (length a - 1) = h + length a"
    using assms by simp
  then have "(Suc h + (length a - 1)) mod length a = h mod length a"
    by (simp only: mod_add_self2)
  then show ?thesis
    using assms ring_slice_update_other [of n "length a - 1" a "Suc h" x] by simp
qed

lemma nth_ring_slice: "i < n \<Longrightarrow> ring_slice a h n ! i = a ! ((h + i) mod length a)"
  by (simp add: ring_slice_def)

end
