(* ===== verification/Fifo_Interface.thy ===== *)
theory Fifo_Interface
  imports Kernel_Prelude
begin

text \<open>
  The interface of a first-in first-out queue, as the clients of the two ring buffers of
  the kernel rely on it: the UART receive ring of \<open>kernel/drivers/uart/uart_core.c\<close>
  (pushed from the interrupt path, popped by \<open>sys_read\<close>) and the wait queue of
  \<open>kernel/sched/scheduler.c\<close> (pushed by \<open>scheduler_block_on_input\<close>, popped by
  \<open>scheduler_wake_reader\<close>). Both may refuse an element: the receive ring when it is
  full, the wait queue when the thread is queued already. \<open>accepts\<close> says when.

  \<open>drain\<close> is the client loop "pop until the queue is empty or \<open>n\<close> elements are
  taken", the shape of the copy loop of \<open>sys_read\<close>.
\<close>

primrec drain :: "('q \<Rightarrow> 'a option \<times> 'q) \<Rightarrow> nat \<Rightarrow> 'q \<Rightarrow> 'a list \<times> 'q" where
  "drain pop 0 q = ([], q)"
| "drain pop (Suc n) q =
     (case pop q of
        (None, q') \<Rightarrow> ([], q')
      | (Some x, q') \<Rightarrow> (case drain pop n q' of (xs, q'') \<Rightarrow> (x # xs, q'')))"

text \<open>
  Any interleaving of the two operations, as the interrupt path and the system calls produce it.
  \<open>queue_run\<close> runs it on an implementation, \<open>list_run\<close> on a plain list: the abstract queue. Both
  return what the pops returned.
\<close>

datatype 'a queue_op = Push 'a | Pop

primrec queue_run :: "('a \<Rightarrow> 'q \<Rightarrow> 'q) \<Rightarrow> ('q \<Rightarrow> 'a option \<times> 'q) \<Rightarrow> 'a queue_op list \<Rightarrow> 'q \<Rightarrow> 'a option list \<times> 'q" where
  "queue_run push pop [] q = ([], q)"
| "queue_run push pop (e # es) q =
     (case e of
        Push x \<Rightarrow> queue_run push pop es (push x q)
      | Pop \<Rightarrow> (case pop q of (r, q') \<Rightarrow> (case queue_run push pop es q' of (rs, q'') \<Rightarrow> (r # rs, q''))))"

primrec list_run :: "('a list \<Rightarrow> 'a \<Rightarrow> bool) \<Rightarrow> 'a queue_op list \<Rightarrow> 'a list \<Rightarrow> 'a option list \<times> 'a list" where
  "list_run accepts [] xs = ([], xs)"
| "list_run accepts (e # es) xs =
     (case e of
        Push x \<Rightarrow> list_run accepts es (if accepts xs x then xs @ [x] else xs)
      | Pop \<Rightarrow> (case xs of
                  [] \<Rightarrow> (case list_run accepts es [] of (rs, ys) \<Rightarrow> (None # rs, ys))
                | x # xs' \<Rightarrow> (case list_run accepts es xs' of (rs, ys) \<Rightarrow> (Some x # rs, ys))))"

locale fifo_queue =
  fixes invar :: "'q \<Rightarrow> bool"
    and valid :: "'a \<Rightarrow> bool"
    and contents :: "'q \<Rightarrow> 'a list"
    and accepts :: "'a list \<Rightarrow> 'a \<Rightarrow> bool"
    and push :: "'a \<Rightarrow> 'q \<Rightarrow> 'q"
    and pop :: "'q \<Rightarrow> 'a option \<times> 'q"
  assumes push_invar: "invar q \<Longrightarrow> valid x \<Longrightarrow> invar (push x q)"
    and push_contents: "invar q \<Longrightarrow> valid x \<Longrightarrow>
      contents (push x q) = (if accepts (contents q) x then contents q @ [x] else contents q)"
    and pop_empty: "invar q \<Longrightarrow> contents q = [] \<Longrightarrow> pop q = (None, q)"
    and pop_first: "invar q \<Longrightarrow> contents q = x # xs \<Longrightarrow>
      fst (pop q) = Some x \<and> contents (snd (pop q)) = xs \<and> invar (snd (pop q))"
begin

lemma pop_Cons:
  assumes "invar q" "contents q = x # xs"
  obtains q' where "pop q = (Some x, q')" "contents q' = xs" "invar q'"
  using pop_first [OF assms] by (metis prod.collapse)

lemma pop_invar: "invar q \<Longrightarrow> invar (snd (pop q))"
  by (cases "contents q") (auto simp: pop_empty dest: pop_first)

lemma pop_None_iff: "invar q \<Longrightarrow> fst (pop q) = None \<longleftrightarrow> contents q = []"
  by (cases "contents q") (auto simp: pop_empty dest: pop_first)

lemma drain_take:
  assumes "invar q"
  shows "fst (drain pop n q) = take n (contents q) \<and>
         contents (snd (drain pop n q)) = drop n (contents q) \<and>
         invar (snd (drain pop n q))"
  using assms
proof (induction n arbitrary: q)
  case 0
  then show ?case by simp
next
  case (Suc n)
  show ?case
  proof (cases "contents q")
    case Nil
    with Suc.prems show ?thesis by (simp add: pop_empty)
  next
    case (Cons x xs)
    with Suc.prems obtain q' where q': "pop q = (Some x, q')" "contents q' = xs" "invar q'"
      by (rule pop_Cons)
    with Suc.IH [of q'] Cons show ?thesis by (auto simp: split_beta)
  qed
qed

text \<open>Whatever the interleaving, the implementation answers as the abstract queue does.\<close>

lemma trace_refines:
  assumes "invar q" "\<And>x. Push x \<in> set es \<Longrightarrow> valid x"
  shows "fst (queue_run push pop es q) = fst (list_run accepts es (contents q)) \<and>
         contents (snd (queue_run push pop es q)) = snd (list_run accepts es (contents q)) \<and>
         invar (snd (queue_run push pop es q))"
  using assms
proof (induction es arbitrary: q)
  case Nil
  then show ?case by simp
next
  case (Cons e es)
  have IH: "fst (queue_run push pop es q) = fst (list_run accepts es (contents q)) \<and>
      contents (snd (queue_run push pop es q)) = snd (list_run accepts es (contents q)) \<and>
      invar (snd (queue_run push pop es q))" if "invar q" for q
    using Cons.IH [OF that] Cons.prems(2) by simp
  show ?case
  proof (cases e)
    case (Push x)
    then have "valid x" using Cons.prems(2) by simp
    then show ?thesis
      using IH [of "push x q"] Cons.prems(1) push_contents [of q x] push_invar [of q x] Push by simp
  next
    case Pop
    show ?thesis
    proof (cases "contents q")
      case Nil
      then show ?thesis
        using IH [OF Cons.prems(1)] pop_empty [OF Cons.prems(1) Nil] Pop by (simp add: split_beta)
    next
      case (Cons x xs)
      obtain q' where q': "pop q = (Some x, q')" "contents q' = xs" "invar q'"
        using pop_Cons [OF \<open>invar q\<close> Cons] .
      then show ?thesis using IH [of q'] Cons Pop by (simp add: split_beta)
    qed
  qed
qed

text \<open>Elements come out in the order in which they went in, after what was queued before.\<close>

lemma push_all:
  assumes "invar q" "\<forall>x \<in> set xs. valid x"
    and "\<And>i. i < length xs \<Longrightarrow> accepts (contents q @ take i xs) (xs ! i)"
  shows "invar (fold push xs q) \<and> contents (fold push xs q) = contents q @ xs"
  using assms
proof (induction xs arbitrary: q)
  case Nil
  then show ?case by simp
next
  case (Cons x xs)
  have acc: "accepts (contents q) x" using Cons.prems(3) [of 0] by simp
  have inv: "invar (push x q)" and con: "contents (push x q) = contents q @ [x]"
    using Cons.prems acc by (auto simp: push_invar push_contents)
  have "accepts (contents (push x q) @ take i xs) (xs ! i)" if "i < length xs" for i
    using Cons.prems(3) [of "Suc i"] that con by simp
  then show ?case using Cons.IH [of "push x q"] Cons.prems(2) inv con by simp
qed

end

text \<open>A queue of bounded capacity: it refuses exactly when it is full.\<close>

locale bounded_fifo = fifo_queue +
  fixes cap :: nat
  assumes accepts_iff: "accepts xs x \<longleftrightarrow> length xs < cap"
begin

lemma burst_fits:
  assumes "invar q" "\<forall>x \<in> set xs. valid x" "length (contents q) + length xs \<le> cap"
  shows "invar (fold push xs q) \<and> contents (fold push xs q) = contents q @ xs"
  using assms by (intro push_all) (auto simp: accepts_iff)

text \<open>A burst of any size: what fits is kept in order, the newest elements are dropped.\<close>

lemma burst:
  assumes "invar q" "\<forall>x \<in> set xs. valid x" "length (contents q) \<le> cap"
  shows "invar (fold push xs q) \<and>
    contents (fold push xs q) = contents q @ take (cap - length (contents q)) xs"
  using assms
proof (induction xs arbitrary: q)
  case Nil
  then show ?case by simp
next
  case (Cons x xs)
  show ?case
  proof (cases "length (contents q) < cap")
    case True
    then have "contents (push x q) = contents q @ [x]" and "invar (push x q)"
      using Cons.prems by (simp_all add: push_contents push_invar accepts_iff)
    moreover have "take (cap - length (contents q)) (x # xs) =
        x # take (cap - Suc (length (contents q))) xs"
      using True by (simp add: take_Cons')
    ultimately show ?thesis using Cons True by simp
  next
    case False
    then have "contents (push x q) = contents q" and "invar (push x q)"
      using Cons.prems by (simp_all add: push_contents push_invar accepts_iff)
    with Cons False show ?thesis by simp
  qed
qed

end

text \<open>A queue without duplicates: it refuses exactly what it holds already.\<close>

locale unique_fifo = fifo_queue +
  assumes accepts_new: "accepts xs x \<longleftrightarrow> x \<notin> set xs"
    and contents_distinct: "invar q \<Longrightarrow> distinct (contents q)"
    and contents_valid: "invar q \<Longrightarrow> x \<in> set (contents q) \<Longrightarrow> valid x"
begin

lemma push_set:
  "invar q \<Longrightarrow> valid x \<Longrightarrow> set (contents (push x q)) = insert x (set (contents q))"
  by (auto simp: push_contents accepts_new)

lemma push_again: "invar q \<Longrightarrow> valid x \<Longrightarrow> contents (push x (push x q)) = contents (push x q)"
  by (simp add: push_contents push_invar accepts_new)

end

end
