(* ===== verification/Uart_Ring.thy ===== *)
theory Uart_Ring
  imports Fifo_Interface
begin

text \<open>
  The receive ring of the UART subsystem (\<open>kernel/drivers/uart/uart_core.c\<close>): 128 slots,
  free-running 32-bit head and tail counters that are masked when they index the array.
  \<open>uart_rx_push\<close> runs in the interrupt path, \<open>uart_rx_pop\<close> in \<open>sys_read\<close>.

  The ring refines a FIFO of at most 127 bytes, across the wrap-around of the counters
  at $2^{32}$: \<open>rx_contents\<close> is the abstraction function and the interpretation \<open>rxq\<close>
  discharges the laws of \<open>bounded_fifo\<close>.
\<close>

section \<open>Model\<close>

record rx_ring =
  rx_buf :: "char list"
  rx_head :: u32
  rx_tail :: u32

definition UART_RX_BUF_SIZE :: u32 where
  [kernel_const]: "UART_RX_BUF_SIZE = 128"

definition UART_RX_MASK :: u32 where
  "UART_RX_MASK = UART_RX_BUF_SIZE - 1"

definition uart_rx_init :: rx_ring where
  "uart_rx_init = \<lparr>rx_buf = replicate (unat UART_RX_BUF_SIZE) (CHR 0x00), rx_head = 0, rx_tail = 0\<rparr>"

definition uart_rx_push :: "char \<Rightarrow> rx_ring \<Rightarrow> rx_ring" where
  "uart_rx_push c r =
     (let next = rx_head r + 1
      in if next AND UART_RX_MASK \<noteq> rx_tail r AND UART_RX_MASK
         then r\<lparr>rx_buf := (rx_buf r)[unat (rx_head r AND UART_RX_MASK) := c],
                rx_head := next\<rparr>
         else r)"

definition uart_rx_empty :: "rx_ring \<Rightarrow> bool" where
  "uart_rx_empty r = (rx_head r = rx_tail r)"

text \<open>The C function returns an \<open>int\<close>: -1 for an empty ring, the byte otherwise.\<close>

definition uart_rx_pop :: "rx_ring \<Rightarrow> int \<times> rx_ring" where
  "uart_rx_pop r =
     (if rx_head r = rx_tail r then (-1, r)
      else let c = of_char (rx_buf r ! unat (rx_tail r AND UART_RX_MASK))
           in (c, r\<lparr>rx_tail := rx_tail r + 1\<rparr>))"

section \<open>Abstraction\<close>

definition rx_count :: "rx_ring \<Rightarrow> nat" where
  "rx_count r = unat (rx_head r - rx_tail r)"

definition rx_invar :: "rx_ring \<Rightarrow> bool" where
  "rx_invar r \<longleftrightarrow> length (rx_buf r) = 128 \<and> rx_count r < 128"

definition rx_contents :: "rx_ring \<Rightarrow> char list" where
  "rx_contents r = ring_slice (rx_buf r) (unat (rx_tail r)) (rx_count r)"

text \<open>The pop of the queue interface: the caller's test \<open>c < 0\<close> and its cast to \<open>char\<close>.\<close>

definition rx_take :: "rx_ring \<Rightarrow> char option \<times> rx_ring" where
  "rx_take r = (case uart_rx_pop r of
     (c, r') \<Rightarrow> (if c < 0 then None else Some (char_of c), r'))"

section \<open>The counters\<close>

lemma unat_rx_mask: "unat (x AND UART_RX_MASK) = unat x mod 128"
proof -
  have "x AND UART_RX_MASK = take_bit 7 x"
    by (simp add: UART_RX_MASK_def kernel_const take_bit_eq_mask mask_eq_exp_minus_1)
  then show ?thesis by (simp add: take_bit_eq_mod unat_mod)
qed

lemma unat_mod_128: "unat (x + y :: u32) mod 128 = (unat x + unat y) mod 128"
  by (simp add: unat_word_ariths mod_mod_cancel)

lemma rx_head_mod:
  "unat (rx_head r) mod 128 = (unat (rx_tail r) + rx_count r) mod 128"
  using unat_mod_128 [of "rx_tail r" "rx_head r - rx_tail r"] by (simp add: rx_count_def)

lemma rx_next_mod:
  "unat (rx_head r + 1) mod 128 = (unat (rx_tail r) + Suc (rx_count r)) mod 128"
proof -
  have "unat (rx_head r + 1) mod 128 = (unat (rx_head r) mod 128 + 1) mod 128"
    by (simp only: unat_mod_128 mod_add_left_eq unat_1)
  then show ?thesis by (simp only: rx_head_mod mod_add_left_eq add_Suc_right Suc_eq_plus1 add.assoc)
qed

lemma rx_full_iff:
  assumes "rx_invar r"
  shows "(rx_head r + 1) AND UART_RX_MASK \<noteq> rx_tail r AND UART_RX_MASK \<longleftrightarrow> rx_count r < 127"
proof -
  have lt: "rx_count r < 128" using assms by (simp add: rx_invar_def)
  have "(rx_head r + 1) AND UART_RX_MASK = rx_tail r AND UART_RX_MASK \<longleftrightarrow>
      unat (rx_head r + 1) mod 128 = unat (rx_tail r) mod 128"
    by (metis unat_rx_mask word_unat_eq_iff)
  also have "\<dots> \<longleftrightarrow> (unat (rx_tail r) + Suc (rx_count r)) mod 128 = unat (rx_tail r) mod 128"
    by (simp only: rx_next_mod)
  also have "\<dots> \<longleftrightarrow> rx_count r = 127"
    using lt ring_index_inj [of "Suc (rx_count r)" 128 0 "unat (rx_tail r)"] by fastforce
  finally show ?thesis using lt by linarith
qed

lemma rx_count_push:
  assumes "rx_count r < 127"
  shows "unat (rx_head r + 1 - rx_tail r) = Suc (rx_count r)"
proof -
  have "rx_head r + 1 - rx_tail r = (rx_head r - rx_tail r) + 1" by simp
  moreover have "unat (rx_head r - rx_tail r) < 4294967295"
    using assms by (simp add: rx_count_def)
  ultimately show ?thesis by (simp only: unat_u32_plus1 rx_count_def)
qed

lemma rx_count_pop:
  assumes "rx_head r \<noteq> rx_tail r"
  shows "Suc (unat (rx_head r - (rx_tail r + 1))) = rx_count r"
proof -
  have ne: "rx_head r - rx_tail r \<noteq> 0" using assms by simp
  then have "unat (rx_head r - rx_tail r - 1) = unat (rx_head r - rx_tail r) - 1"
    by (rule unat_minus_one)
  moreover have "0 < unat (rx_head r - rx_tail r)"
    using ne by (simp add: unat_gt_0)
  ultimately show ?thesis by (simp add: rx_count_def diff_diff_eq)
qed

section \<open>The ring is a bounded FIFO\<close>

lemma rx_push_contents:
  assumes "rx_invar r"
  shows "rx_invar (uart_rx_push c r) \<and>
    rx_contents (uart_rx_push c r) =
      (if length (rx_contents r) < 127 then rx_contents r @ [c] else rx_contents r)"
proof (cases "rx_count r < 127")
  case True
  then have "rx_count (uart_rx_push c r) = Suc (rx_count r)"
    using rx_full_iff [OF assms] rx_count_push [of r] by (simp add: uart_rx_push_def Let_def rx_count_def)
  moreover have "rx_buf (uart_rx_push c r) =
      (rx_buf r)[(unat (rx_tail r) + rx_count r) mod length (rx_buf r) := c]"
    using True assms rx_full_iff [OF assms]
    by (simp add: uart_rx_push_def Let_def unat_rx_mask rx_head_mod rx_invar_def)
  moreover have "rx_tail (uart_rx_push c r) = rx_tail r"
    by (simp add: uart_rx_push_def Let_def)
  ultimately show ?thesis
    using True assms ring_slice_push [of "rx_count r" "rx_buf r" "unat (rx_tail r)" c]
    by (simp add: rx_contents_def rx_invar_def)
next
  case False
  then have "uart_rx_push c r = r"
    using rx_full_iff [OF assms] by (simp add: uart_rx_push_def Let_def)
  with False assms show ?thesis by (simp add: rx_contents_def)
qed

lemma rx_empty_iff: "rx_contents r = [] \<longleftrightarrow> uart_rx_empty r"
  by (simp add: rx_contents_def uart_rx_empty_def rx_count_def unat_eq_0 flip: length_0_conv)

lemma rx_pop_contents:
  assumes "rx_invar r" "rx_contents r = c # cs"
  shows "uart_rx_pop r = (of_char c, r\<lparr>rx_tail := rx_tail r + 1\<rparr>) \<and>
    rx_contents (r\<lparr>rx_tail := rx_tail r + 1\<rparr>) = cs \<and> rx_invar (r\<lparr>rx_tail := rx_tail r + 1\<rparr>)"
proof -
  let ?r' = "r\<lparr>rx_tail := rx_tail r + 1\<rparr>"
  have ne: "rx_head r \<noteq> rx_tail r" using assms(2) rx_empty_iff [of r] by (auto simp: uart_rx_empty_def)
  then have cnt: "rx_count r = Suc (rx_count ?r')"
    using rx_count_pop [of r] by (simp add: rx_count_def)
  have len: "length (rx_buf r) = 128" using assms(1) by (simp add: rx_invar_def)
  have "c # cs = rx_buf r ! (unat (rx_tail r) mod 128) #
      ring_slice (rx_buf r) (Suc (unat (rx_tail r))) (rx_count ?r')"
    using assms(2) len by (simp add: rx_contents_def cnt ring_slice_Suc)
  moreover have "ring_slice (rx_buf r) (unat (rx_tail r + 1)) (rx_count ?r') =
      ring_slice (rx_buf r) (Suc (unat (rx_tail r))) (rx_count ?r')"
    using ring_slice_mod [of "rx_buf r" "unat (rx_tail r + 1)"]
      ring_slice_mod [of "rx_buf r" "Suc (unat (rx_tail r))"] len
    by (simp add: unat_mod_128)
  ultimately show ?thesis
    using ne cnt assms(1)
    by (auto simp: uart_rx_pop_def unat_rx_mask rx_contents_def rx_invar_def)
qed

lemma of_char_int_nonneg: "\<not> (of_char c :: int) < 0"
  by (simp add: of_char_def)

lemma rx_take_empty: "rx_contents r = [] \<Longrightarrow> rx_take r = (None, r)"
  by (simp add: rx_empty_iff uart_rx_empty_def rx_take_def uart_rx_pop_def)

lemma rx_take_first:
  assumes "rx_invar r" "rx_contents r = c # cs"
  shows "fst (rx_take r) = Some c \<and> rx_contents (snd (rx_take r)) = cs \<and>
    rx_invar (snd (rx_take r))"
  using rx_pop_contents [OF assms] of_char_int_nonneg [of c] by (simp add: rx_take_def)

interpretation rxq: bounded_fifo rx_invar "\<lambda>_. True" rx_contents "\<lambda>xs _. length xs < 127"
    uart_rx_push rx_take 127
  by unfold_locales (auto simp: rx_push_contents rx_take_empty dest: rx_take_first)

lemma rx_init_invar [kernel_inv]: "rx_invar uart_rx_init"
  by (simp add: rx_invar_def uart_rx_init_def rx_count_def kernel_const)

lemma rx_init_contents [simp]: "rx_contents uart_rx_init = []"
  by (simp add: rx_empty_iff uart_rx_empty_def uart_rx_init_def)

lemma rx_contents_bound: "rx_invar r \<Longrightarrow> length (rx_contents r) \<le> 127"
  by (simp add: rx_contents_def rx_invar_def)

section \<open>Properties\<close>

text \<open>C22: the receive ring is a bounded FIFO. From power-up on, whatever the interleaving of bytes
  pushed by the interrupt handler and pops by readers, and however often the two free-running 32-bit
  indices wrap around, the pops return what they return on a plain list that takes a
  byte exactly while it holds fewer than 127 bytes.\<close>

theorem uart_ring_refines_queue:
  "fst (queue_run uart_rx_push rx_take es uart_rx_init) = fst (list_run (\<lambda>xs _. length xs < 127) es [])"
  using rxq.trace_refines [OF rx_init_invar, of es] by simp

text \<open>Overflow of the receive ring. A burst of bytes between two reads keeps what was queued, takes
  the oldest bytes of the burst as far as the 127 usable slots go and drops the newest.\<close>

theorem uart_ring_burst:
  assumes "rx_invar r"
  shows "rx_contents (fold uart_rx_push bs r) = rx_contents r @ take (127 - length (rx_contents r)) bs"
  using rxq.burst [OF assms _ rx_contents_bound [OF assms]] by simp

end
