(* ===== verification/Platform.thy ===== *)
theory Platform
  imports Kernel_Prelude
begin

text \<open>
  The constants the kernel is built with: the shared address-space layout and table sizes
  of \<open>kernel/include/platform.h\<close>, and the two board headers
  \<open>kernel/platform/qemu/board.h\<close> and \<open>kernel/platform/bbb/board.h\<close>. A build picks one
  board (\<open>make PLATFORM=qemu\<close> or \<open>PLATFORM=bbb\<close>); the model takes the choice as a value of
  the type \<open>platform\<close>, so a theorem about every build quantifies over it.
\<close>

section \<open>Shared layout (platform.h)\<close>

definition KERNEL_VIRT_BASE :: u32 where
  [kernel_const]: "KERNEL_VIRT_BASE = 0xC0000000"
definition USER_VIRT_BASE :: u32 where
  [kernel_const]: "USER_VIRT_BASE = 0x40000000"
definition USER_REGION_SIZE :: u32 where
  [kernel_const]: "USER_REGION_SIZE = 0x00100000"
definition USER_STACK_TOP :: u32 where
  "USER_STACK_TOP = USER_VIRT_BASE + USER_REGION_SIZE"

definition NUM_PROCESSES :: u32 where
  [kernel_const]: "NUM_PROCESSES = 3"
definition THREADS_PER_PROC :: u32 where
  [kernel_const]: "THREADS_PER_PROC = 2"
definition NUM_THREADS :: u32 where
  "NUM_THREADS = NUM_PROCESSES * THREADS_PER_PROC"
definition KSTACK_SIZE :: u32 where
  [kernel_const]: "KSTACK_SIZE = 8192"
definition USER_STACK_SIZE :: u32 where
  [kernel_const]: "USER_STACK_SIZE = 0x00010000"

lemma NUM_THREADS_val [kernel_const]: "NUM_THREADS = 6"
  by (simp add: NUM_THREADS_def kernel_const)

lemma USER_STACK_TOP_val [kernel_const]: "USER_STACK_TOP = 0x40100000"
  by (simp add: USER_STACK_TOP_def kernel_const)

abbreviation num_processes :: nat where "num_processes \<equiv> unat NUM_PROCESSES"
abbreviation threads_per_proc :: nat where "threads_per_proc \<equiv> unat THREADS_PER_PROC"
abbreviation num_threads :: nat where "num_threads \<equiv> unat NUM_THREADS"

section \<open>Boards (board.h)\<close>

record board =
  PLATFORM_NAME :: string
  RAM_BASE :: u32
  RAM_SIZE :: u32
  KERNEL_PHYS_BASE :: u32
  UART0_BASE :: u32
  TIMER_BASE :: u32
  TIMER_CLK_HZ :: u32
  IRQ_TIMER :: u32
  IRQ_UART0 :: u32

definition PHYS_OFFSET :: "board \<Rightarrow> u32" where
  "PHYS_OFFSET b = 0xC0000000 - RAM_BASE b"

definition USER_PHYS_BASE :: "board \<Rightarrow> u32" where
  "USER_PHYS_BASE b = RAM_BASE b + 0x00200000"

definition USER_PHYS_STRIDE :: u32 where
  [kernel_const]: "USER_PHYS_STRIDE = 0x00100000"

definition qemu_board :: board where
  "qemu_board = \<lparr>
     PLATFORM_NAME = ''QEMU realview-pb-a8'',
     RAM_BASE = 0x70000000,
     RAM_SIZE = 128 * 1024 * 1024,
     KERNEL_PHYS_BASE = 0x70100000,
     UART0_BASE = 0x10009000,
     TIMER_BASE = 0x10011000,
     TIMER_CLK_HZ = 1000000,
     IRQ_TIMER = 36,
     IRQ_UART0 = 44\<rparr>"

definition bbb_board :: board where
  "bbb_board = \<lparr>
     PLATFORM_NAME = ''BeagleBone Black (AM335x)'',
     RAM_BASE = 0x80000000,
     RAM_SIZE = 512 * 1024 * 1024,
     KERNEL_PHYS_BASE = 0x80000000,
     UART0_BASE = 0x44E09000,
     TIMER_BASE = 0x48040000,
     TIMER_CLK_HZ = 24000000,
     IRQ_TIMER = 68,
     IRQ_UART0 = 72\<rparr>"

text \<open>\<open>make PLATFORM=qemu|bbb\<close>: the board header a build includes.\<close>

datatype platform = Qemu | Bbb

primrec board_of :: "platform \<Rightarrow> board" where
  "board_of Qemu = qemu_board"
| "board_of Bbb = bbb_board"

lemmas board_defs = qemu_board_def bbb_board_def PHYS_OFFSET_def USER_PHYS_BASE_def

end
