(* ===== verification/Wait_Queue.thy ===== *)
theory Wait_Queue
  imports Fifo_Interface Platform
begin

text \<open>
  The UART input wait queue of \<open>kernel/sched/scheduler.c\<close>: a FIFO ring of
  \<open>NUM_THREADS\<close> thread pointers. A thread pointer is the index of the thread in
  \<open>threads[]\<close>; \<open>None\<close> is the null pointer.

  The queue never holds a thread twice, so its capacity is always enough: the branch of
  \<open>waitq_push\<close> that the source calls unreachable is unreachable
  (\<open>waitq_push_has_room\<close>), and the ring refines a duplicate-free FIFO
  (interpretation \<open>wq\<close>).
\<close>

section \<open>Model\<close>

type_synonym tptr = nat

record wait_queue =
  uart_waitq :: "tptr option list"
  waitq_head :: u32
  waitq_count :: u32

definition WAITQ_CAP :: u32 where
  "WAITQ_CAP = NUM_THREADS"

lemma WAITQ_CAP_val [kernel_const]: "WAITQ_CAP = 6"
  by (simp add: WAITQ_CAP_def kernel_const)

definition waitq_init :: wait_queue where
  "waitq_init = \<lparr>uart_waitq = replicate (unat WAITQ_CAP) None, waitq_head = 0, waitq_count = 0\<rparr>"

definition waitq_slot :: "wait_queue \<Rightarrow> u32 \<Rightarrow> nat" where
  "waitq_slot q i = unat ((waitq_head q + i) mod WAITQ_CAP)"

definition waitq_push :: "tptr \<Rightarrow> wait_queue \<Rightarrow> wait_queue" where
  "waitq_push t q =
     (if list_ex (\<lambda>i. uart_waitq q ! waitq_slot q (of_nat i) = Some t) [0..<unat (waitq_count q)]
      then q
      else if waitq_count q \<ge> WAITQ_CAP then q
      else q\<lparr>uart_waitq := (uart_waitq q)[waitq_slot q (waitq_count q) := Some t],
             waitq_count := waitq_count q + 1\<rparr>)"

definition waitq_pop :: "wait_queue \<Rightarrow> tptr option \<times> wait_queue" where
  "waitq_pop q =
     (if waitq_count q = 0 then (None, q)
      else let t = uart_waitq q ! unat (waitq_head q)
           in (t, q\<lparr>uart_waitq := (uart_waitq q)[unat (waitq_head q) := None],
                    waitq_head := (waitq_head q + 1) mod WAITQ_CAP,
                    waitq_count := waitq_count q - 1\<rparr>))"

section \<open>Abstraction\<close>

definition waitq_raw :: "wait_queue \<Rightarrow> tptr option list" where
  "waitq_raw q = ring_slice (uart_waitq q) (unat (waitq_head q)) (unat (waitq_count q))"

definition waitq_list :: "wait_queue \<Rightarrow> tptr list" where
  "waitq_list q = map the (waitq_raw q)"

definition waitq_invar :: "wait_queue \<Rightarrow> bool" where
  "waitq_invar q \<longleftrightarrow>
     length (uart_waitq q) = 6 \<and> waitq_head q < 6 \<and> waitq_count q \<le> 6 \<and>
     (\<forall>x \<in> set (waitq_raw q). \<exists>t < 6. x = Some t) \<and> distinct (waitq_raw q)"

lemma waitq_raw_conv: "waitq_invar q \<Longrightarrow> waitq_raw q = map Some (waitq_list q)"
  by (simp add: waitq_list_def waitq_invar_def) (rule map_idI [symmetric], fastforce)

lemma waitq_list_length [simp]: "length (waitq_list q) = unat (waitq_count q)"
  by (simp add: waitq_list_def waitq_raw_def)

lemma waitq_list_props:
  assumes "waitq_invar q"
  shows "distinct (waitq_list q) \<and> (\<forall>t \<in> set (waitq_list q). t < 6)"
proof -
  have raw: "waitq_raw q = map Some (waitq_list q)" using assms by (rule waitq_raw_conv)
  have "distinct (waitq_raw q)" "\<forall>x \<in> set (waitq_raw q). \<exists>t<6. x = Some t"
    using assms by (simp_all add: waitq_invar_def)
  then show ?thesis unfolding raw by (auto simp: distinct_map)
qed

lemmas waitq_list_distinct = waitq_list_props [THEN conjunct1]
lemmas waitq_list_valid = waitq_list_props [THEN conjunct2, rule_format]

lemma waitq_slot_nat:
  assumes "waitq_invar q" "i \<le> 6"
  shows "waitq_slot q (of_nat i) = (unat (waitq_head q) + i) mod length (uart_waitq q)"
proof -
  have h: "unat (waitq_head q) < 6" using assms(1) by (simp add: waitq_invar_def word_less_nat_alt)
  have i: "unat (of_nat i :: u32) = i" using assms(2) by (simp add: unat_u32_of_nat)
  have "unat (waitq_head q + of_nat i) = unat (waitq_head q) + i"
    using h i assms(2) by (simp add: unat_u32_add)
  then show ?thesis using assms(1) by (simp add: waitq_slot_def kernel_const unat_mod waitq_invar_def)
qed

lemma waitq_count_nat: "waitq_invar q \<Longrightarrow> unat (waitq_count q) \<le> 6"
  by (simp add: waitq_invar_def word_le_nat_alt)

text \<open>The scan of \<open>waitq_push\<close> finds exactly the queued threads.\<close>

lemma waitq_scan:
  assumes "waitq_invar q"
  shows "list_ex (\<lambda>i. uart_waitq q ! waitq_slot q (of_nat i) = Some t) [0..<unat (waitq_count q)]
    \<longleftrightarrow> t \<in> set (waitq_list q)"
proof -
  have "uart_waitq q ! waitq_slot q (of_nat i) = waitq_raw q ! i" if "i < unat (waitq_count q)" for i
    using that waitq_count_nat [OF assms] waitq_slot_nat [OF assms, of i]
    by (simp add: waitq_raw_def nth_ring_slice)
  then have "list_ex (\<lambda>i. uart_waitq q ! waitq_slot q (of_nat i) = Some t) [0..<unat (waitq_count q)]
      \<longleftrightarrow> Some t \<in> set (waitq_raw q)"
    by (auto simp: list_ex_iff in_set_conv_nth waitq_raw_def)
  also have "\<dots> \<longleftrightarrow> t \<in> set (waitq_list q)" by (auto simp: waitq_raw_conv [OF assms])
  finally show ?thesis .
qed

text \<open>Six distinct threads at most: a thread that is not queued finds a free slot.\<close>

lemma waitq_push_has_room:
  assumes "waitq_invar q" "t < 6" "t \<notin> set (waitq_list q)"
  shows "waitq_count q < WAITQ_CAP"
proof -
  have "distinct (waitq_list q)" "set (waitq_list q) \<subseteq> {..<6}"
    using assms(1) by (auto intro: waitq_list_distinct dest: waitq_list_valid)
  with assms(2,3) have "distinct (t # waitq_list q)" "set (t # waitq_list q) \<subseteq> {..<6}" by auto
  then have "length (t # waitq_list q) \<le> card {..<(6::nat)}"
    by (metis card_mono distinct_card finite_lessThan)
  then show ?thesis by (simp add: kernel_const word_less_nat_alt)
qed


lemma waitq_invarI:
  assumes "length (uart_waitq q) = 6" "waitq_head q < 6" "waitq_count q \<le> 6"
    and "waitq_raw q = map Some ts" "\<forall>t \<in> set ts. t < 6" "distinct ts"
  shows "waitq_invar q \<and> waitq_list q = ts"
  using assms by (auto simp: waitq_invar_def waitq_list_def distinct_map inj_on_def comp_def)

lemma waitq_push_list:
  assumes "waitq_invar q" "t < 6"
  shows "waitq_invar (waitq_push t q) \<and> waitq_list (waitq_push t q) =
    (if t \<notin> set (waitq_list q) then waitq_list q @ [t] else waitq_list q)"
proof (cases "t \<in> set (waitq_list q)")
  case True
  with assms show ?thesis by (simp add: waitq_push_def waitq_scan)
next
  case False
  let ?n = "unat (waitq_count q)"
  have room: "waitq_count q < WAITQ_CAP" using waitq_push_has_room [OF assms False] .
  then have n: "?n < 6" by (simp add: kernel_const word_less_nat_alt)
  have slot: "waitq_slot q (waitq_count q) = (unat (waitq_head q) + ?n) mod length (uart_waitq q)"
    using waitq_slot_nat [OF assms(1), of ?n] n by simp
  have q': "waitq_push t q = q\<lparr>uart_waitq := (uart_waitq q)[waitq_slot q (waitq_count q) := Some t],
      waitq_count := waitq_count q + 1\<rparr>"
    using assms False room by (simp add: waitq_push_def waitq_scan not_le)
  have cnt: "unat (waitq_count q + 1) = Suc ?n" using n by (simp add: unat_u32_plus1)
  have len: "?n < length (uart_waitq q)" using n assms(1) by (simp add: waitq_invar_def)
  have "waitq_raw (waitq_push t q) = waitq_raw q @ [Some t]"
    unfolding q' waitq_raw_def using ring_slice_push [OF len] cnt slot by simp
  then have raw: "waitq_raw (waitq_push t q) = map Some (waitq_list q @ [t])"
    using waitq_raw_conv [OF assms(1)] by simp
  have "waitq_count q + 1 \<le> 6" using n cnt by (simp add: word_le_nat_alt)
  moreover have "\<forall>x \<in> set (waitq_list q @ [t]). x < 6" "distinct (waitq_list q @ [t])"
    using waitq_list_props [OF assms(1)] assms(2) False by auto
  ultimately have "waitq_invar (waitq_push t q) \<and> waitq_list (waitq_push t q) = waitq_list q @ [t]"
    using assms(1) raw by (intro waitq_invarI) (auto simp: q' waitq_invar_def [of q])
  with False show ?thesis by simp
qed

lemma waitq_list_empty: "waitq_list q = [] \<longleftrightarrow> waitq_count q = 0"
  by (simp add: unat_eq_0 flip: length_0_conv)

lemma waitq_pop_empty: "waitq_list q = [] \<Longrightarrow> waitq_pop q = (None, q)"
  by (simp add: waitq_list_empty waitq_pop_def)

lemma waitq_pop_list:
  assumes "waitq_invar q" "waitq_list q = t # ts"
  shows "fst (waitq_pop q) = Some t \<and> waitq_list (snd (waitq_pop q)) = ts \<and>
    waitq_invar (snd (waitq_pop q))"
proof -
  let ?h = "unat (waitq_head q)" and ?n = "unat (waitq_count q)"
  define q' where "q' = snd (waitq_pop q)"
  have ne: "waitq_count q \<noteq> 0" using assms(2) waitq_list_empty [of q] by auto
  have len: "length (uart_waitq q) = 6" and h: "?h < 6"
    using assms(1) by (simp_all add: waitq_invar_def word_less_nat_alt)
  obtain n where n: "?n = Suc n" using ne by (metis not0_implies_Suc unat_eq_0)
  have n6: "n < 6" using n waitq_count_nat [OF assms(1)] by simp
  have "unat (waitq_count q - 1) = n" using n ne by (simp add: unat_minus_one)
  then have q'_eq: "uart_waitq q' = (uart_waitq q)[?h := None]" "unat (waitq_count q') = n"
      "waitq_head q' = (waitq_head q + 1) mod 6"
    using ne by (simp_all add: q'_def waitq_pop_def Let_def kernel_const)
  have hd: "unat (waitq_head q') = Suc ?h mod length (uart_waitq q')"
    using h len by (simp add: q'_eq unat_mod unat_u32_plus1)
  have "map Some (t # ts) = uart_waitq q ! ?h # ring_slice (uart_waitq q) (Suc ?h) n"
    using assms waitq_raw_conv [OF assms(1)] n h len by (simp add: waitq_raw_def ring_slice_Suc)
  moreover have "waitq_raw q' = ring_slice (uart_waitq q) (Suc ?h) n"
    unfolding waitq_raw_def q'_eq(2) hd ring_slice_mod
    using ring_slice_clear [of n "uart_waitq q" ?h None] h len n6 by (simp add: q'_eq)
  ultimately have t: "uart_waitq q ! ?h = Some t" and raw: "waitq_raw q' = map Some ts" by auto
  have "waitq_head q' < 6" "waitq_count q' \<le> 6"
    using n6 by (simp_all add: word_less_nat_alt word_le_nat_alt q'_eq unat_mod)
  moreover have "\<forall>x \<in> set ts. x < 6" "distinct ts"
    using assms waitq_list_valid [OF assms(1)] waitq_list_distinct [OF assms(1)] by auto
  ultimately have "waitq_invar q' \<and> waitq_list q' = ts"
    using raw len by (intro waitq_invarI) (auto simp: q'_eq)
  then show ?thesis using t ne by (simp add: q'_def waitq_pop_def Let_def)
qed

interpretation wq: unique_fifo waitq_invar "\<lambda>t. t < 6" waitq_list "\<lambda>ts t. t \<notin> set ts"
    waitq_push waitq_pop
  by unfold_locales
    (auto simp: waitq_push_list waitq_pop_empty waitq_list_distinct dest: waitq_pop_list waitq_list_valid)

lemma waitq_init_invar [kernel_inv]: "waitq_invar waitq_init"
  by (simp add: waitq_invar_def waitq_init_def waitq_raw_def kernel_const)

lemma waitq_init_list [simp]: "waitq_list waitq_init = []"
  by (simp add: waitq_list_empty waitq_init_def)

section \<open>Properties\<close>

text \<open>C23: the wait queue is a FIFO without duplicates, and never overflows. Whatever the interleaving
  of blocking and waking, the pops return what they return on a plain list that takes
  a thread exactly when it is not in it: the branch of \<open>waitq_push\<close> for a full ring never loses a sleeper.\<close>

theorem waitq_refines_queue:
  assumes "\<forall>t. Push t \<in> set es \<longrightarrow> t < 6"
  shows "fst (queue_run waitq_push waitq_pop es waitq_init) = fst (list_run (\<lambda>ts t. t \<notin> set ts) es [])"
  using wq.trace_refines [OF waitq_init_invar, of es] assms by simp

theorem waitq_refines_queue_witness:
  "fst (queue_run waitq_push waitq_pop [Push 3, Push 5, Push 3, Pop, Pop, Pop] waitq_init) = [Some 3, Some 5, None]"
  using waitq_refines_queue [of "[Push 3, Push 5, Push 3, Pop, Pop, Pop]"] by simp

end
