(* ===== verification/Pgtable.thy ===== *)
theory Pgtable
  imports Platform
begin

text \<open>
  The page tables: the descriptor bits of \<open>kernel/include/mmu.h\<close>, the table builders of
  \<open>kernel/arch/arm/mm/pgtable.c\<close>, the peripheral maps of
  \<open>kernel/platform/{qemu,bbb}/periph_map.c\<close> and the table edits of
  \<open>kernel/arch/arm/mm/mmu.c\<close>.

  An L1 table is a function from its 4096 indices to descriptors. \<open>translate\<close> is the
  hardware's reading of a table of 1 MB sections under the \<open>DACR\<close> value 1 that
  \<open>mmu_enable.S\<close> installs: domain 0 is a client, so the AP bits decide; the AP encodings
  are those \<open>mmu.h\<close> documents and the ARMv7-A table they are taken from.

  The locale \<open>platform_port\<close> is the interface between this code and a platform: what the
  board header and \<open>platform_map_peripherals\<close> must guarantee. The closed forms of the
  boot table and of a process table are proved once, inside it, and it is interpreted
  for both platforms.
\<close>

section \<open>Descriptors (mmu.h)\<close>

definition PDE_TYPE_FAULT :: u32 where [kernel_const]: "PDE_TYPE_FAULT = 0x0"
definition PDE_TYPE_SECTION :: u32 where [kernel_const]: "PDE_TYPE_SECTION = 0x2"
definition PDE_B :: u32 where "PDE_B = push_bit 2 1"
definition PDE_C :: u32 where "PDE_C = push_bit 3 1"
definition PDE_XN :: u32 where "PDE_XN = push_bit 4 1"
definition PDE_DOMAIN :: "u32 \<Rightarrow> u32" where "PDE_DOMAIN n = push_bit 5 n"
definition PDE_AP0 :: u32 where "PDE_AP0 = push_bit 10 1"
definition PDE_AP1 :: u32 where "PDE_AP1 = push_bit 11 1"
definition PDE_AP2 :: u32 where "PDE_AP2 = push_bit 15 1"
definition PDE_AP_KERN_RW :: u32 where "PDE_AP_KERN_RW = PDE_AP0"
definition PDE_AP_KERN_USER_RW :: u32 where "PDE_AP_KERN_USER_RW = PDE_AP0 OR PDE_AP1"

definition PDE_KERNEL_MEM :: u32 where
  "PDE_KERNEL_MEM = PDE_TYPE_SECTION OR PDE_C OR PDE_B OR PDE_AP_KERN_RW OR PDE_DOMAIN 0"
definition PDE_DEVICE :: u32 where
  "PDE_DEVICE = PDE_TYPE_SECTION OR PDE_AP_KERN_RW OR PDE_DOMAIN 0 OR PDE_XN"
definition PDE_USER_TEXT :: u32 where
  "PDE_USER_TEXT = PDE_TYPE_SECTION OR PDE_C OR PDE_B OR PDE_AP_KERN_USER_RW OR PDE_DOMAIN 0"

lemmas pde_defs = PDE_B_def PDE_C_def PDE_XN_def PDE_DOMAIN_def PDE_AP0_def PDE_AP1_def
  PDE_AP2_def PDE_AP_KERN_RW_def PDE_AP_KERN_USER_RW_def PDE_TYPE_SECTION_def

lemma PDE_values [kernel_const]:
  "PDE_KERNEL_MEM = 0x40E" "PDE_DEVICE = 0x412" "PDE_USER_TEXT = 0xC0E"
  by (simp_all add: PDE_KERNEL_MEM_def PDE_DEVICE_def PDE_USER_TEXT_def pde_defs)

definition PGD_ENTRIES :: u32 where [kernel_const]: "PGD_ENTRIES = 4096"
definition PGD_ALIGN :: u32 where [kernel_const]: "PGD_ALIGN = 16384"
definition VA_KERNEL_BASE :: u32 where [kernel_const]: "VA_KERNEL_BASE = 0xC0000000"

type_synonym pgd = "nat \<Rightarrow> u32"

abbreviation pgd_entries :: nat where "pgd_entries \<equiv> unat PGD_ENTRIES"

text \<open>\<open>va >> 20\<close>, the table index of an address.\<close>

definition pgd_index :: "u32 \<Rightarrow> nat" where
  "pgd_index va = unat (drop_bit 20 va)"

section \<open>Table builders (pgtable.c)\<close>

definition map_section :: "u32 \<Rightarrow> u32 \<Rightarrow> u32 \<Rightarrow> pgd \<Rightarrow> pgd" where
  "map_section va pa attrs pgd = pgd(pgd_index va := (pa AND 0xFFF00000) OR attrs)"

definition pgtable_map_range :: "u32 \<Rightarrow> u32 \<Rightarrow> u32 \<Rightarrow> u32 \<Rightarrow> pgd \<Rightarrow> pgd" where
  "pgtable_map_range va pa size_bytes attrs pgd =
     (let count = unat (drop_bit 20 size_bytes)
      in fold (\<lambda>i. map_section (va + push_bit 20 (of_nat i)) (pa + push_bit 20 (of_nat i)) attrs)
           [0..<count] pgd)"

definition qemu_map_peripherals :: "pgd \<Rightarrow> pgd" where
  "qemu_map_peripherals pgd =
     pgtable_map_range 0x1E000000 0x1E000000 (push_bit 20 1) PDE_DEVICE
      (pgtable_map_range 0x10000000 0x10000000 (push_bit 20 2) PDE_DEVICE pgd)"

definition bbb_map_peripherals :: "pgd \<Rightarrow> pgd" where
  "bbb_map_peripherals pgd =
     pgtable_map_range 0x48000000 0x48000000 (push_bit 20 16) PDE_DEVICE
      (pgtable_map_range 0x44E00000 0x44E00000 (push_bit 20 1) PDE_DEVICE pgd)"

primrec platform_map_peripherals :: "platform \<Rightarrow> pgd \<Rightarrow> pgd" where
  "platform_map_peripherals Qemu = qemu_map_peripherals"
| "platform_map_peripherals Bbb = bbb_map_peripherals"

definition mmu_build_boot_pgd :: "board \<Rightarrow> (pgd \<Rightarrow> pgd) \<Rightarrow> pgd \<Rightarrow> pgd" where
  "mmu_build_boot_pgd b map_peripherals pgd =
     map_peripherals
      (pgtable_map_range VA_KERNEL_BASE (RAM_BASE b) (RAM_SIZE b) PDE_KERNEL_MEM
        (pgtable_map_range (RAM_BASE b) (RAM_BASE b) (RAM_SIZE b) PDE_KERNEL_MEM pgd))"

definition pgtable_build_for_proc :: "board \<Rightarrow> pgd \<Rightarrow> u32 \<Rightarrow> pgd \<Rightarrow> pgd" where
  "pgtable_build_for_proc b boot_pgd user_pa pgd =
     (let ident_lo = pgd_index (RAM_BASE b);
          ident_hi = pgd_index (RAM_BASE b + RAM_SIZE b);
          pgd1 = fold (\<lambda>i pgd. pgd(i := 0)) [0..<pgd_entries] pgd;
          pgd2 = fold (\<lambda>i pgd. if boot_pgd i = 0 then pgd
                               else if i \<ge> ident_lo \<and> i < ident_hi then pgd
                               else pgd(i := boot_pgd i)) [0..<pgd_entries] pgd1
      in pgd2(pgd_index USER_VIRT_BASE := (user_pa AND 0xFFF00000) OR PDE_USER_TEXT))"

text \<open>\<open>mmu_drop_identity\<close> of mmu.c: the table edit; \<open>translate\<close> always reads the table,
  and the TLB flush that follows is in \<open>Mmu_Cache\<close>.\<close>

definition mmu_drop_identity :: "board \<Rightarrow> pgd \<Rightarrow> pgd" where
  "mmu_drop_identity b boot_pgd =
     fold (\<lambda>i pgd. pgd(i := 0))
       [pgd_index (RAM_BASE b)..<pgd_index (RAM_BASE b + RAM_SIZE b)] boot_pgd"

section \<open>Reading a table\<close>

datatype privilege = Priv | Usr

definition pde_ap :: "u32 \<Rightarrow> nat" where
  "pde_ap d = (if bit d 15 then 4 else 0) + (if bit d 11 then 2 else 0) + (if bit d 10 then 1 else 0)"

text \<open>The access a client domain grants, by AP[2:0].\<close>

definition ap_allows :: "nat \<Rightarrow> privilege \<Rightarrow> bool \<Rightarrow> bool" where
  "ap_allows ap m write \<longleftrightarrow>
     (case m of
        Priv \<Rightarrow> ap \<in> {1, 2, 3} \<or> (ap \<in> {5, 6, 7} \<and> \<not> write)
      | Usr \<Rightarrow> ap = 3 \<or> (ap \<in> {2, 6, 7} \<and> \<not> write))"

definition is_section :: "u32 \<Rightarrow> bool" where
  "is_section d \<longleftrightarrow> d AND 3 = PDE_TYPE_SECTION"

definition pde_domain :: "u32 \<Rightarrow> u32" where
  "pde_domain d = drop_bit 5 d AND 0xF"

definition translate :: "pgd \<Rightarrow> privilege \<Rightarrow> bool \<Rightarrow> u32 \<Rightarrow> u32 option" where
  "translate pgd m write va =
     (let d = pgd (pgd_index va)
      in if is_section d \<and> pde_domain d = 0 \<and> ap_allows (pde_ap d) m write
         then Some ((d AND 0xFFF00000) OR (va AND 0x000FFFFF))
         else None)"


section \<open>Sections\<close>

text \<open>\<open>sect k\<close> is the address of the \<open>k\<close>-th megabyte.\<close>

definition sect :: "nat \<Rightarrow> u32" where
  "sect k = push_bit 20 (of_nat k)"

lemma sect_add: "sect m + sect n = sect (m + n)"
  by (simp add: sect_def push_bit_add)

lemma unat_sect: "k < 4096 \<Longrightarrow> unat (sect k) = k * 1048576"
  by (simp add: sect_def push_bit_eq_mult unat_word_ariths unat_of_nat take_bit_eq_mod)

lemma pgd_index_nat: "pgd_index va = unat va div 1048576"
  by (simp add: pgd_index_def drop_bit_eq_div unat_div)

lemma pgd_index_less: "pgd_index va < 4096"
  using unat_u32_less [of va] by (simp add: pgd_index_nat less_mult_imp_div_less)

lemma pgd_index_sect [simp]: "k < 4096 \<Longrightarrow> pgd_index (sect k) = k"
  by (simp add: pgd_index_nat unat_sect)

lemma sect_mask: "sect k AND 0xFFF00000 = sect k"
proof -
  have "(0xFFF00000 :: u32) = NOT (mask 20)" by (simp add: mask_eq_exp_minus_1)
  then show ?thesis
    by (simp add: sect_def bit_eq_iff bit_simps) (auto simp: bit_simps)
qed

lemma sect_in_bounds: "pgd_index va = k \<Longrightarrow> unat (sect k) \<le> unat va \<and> unat va < unat (sect k) + 1048576"
  using pgd_index_less [of va] by (auto simp: pgd_index_nat unat_sect dest: order_le_less_trans)


lemma sect_or_add: "sect k OR (va AND 0xFFFFF) = sect k + (va AND 0xFFFFF)"
proof -
  have m: "(0xFFFFF :: u32) = mask 20" by (simp add: mask_eq_exp_minus_1)
  have "sect k AND (va AND 0xFFFFF) = 0"
    unfolding m sect_def by (rule bit_word_eqI) (auto simp: bit_simps)
  then show ?thesis by (simp add: disjunctive_add_eq_or)
qed

lemma sect_index_offset: "sect (pgd_index va) + (va AND 0xFFFFF) = va"
proof -
  have m: "(0xFFFFF :: u32) = mask 20" by (simp add: mask_eq_exp_minus_1)
  have "sect (pgd_index va) = push_bit 20 (drop_bit 20 va)" by (simp add: sect_def pgd_index_def)
  moreover have "push_bit 20 (drop_bit 20 va) + take_bit 20 va = va"
    by (metis add.commute bits_ident)
  ultimately show ?thesis by (simp only: m take_bit_eq_mask)
qed

lemma offset_in_section: "pgd_index va = k \<Longrightarrow> va AND 0xFFFFF = va - sect k"
  using sect_index_offset [of va] by (metis add_diff_cancel_left')

section \<open>What a descriptor grants\<close>

lemma and_20_take_bit: "(x::u32) AND 0xFFFFF = take_bit 20 x"
  by (simp add: take_bit_eq_mask mask_eq_exp_minus_1)

lemma take_bit_section: "take_bit 20 (sect k OR a) = take_bit 20 a"
  by (simp add: sect_def take_bit_push_bit)

lemma high_section: "take_bit 20 a = a \<Longrightarrow> (sect k OR a) AND 0xFFF00000 = sect k"
proof -
  assume a: "take_bit 20 a = a"
  have m: "(0xFFF00000 :: u32) = NOT (mask 20)" by (simp add: mask_eq_exp_minus_1)
  have "take_bit 20 a AND NOT (mask 20) = 0"
    by (rule bit_word_eqI) (simp add: bit_simps)
  with a have "a AND NOT (mask 20) = 0" by simp
  then show ?thesis
    using sect_mask [of k] by (simp add: m bit.conj_disj_distrib2)
qed

lemma descriptor_low:
  "is_section d = is_section (take_bit 20 d)"
  "pde_domain d = pde_domain (take_bit 20 d)"
  "pde_ap d = pde_ap (take_bit 20 d)"
proof -
  have masks: "(3::u32) = mask 2" "(0xF::u32) = mask 4" by (simp_all add: mask_eq_exp_minus_1)
  have "d AND 3 = take_bit 20 d AND 3"
    unfolding masks by (rule bit_word_eqI) (auto simp: bit_simps)
  then show "is_section d = is_section (take_bit 20 d)" by (simp add: is_section_def)
  have "drop_bit 5 d AND 0xF = drop_bit 5 (take_bit 20 d) AND 0xF"
    unfolding masks by (rule bit_word_eqI) (auto simp: bit_simps)
  then show "pde_domain d = pde_domain (take_bit 20 d)" by (simp add: pde_domain_def)
  show "pde_ap d = pde_ap (take_bit 20 d)" by (simp add: pde_ap_def bit_simps)
qed


definition sect_grants :: "u32 \<Rightarrow> privilege \<Rightarrow> bool \<Rightarrow> bool" where
  "sect_grants attrs m w \<longleftrightarrow> is_section attrs \<and> pde_domain attrs = 0 \<and> ap_allows (pde_ap attrs) m w"

lemma grants [simp]:
  "sect_grants PDE_KERNEL_MEM m w \<longleftrightarrow> m = Priv"
  "sect_grants PDE_DEVICE m w \<longleftrightarrow> m = Priv"
  "sect_grants PDE_USER_TEXT m w"
  by (cases m; simp add: sect_grants_def is_section_def pde_domain_def pde_ap_def ap_allows_def
      kernel_const bit_numeral_rec)+

lemma translate_section:
  assumes "pgd (pgd_index va) = sect k OR attrs" "take_bit 20 attrs = attrs"
  shows "translate pgd m w va =
    (if sect_grants attrs m w then Some (sect k + (va AND 0xFFFFF)) else None)"
proof -
  have "take_bit 20 (sect k OR attrs) = attrs" by (metis assms(2) take_bit_section)
  then show ?thesis
    using assms descriptor_low [of "sect k OR attrs"]
    by (simp add: translate_def sect_grants_def high_section sect_or_add)
qed

lemma translate_fault: "pgd (pgd_index va) = 0 \<Longrightarrow> translate pgd m w va = None"
  by (simp add: translate_def is_section_def kernel_const)

lemma attrs_low: "take_bit 20 PDE_KERNEL_MEM = PDE_KERNEL_MEM" "take_bit 20 PDE_DEVICE = PDE_DEVICE"
  "take_bit 20 PDE_USER_TEXT = PDE_USER_TEXT"
  by (simp_all add: kernel_const)

text \<open>Writing a range of sections.\<close>

lemma map_section_sect: "k < 4096 \<Longrightarrow> map_section (sect k) (sect j) attrs pgd = pgd(k := sect j OR attrs)"
  by (simp add: map_section_def sect_mask)

lemma pgtable_map_range_sect:
  assumes "v + n \<le> 4096" "n < 4096"
  shows "pgtable_map_range (sect v) (sect p) (sect n) attrs pgd i =
    (if v \<le> i \<and> i < v + n then sect (p + (i - v)) OR attrs else pgd i)"
proof -
  define f where "f = (\<lambda>j. map_section (sect v + push_bit 20 (of_nat j)) (sect p + push_bit 20 (of_nat j)) attrs)"
  have f: "f j pgd = pgd(v + j := sect (p + j) OR attrs)" if "j < n" for j pgd
    using that assms by (simp add: f_def sect_def [symmetric] sect_add map_section_sect)
  have "fold f [0..<m] pgd i =
      (if v \<le> i \<and> i < v + m then sect (p + (i - v)) OR attrs else pgd i)" if "m \<le> n" for m
    using that by (induction m) (auto simp: f)
  moreover have "unat (drop_bit 20 (sect n)) = n"
    using assms pgd_index_sect [of n] by (simp add: pgd_index_def)
  ultimately show ?thesis by (simp add: pgtable_map_range_def f_def)
qed


section \<open>The port: what a platform provides\<close>

locale platform_port =
  fixes b :: board
    and map_periph :: "pgd \<Rightarrow> pgd"
    and periph :: "nat set"
    and ram_lo ram_n :: nat
  assumes ram_base: "RAM_BASE b = sect ram_lo"
    and ram_size: "RAM_SIZE b = sect ram_n"
    and ram_above_user: "0x400 < ram_lo"
    and ram_below_kernel: "ram_lo + ram_n \<le> 0xC00"
    and alias_fits: "ram_n \<le> 0x400"
    and slots_fit: "5 \<le> ram_n"
    and periph_entry: "map_periph pgd i = (if i \<in> periph then sect i OR PDE_DEVICE else pgd i)"
    and periph_apart: "i \<in> periph \<Longrightarrow>
      0 < i \<and> i < 0xC00 \<and> i \<noteq> 0x400 \<and> \<not> (ram_lo \<le> i \<and> i < ram_lo + ram_n)"
begin

lemma ram_end: "pgd_index (RAM_BASE b) = ram_lo \<and> pgd_index (RAM_BASE b + RAM_SIZE b) = ram_lo + ram_n"
  using ram_below_kernel by (simp add: ram_base ram_size sect_add)

lemma phys_offset_sect: "sect (ram_lo + i) + PHYS_OFFSET b = sect (0xC00 + i)"
proof -
  have "(0xC0000000::u32) = sect 0xC00" by (simp add: sect_def)
  then show ?thesis by (simp add: PHYS_OFFSET_def ram_base sect_def push_bit_add)
qed

text \<open>The boot table: RAM at its physical address and at the kernel alias, devices at
  their own addresses, everything else a fault.\<close>

lemma boot_entry:
  "mmu_build_boot_pgd b map_periph (\<lambda>_. 0) i =
     (if i \<in> periph then sect i OR PDE_DEVICE
      else if 0xC00 \<le> i \<and> i < 0xC00 + ram_n then sect (ram_lo + (i - 0xC00)) OR PDE_KERNEL_MEM
      else if ram_lo \<le> i \<and> i < ram_lo + ram_n then sect i OR PDE_KERNEL_MEM
      else 0)"
proof -
  have k: "VA_KERNEL_BASE = sect 0xC00" by (simp add: sect_def kernel_const)
  have "pgtable_map_range (RAM_BASE b) (RAM_BASE b) (RAM_SIZE b) PDE_KERNEL_MEM (\<lambda>_. 0) i =
      (if ram_lo \<le> i \<and> i < ram_lo + ram_n then sect i OR PDE_KERNEL_MEM else 0)" for i
    using ram_below_kernel ram_above_user
    by (simp add: ram_base ram_size pgtable_map_range_sect del: of_nat_numeral)
  then show ?thesis
    using alias_fits by (simp add: mmu_build_boot_pgd_def periph_entry k ram_base ram_size
        pgtable_map_range_sect)
qed

text \<open>A process table: the boot table without the identity map of RAM, plus the user
  section.\<close>

lemma sect_or_nonzero: "attrs \<noteq> 0 \<Longrightarrow> sect k OR attrs \<noteq> (0::u32)"
  by (simp add: or_eq_0_iff)

lemma proc_entry:
  assumes boot: "\<And>i. boot i = mmu_build_boot_pgd b map_periph (\<lambda>_. 0) i" and "i < 4096"
  shows "pgtable_build_for_proc b boot (sect u) pgd i =
     (if i = 0x400 then sect u OR PDE_USER_TEXT
      else if i \<in> periph then sect i OR PDE_DEVICE
      else if 0xC00 \<le> i \<and> i < 0xC00 + ram_n then sect (ram_lo + (i - 0xC00)) OR PDE_KERNEL_MEM
      else 0)"
proof -
  have user: "pgd_index USER_VIRT_BASE = 0x400" by (simp add: pgd_index_nat kernel_const)
  define skip where "skip i \<longleftrightarrow> boot i \<noteq> 0 \<and> \<not> (ram_lo \<le> i \<and> i < ram_lo + ram_n)" for i
  have copy: "(\<lambda>i pgd. if boot i = 0 then pgd
        else if ram_lo \<le> i \<and> i < ram_lo + ram_n then pgd else pgd(i := boot i)) =
      (\<lambda>i pgd. if skip i then pgd(i := boot i) else pgd)"
    by (auto simp: fun_eq_iff skip_def)
  have "pgtable_build_for_proc b boot (sect u) pgd i =
      (if i = 0x400 then sect u OR PDE_USER_TEXT else if skip i then boot i else 0)"
    using \<open>i < 4096\<close> user ram_end
      fold_fun_upd_guard [of skip boot 0 4096 "fold (\<lambda>i pgd. pgd(i := 0)) [0..<4096] pgd" i]
      fold_fun_upd_upto [of "\<lambda>_. 0" 0 4096 pgd i]
    by (simp add: pgtable_build_for_proc_def Let_def copy sect_mask PGD_ENTRIES_def)
  then show ?thesis
    using periph_apart [of i] ram_below_kernel ram_above_user
    by (auto simp: skip_def boot boot_entry sect_or_nonzero kernel_const)
qed

lemma drop_identity_entry:
  "mmu_drop_identity b pgd i = (if ram_lo \<le> i \<and> i < ram_lo + ram_n then 0 else pgd i)"
  by (simp add: mmu_drop_identity_def ram_end fold_fun_upd_upto)


lemma alias_sect:
  assumes "0xC00 \<le> pgd_index va"
  shows "sect (ram_lo + (pgd_index va - 0xC00)) + (va AND 0xFFFFF) = va - PHYS_OFFSET b"
proof -
  have "sect (ram_lo + (pgd_index va - 0xC00)) + PHYS_OFFSET b = sect (pgd_index va)"
    using phys_offset_sect [of "pgd_index va - 0xC00"] assms by simp
  then have "sect (ram_lo + (pgd_index va - 0xC00)) = sect (pgd_index va) - PHYS_OFFSET b"
    by (metis add_diff_cancel_right')
  then show ?thesis
    using sect_index_offset [of va] by (metis (no_types) add_diff_eq add.commute)
qed

text \<open>What user code and what the kernel can reach through a process table.\<close>

lemma proc_translate_user:
  assumes boot: "\<And>i. boot i = mmu_build_boot_pgd b map_periph (\<lambda>_. 0) i"
  shows "translate (pgtable_build_for_proc b boot (sect u) pgd) Usr w va =
    (if pgd_index va = 0x400 then Some (sect u + (va - sect 0x400)) else None)"
proof -
  let ?pgd = "pgtable_build_for_proc b boot (sect u) pgd" and ?i = "pgd_index va"
  note entry = proc_entry [OF boot pgd_index_less, of u pgd va]
  consider "?i = 0x400" | "?pgd ?i = 0" | k where "?pgd ?i = sect k OR PDE_DEVICE" "?i \<noteq> 0x400"
    | k where "?pgd ?i = sect k OR PDE_KERNEL_MEM" "?i \<noteq> 0x400"
    using entry by (auto split: if_splits)
  then show ?thesis
  proof cases
    case 1
    then show ?thesis
      using entry translate_section [of ?pgd va u PDE_USER_TEXT] attrs_low
      by (simp add: offset_in_section)
  next
    case 2
    then have "?i \<noteq> 0x400" using entry by (auto simp: kernel_const or_eq_0_iff)
    with 2 show ?thesis by (simp add: translate_fault)
  next
    case 3
    then show ?thesis using translate_section [of ?pgd va k PDE_DEVICE] attrs_low by simp
  next
    case 4
    then show ?thesis using translate_section [of ?pgd va k PDE_KERNEL_MEM] attrs_low by simp
  qed
qed

lemma proc_translate_priv:
  assumes boot: "\<And>i. boot i = mmu_build_boot_pgd b map_periph (\<lambda>_. 0) i"
  shows "translate (pgtable_build_for_proc b boot (sect u) pgd) Priv w va =
    (if pgd_index va = 0x400 then Some (sect u + (va - sect 0x400))
     else if pgd_index va \<in> periph then Some va
     else if 0xC00 \<le> pgd_index va \<and> pgd_index va < 0xC00 + ram_n then Some (va - PHYS_OFFSET b)
     else None)"
proof -
  let ?pgd = "pgtable_build_for_proc b boot (sect u) pgd" and ?i = "pgd_index va"
  note entry = proc_entry [OF boot pgd_index_less, of u pgd va]
  consider "?i = 0x400" | "?i \<in> periph" "?i \<noteq> 0x400"
    | "0xC00 \<le> ?i" "?i < 0xC00 + ram_n" "?i \<notin> periph" "?i \<noteq> 0x400"
    | "?i \<noteq> 0x400" "?i \<notin> periph" "\<not> (0xC00 \<le> ?i \<and> ?i < 0xC00 + ram_n)"
    by blast
  then show ?thesis
  proof cases
    case 1
    then show ?thesis
      using entry translate_section [of ?pgd va u PDE_USER_TEXT] attrs_low
      by (simp add: offset_in_section)
  next
    case 2
    then show ?thesis
      using entry translate_section [of ?pgd va ?i PDE_DEVICE] attrs_low
      by (simp add: sect_index_offset)
  next
    case 3
    then have "sect (ram_lo + (?i - 0xC00)) + (va AND 0xFFFFF) = va - PHYS_OFFSET b"
      by (intro alias_sect)
    with 3 show ?thesis
      using entry translate_section [of ?pgd va "ram_lo + (?i - 0xC00)" PDE_KERNEL_MEM] attrs_low
      by simp
  next
    case 4
    then have "?pgd ?i = 0" using entry by auto
    with 4 show ?thesis by (auto simp: translate_fault)
  qed
qed

text \<open>What the boot table maps, before and after \<open>mmu_drop_identity\<close>.\<close>

lemma boot_translate:
  "translate (mmu_build_boot_pgd b map_periph (\<lambda>_. 0)) m w va =
    (if m = Usr then None
     else if pgd_index va \<in> periph \<or> (ram_lo \<le> pgd_index va \<and> pgd_index va < ram_lo + ram_n)
       then Some va
     else if 0xC00 \<le> pgd_index va \<and> pgd_index va < 0xC00 + ram_n then Some (va - PHYS_OFFSET b)
     else None)"
proof -
  let ?pgd = "mmu_build_boot_pgd b map_periph (\<lambda>_. 0)" and ?i = "pgd_index va"
  note entry = boot_entry [of ?i]
  consider "?i \<in> periph" | "0xC00 \<le> ?i" "?i < 0xC00 + ram_n" "?i \<notin> periph"
    | "ram_lo \<le> ?i" "?i < ram_lo + ram_n" "?i \<notin> periph" "\<not> (0xC00 \<le> ?i \<and> ?i < 0xC00 + ram_n)"
    | "?i \<notin> periph" "\<not> (0xC00 \<le> ?i \<and> ?i < 0xC00 + ram_n)" "\<not> (ram_lo \<le> ?i \<and> ?i < ram_lo + ram_n)"
    by blast
  then show ?thesis
  proof cases
    case 1
    then show ?thesis
      using entry translate_section [of ?pgd va ?i PDE_DEVICE] attrs_low
      by (cases m) (simp_all add: sect_index_offset)
  next
    case 2
    then show ?thesis
      using entry translate_section [of ?pgd va "ram_lo + (?i - 0xC00)" PDE_KERNEL_MEM] attrs_low
        ram_below_kernel alias_sect [of va] by (cases m) simp_all
  next
    case 3
    have "?pgd ?i = sect ?i OR PDE_KERNEL_MEM"
      by (simp only: entry 3 if_False simp_thms if_True)
    from 3 translate_section [of ?pgd va ?i, OF this attrs_low(1)] show ?thesis
      by (cases m) (auto simp: sect_index_offset)
  next
    case 4
    then have "?pgd ?i = 0" using entry by auto
    with 4 show ?thesis by (auto simp: translate_fault)
  qed
qed

lemma drop_identity_translate:
  "translate (mmu_drop_identity b pgd) m w va =
    (if ram_lo \<le> pgd_index va \<and> pgd_index va < ram_lo + ram_n then None else translate pgd m w va)"
  by (auto simp: drop_identity_entry translate_fault) (simp add: translate_def drop_identity_entry)+

end

section \<open>Both platforms\<close>

interpretation qemu: platform_port qemu_board qemu_map_peripherals "{0x100, 0x101, 0x1E0}" "0x700" "0x80"
proof unfold_locales
  have s: "(0x10000000::u32) = sect 0x100" "(0x1E000000::u32) = sect 0x1E0"
    "push_bit 20 (1::u32) = sect 1" "push_bit 20 (2::u32) = sect 2"
    by (simp_all add: sect_def)
  show "qemu_map_peripherals pgd i =
      (if i \<in> {0x100, 0x101, 0x1E0} then sect i OR PDE_DEVICE else pgd i)" for pgd i
    unfolding qemu_map_peripherals_def s by (auto simp: pgtable_map_range_sect)
qed (auto simp: qemu_board_def sect_def)

interpretation bbb: platform_port bbb_board bbb_map_peripherals "insert 0x44E {0x480..<0x490}" "0x800" "0x200"
proof unfold_locales
  have s: "(0x44E00000::u32) = sect 0x44E" "(0x48000000::u32) = sect 0x480"
    "push_bit 20 (1::u32) = sect 1" "push_bit 20 (16::u32) = sect 16"
    by (simp_all add: sect_def)
  show "bbb_map_peripherals pgd i =
      (if i \<in> insert 0x44E {0x480..<0x490} then sect i OR PDE_DEVICE else pgd i)" for pgd i
    unfolding bbb_map_peripherals_def s by (auto simp: pgtable_map_range_sect)
qed (auto simp: bbb_board_def sect_def)


text \<open>The tables a build makes: the boot table, and the table of process \<open>i\<close>, whose slot
  is \<open>USER_PHYS_BASE + i * USER_PHYS_STRIDE\<close> (\<open>process_init_all\<close>).\<close>

definition boot_table :: "platform \<Rightarrow> pgd" where
  "boot_table p = mmu_build_boot_pgd (board_of p) (platform_map_peripherals p) (\<lambda>_. 0)"

definition user_slot :: "board \<Rightarrow> nat \<Rightarrow> u32" where
  "user_slot b i = USER_PHYS_BASE b + of_nat i * USER_PHYS_STRIDE"

lemma user_slot_sect:
  "user_slot qemu_board i = sect (0x702 + i)" "user_slot bbb_board i = sect (0x802 + i)"
  by (simp_all add: user_slot_def board_defs kernel_const sect_def push_bit_eq_mult algebra_simps)

lemma sect_400: "sect 0x400 = USER_VIRT_BASE"
  by (simp add: sect_def kernel_const)

lemma in_user_window:
  "pgd_index va = 0x400 \<longleftrightarrow> USER_VIRT_BASE \<le> va \<and> va < USER_VIRT_BASE + USER_REGION_SIZE"
  by (simp add: pgd_index_nat kernel_const word_le_nat_alt word_less_nat_alt) arith

abbreviation proc_table :: "platform \<Rightarrow> nat \<Rightarrow> pgd \<Rightarrow> pgd" where
  "proc_table p i pgd \<equiv>
     pgtable_build_for_proc (board_of p) (boot_table p) (user_slot (board_of p) i) pgd"

lemma proc_table_user:
  "translate (proc_table p i pgd) Usr w va =
    (if USER_VIRT_BASE \<le> va \<and> va < USER_VIRT_BASE + USER_REGION_SIZE
     then Some (user_slot (board_of p) i + (va - USER_VIRT_BASE)) else None)"
  unfolding in_user_window [symmetric] unfolding sect_400 [symmetric]
  by (cases p) (simp_all add: user_slot_sect boot_table_def qemu.proc_translate_user bbb.proc_translate_user)

lemma proc_table_priv_window:
  "USER_VIRT_BASE \<le> va \<Longrightarrow> va < USER_VIRT_BASE + USER_REGION_SIZE \<Longrightarrow>
   translate (proc_table p i pgd) Priv w va = Some (user_slot (board_of p) i + (va - USER_VIRT_BASE))"
  using in_user_window [of va] unfolding sect_400 [symmetric]
  by (cases p) (simp_all add: user_slot_sect boot_table_def qemu.proc_translate_priv bbb.proc_translate_priv)


section \<open>Properties\<close>

lemma unat_user_slot: "i < 3 \<Longrightarrow> unat (user_slot (board_of p) i) =
    unat (RAM_BASE (board_of p)) + 0x200000 + i * 0x100000"
  by (cases p; simp add: user_slot_sect unat_sect; simp add: board_defs)

lemma unat_user_pa:
  assumes "i < 3" "USER_VIRT_BASE \<le> va" "va < USER_VIRT_BASE + USER_REGION_SIZE"
  shows "unat (user_slot (board_of p) i + (va - USER_VIRT_BASE)) =
    unat (RAM_BASE (board_of p)) + 0x200000 + i * 0x100000 + (unat va - 0x40000000)"
proof -
  have va: "unat (va - USER_VIRT_BASE) = unat va - 0x40000000" "unat va - 0x40000000 < 0x100000"
    using assms(2,3) by (simp_all add: unat_sub kernel_const word_le_nat_alt word_less_nat_alt)
  moreover have "unat (RAM_BASE (board_of p)) \<le> 0x80000000" by (cases p) (simp_all add: board_defs)
  ultimately show ?thesis
    using assms(1) by (subst unat_u32_add) (simp_all add: unat_user_slot)
qed

text \<open>C20: Address-space isolation. Through the table \<open>pgtable_build_for_proc\<close> builds for
  process \<open>i\<close>, user code can read or write exactly the 1 MB window at 0x40000000, and the
  window leads to the process's own physical slot; no other virtual address (kernel
  alias, devices, NULL, other memory) is accessible in user mode, on either platform.\<close>

theorem user_window_is_exact:
  "translate (pgtable_build_for_proc (board_of p) (boot_table p) (user_slot (board_of p) i) pgd)
      Usr w va = Some pa
   \<longleftrightarrow> 0x40000000 \<le> va \<and> va < 0x40100000 \<and> pa = user_slot (board_of p) i + (va - 0x40000000)"
  by (auto simp: proc_table_user kernel_const)

text \<open>Physical isolation. Two processes never reach the same physical byte from user
  mode: an address user code of one process can access is never one user code of
  another process can access.\<close>

theorem user_slots_disjoint:
  assumes "i < 3" "j < 3" "i \<noteq> j"
    and "translate (proc_table p i pgd) Usr w va = Some pa"
    and "translate (proc_table p j pgd') Usr w' va' = Some pa'"
  shows "pa \<noteq> pa'"
proof -
  have i: "unat pa = unat (RAM_BASE (board_of p)) + 0x200000 + i * 0x100000 + (unat va - 0x40000000)"
      "unat va - 0x40000000 < 0x100000"
    using assms(1,4) unat_user_pa [of i va p]
    by (auto simp: proc_table_user kernel_const word_le_nat_alt word_less_nat_alt split: if_splits)
  have j: "unat pa' = unat (RAM_BASE (board_of p)) + 0x200000 + j * 0x100000 + (unat va' - 0x40000000)"
      "unat va' - 0x40000000 < 0x100000"
    using assms(2,5) unat_user_pa [of j va' p]
    by (auto simp: proc_table_user kernel_const word_le_nat_alt word_less_nat_alt split: if_splits)
  show ?thesis
  proof
    assume "pa = pa'"
    with i(1) j(1) have "i * 0x100000 + (unat va - 0x40000000) = j * 0x100000 + (unat va' - 0x40000000)"
      by simp
    then have "i = j" using i(2) j(2) by (rule region_unique)
    with assms(3) show False by simp
  qed
qed


text \<open>The kernel's view through a process table: the user window of that process, the
  platform's device sections at their own addresses, the alias of RAM at 0xC0000000 (an
  alias address minus \<open>PHYS_OFFSET\<close>) and nothing else. In particular the NULL megabyte and the
  RAM identity map fault even in kernel mode.\<close>

theorem kernel_view_of_process_table:
  "translate (proc_table p i pgd) Priv w va =
    (if 0x40000000 \<le> va \<and> va < 0x40100000 then Some (user_slot (board_of p) i + (va - 0x40000000))
     else if pgd_index va \<in> (case p of Qemu \<Rightarrow> {0x100, 0x101, 0x1E0} | Bbb \<Rightarrow> insert 0x44E {0x480..<0x490})
       then Some va
     else if 0xC00 \<le> pgd_index va \<and> pgd_index va < 0xC00 + pgd_index (RAM_SIZE (board_of p))
       then Some (va - PHYS_OFFSET (board_of p))
     else None)"
proof -
  have win: "0x40000000 \<le> va \<and> va < 0x40100000 \<longleftrightarrow> pgd_index va = 0x400"
    using in_user_window [of va] by (simp add: kernel_const)
  have base: "(0x40000000 :: u32) = sect 0x400" by (simp add: sect_def)
  show ?thesis
  proof (cases p)
    case Qemu
    then show ?thesis
      unfolding win unfolding base
      by (simp add: user_slot_sect boot_table_def qemu.proc_translate_priv qemu.ram_size)
  next
    case Bbb
    then show ?thesis
      unfolding win unfolding base
      by (simp add: user_slot_sect boot_table_def bbb.proc_translate_priv bbb.ram_size)
  qed
qed

text \<open>The boot table of \<open>mmu_build_boot_pgd\<close> maps RAM twice, at its physical address and
  at the kernel alias, and the devices at their own addresses; \<open>mmu_drop_identity\<close> takes
  away exactly the map of RAM at its physical address. Nothing is accessible in user mode
  through either table.\<close>

theorem boot_table_view:
  "let i = pgd_index va; lo = pgd_index (RAM_BASE (board_of p)); n = pgd_index (RAM_SIZE (board_of p));
       dev = (case p of Qemu \<Rightarrow> {0x100, 0x101, 0x1E0} | Bbb \<Rightarrow> insert 0x44E {0x480..<0x490})
   in translate (boot_table p) m w va =
        (if m = Usr then None
         else if i \<in> dev \<or> (lo \<le> i \<and> i < lo + n) then Some va
         else if 0xC00 \<le> i \<and> i < 0xC00 + n then Some (va - PHYS_OFFSET (board_of p))
         else None)
      \<and> translate (mmu_drop_identity (board_of p) (boot_table p)) m w va =
        (if lo \<le> i \<and> i < lo + n then None else translate (boot_table p) m w va)"
  by (cases p; simp add: Let_def boot_table_def qemu.boot_translate bbb.boot_translate
      qemu.drop_identity_translate bbb.drop_identity_translate qemu.ram_base bbb.ram_base
      qemu.ram_size bbb.ram_size)

end
