(* ===== verification/Uart_Format.thy ===== *)
theory Uart_Format
  imports Kernel_Prelude
begin

text \<open>
  The formatting half of \<open>kernel/drivers/uart/uart_core.c\<close>. Every function here only emits
  bytes through \<open>uart_putc\<close>, so its model is the list of the characters it passes to
  \<open>uart_putc\<close>, in order; \<open>console_bytes\<close> is what \<open>uart_putc\<close> then hands to the chip
  driver (a carriage return before every newline).

  A C string is its list of characters without the terminator. \<open>uart_printf\<close> is partial:
  \<open>None\<close> where the C code has no defined behaviour, namely an argument that is missing or
  of the wrong kind, a null pointer for \<open>%s\<close>, and a format that ends in a single \<open>%\<close>, where
  the code reads past the terminator.
\<close>

section \<open>Model\<close>

definition uart_putc :: "char \<Rightarrow> string" where
  "uart_putc c = (if c = CHR 0x0A then [CHR 0x0D, c] else [c])"

definition console_bytes :: "string \<Rightarrow> string" where
  "console_bytes cs = concat (map uart_putc cs)"

definition uart_puts :: "string \<Rightarrow> string" where
  "uart_puts s = s"

text \<open>The loop \<open>for (i = 28; i >= 0; i -= 4)\<close>.\<close>

definition nibble_shifts :: "nat list" where
  "nibble_shifts = [28, 24, 20, 16, 12, 8, 4, 0]"

definition nibble :: "u32 \<Rightarrow> nat \<Rightarrow> nat" where
  "nibble v i = unat (drop_bit i v AND 0xF)"

definition uart_print_hex :: "u32 \<Rightarrow> string" where
  "uart_print_hex val = uart_puts ''0x'' @ map (\<lambda>i. ''0123456789ABCDEF'' ! nibble val i) nibble_shifts"

text \<open>The digits \<open>buf[0], buf[1], ...\<close>, least significant first.\<close>

function dec_buf :: "u32 \<Rightarrow> string" where
  "dec_buf val = (if val > 0 then char_of (48 + unat (val mod 10)) # dec_buf (val div 10) else [])"
  by pat_completeness auto
termination
  by (relation "measure unat") (auto simp: unat_div word_less_nat_alt unat_gt_0)

declare dec_buf.simps [simp del]

definition uart_print_dec :: "u32 \<Rightarrow> string" where
  "uart_print_dec val = (if val = 0 then ''0'' else rev (dec_buf val))"

text \<open>\<open>(uint32_t)(-(val + 1)) + 1\<close>: the magnitude of a negative \<open>int32_t\<close> without overflow.\<close>

definition uart_print_int :: "u32 \<Rightarrow> string" where
  "uart_print_int val =
     (if sint val < 0 then CHR ''-'' # uart_print_dec (word_of_int (- (sint val + 1)) + 1)
      else uart_print_dec val)"

datatype printf_arg = ArgInt u32 | ArgStr "string option"

definition hex_lower :: string where
  "hex_lower = ''0123456789abcdef''"

definition hex8 :: "u32 \<Rightarrow> string" where
  "hex8 v = map (\<lambda>i. hex_lower ! nibble v i) nibble_shifts"

definition hex_trim :: "u32 \<Rightarrow> string" where
  "hex_trim v = map (\<lambda>i. hex_lower ! nibble v i)
     (dropWhile (\<lambda>i. \<not> (nibble v i \<noteq> 0 \<or> i = 0)) nibble_shifts)"

definition pad_right :: "nat \<Rightarrow> string \<Rightarrow> string" where
  "pad_right w s = s @ replicate (w - length s) (CHR '' '')"

definition is_padded_s :: "string \<Rightarrow> bool" where
  "is_padded_s fmt \<longleftrightarrow> 3 \<le> length fmt \<and> fmt ! 0 = CHR ''-'' \<and>
     of_char (fmt ! 1) \<ge> (49::nat) \<and> of_char (fmt ! 1) \<le> (57::nat) \<and> fmt ! 2 = CHR ''s''"

definition emit :: "string \<Rightarrow> string option \<Rightarrow> string option" where
  "emit out r = map_option (\<lambda>rest. out @ rest) r"

definition arg_int :: "printf_arg list \<Rightarrow> (u32 \<Rightarrow> string) \<Rightarrow> string option" where
  "arg_int ap f = (case ap of ArgInt v # _ \<Rightarrow> Some (f v) | _ \<Rightarrow> None)"

text \<open>One conversion letter after \<open>%\<close>: the characters emitted, and whether an argument is taken.\<close>

definition conversion :: "char \<Rightarrow> printf_arg list \<Rightarrow> (string \<times> bool) option" where
  "conversion c ap =
     (if c = CHR ''c'' then map_option (\<lambda>s. (s, True)) (arg_int ap (\<lambda>v. [char_of (unat v)]))
      else if c = CHR ''s'' then (case ap of ArgStr (Some s) # _ \<Rightarrow> Some (uart_puts s, True) | _ \<Rightarrow> None)
      else if c = CHR ''d'' then map_option (\<lambda>s. (s, True)) (arg_int ap uart_print_int)
      else if c = CHR ''u'' then map_option (\<lambda>s. (s, True)) (arg_int ap uart_print_dec)
      else if c = CHR ''x'' then map_option (\<lambda>s. (s, True)) (arg_int ap hex_trim)
      else if c = CHR ''p'' then map_option (\<lambda>s. (s, True)) (arg_int ap (\<lambda>v. uart_puts ''0x'' @ hex8 v))
      else if c = CHR ''%'' then Some (''%'', False)
      else Some ([CHR ''%'', c], False))"

fun uart_printf :: "string \<Rightarrow> printf_arg list \<Rightarrow> string option" where
  "uart_printf [] ap = Some []"
| "uart_printf (c # fmt) ap =
     (if c \<noteq> CHR ''%'' then emit [c] (uart_printf fmt ap)
      else if is_padded_s fmt then
        (case ap of
           ArgStr s # ap' \<Rightarrow>
             emit (pad_right (of_char (fmt ! 1) - 48) (case s of None \<Rightarrow> ''(null)'' | Some s \<Rightarrow> s))
               (uart_printf (drop 3 fmt) ap')
         | _ \<Rightarrow> None)
      else if take 3 fmt = ''08x'' then
        (case ap of
           ArgInt v # ap' \<Rightarrow> emit (hex8 v) (uart_printf (drop 3 fmt) ap')
         | _ \<Rightarrow> None)
      else
        (case fmt of
           [] \<Rightarrow> None
         | d # fmt' \<Rightarrow>
             (case conversion d ap of
                None \<Rightarrow> None
              | Some (out, takes) \<Rightarrow> emit out (uart_printf fmt' (if takes then tl ap else ap)))))"


section \<open>Reading numbers back\<close>

text \<open>The value of a string of decimal, and of hexadecimal, digits.\<close>

definition dec_val :: "string \<Rightarrow> nat" where
  "dec_val s = foldl (\<lambda>a c. a * 10 + (of_char c - 48)) 0 s"

definition is_digit :: "char \<Rightarrow> bool" where
  "is_digit c \<longleftrightarrow> 48 \<le> (of_char c :: nat) \<and> of_char c \<le> (57::nat)"

definition hexdigit_val :: "char \<Rightarrow> nat" where
  "hexdigit_val c = (if of_char c \<ge> (97::nat) then of_char c - 87 else of_char c - 48)"

definition hex_val :: "string \<Rightarrow> nat" where
  "hex_val s = foldl (\<lambda>a c. a * 16 + hexdigit_val c) 0 s"

subsection \<open>Decimal\<close>

lemma of_char_digit: "d < 10 \<Longrightarrow> (of_char (char_of (48 + d)) :: nat) = 48 + d"
  by (simp add: of_char_of)

lemma dec_val_append: "dec_val (s @ [c]) = dec_val s * 10 + (of_char c - 48)"
  by (simp add: dec_val_def)

lemma dec_buf_0 [simp]: "dec_buf 0 = []"
  by (simp add: dec_buf.simps)

lemma dec_buf_pos: "v \<noteq> 0 \<Longrightarrow>
  dec_buf v = char_of (48 + unat v mod 10) # dec_buf (v div 10)"
  by (subst dec_buf.simps) (simp add: word_gt_0 unat_mod)

lemma dec_buf_induct [case_names zero pos]:
  fixes v :: u32
  assumes "P 0" "\<And>v. v \<noteq> 0 \<Longrightarrow> P (v div 10) \<Longrightarrow> P v"
  shows "P v"
  using assms by (induction v rule: dec_buf.induct) (metis word_gt_0)

lemma dec_buf_val: "dec_val (rev (dec_buf v)) = unat v"
proof (induction v rule: dec_buf_induct)
  case zero
  show ?case by (simp add: dec_val_def)
next
  case (pos v)
  then show ?case
    by (simp add: dec_buf_pos dec_val_append of_char_digit unat_div)
qed

lemma dec_buf_digits: "c \<in> set (dec_buf v) \<Longrightarrow> is_digit c"
  by (induction v rule: dec_buf_induct) (auto simp: dec_buf_pos is_digit_def of_char_digit)

lemma dec_buf_length: "unat v < 10 ^ k \<Longrightarrow> length (dec_buf v) \<le> k"
proof (induction v arbitrary: k rule: dec_buf_induct)
  case zero
  show ?case by simp
next
  case (pos v)
  show ?case
  proof (cases k)
    case 0
    with pos show ?thesis by (simp add: unat_eq_0)
  next
    case (Suc j)
    with pos.prems have "unat (v div 10) < 10 ^ j"
      by (simp add: unat_div)
    with pos Suc show ?thesis by (simp add: dec_buf_pos)
  qed
qed

text \<open>Ten slots hold every 32-bit value.\<close>

lemma dec_buf_fits: "length (dec_buf v) \<le> 10"
  using unat_u32_less [of v] by (intro dec_buf_length) simp

lemma dec_buf_no_leading_zero: "v \<noteq> 0 \<Longrightarrow> last (dec_buf v) \<noteq> CHR ''0''"
proof (induction v rule: dec_buf_induct)
  case zero
  then show ?case by simp
next
  case (pos v)
  show ?case
  proof (cases "v div 10 = 0")
    case True
    then have "unat (v div 10) = 0" by simp
    then have "unat v < 10" by (simp add: unat_div)
    then have "(of_char (char_of (48 + unat v mod 10) :: char) :: nat) \<noteq> of_char CHR ''0''"
      using pos.hyps by (simp add: of_char_digit unat_eq_0)
    then have "(char_of (48 + unat v mod 10) :: char) \<noteq> CHR ''0''" by metis
    with True pos.hyps show ?thesis by (simp add: dec_buf_pos)
  next
    case False
    then have "dec_buf (v div 10) \<noteq> []" by (simp add: dec_buf_pos)
    with False pos show ?thesis by (simp add: dec_buf_pos)
  qed
qed

lemma print_dec_val: "dec_val (uart_print_dec v) = unat v"
  by (simp add: uart_print_dec_def dec_buf_val) (simp add: dec_val_def)


subsection \<open>Hexadecimal\<close>

lemma nibble_nat: "nibble v i = unat v div 2 ^ i mod 16"
proof -
  have "drop_bit i v AND 0xF = take_bit 4 (drop_bit i v)"
    by (simp add: take_bit_eq_mask mask_eq_exp_minus_1)
  moreover have "take_bit 32 (unat v) = unat v"
    using unat_u32_less [of v] by (simp add: take_bit_nat_eq_self_iff)
  ultimately have "nibble v i = take_bit 4 (drop_bit i (unat v))"
    by (simp only: nibble_def unsigned_take_bit_eq) (simp add: unsigned_drop_bit_eq)
  then show ?thesis by (simp add: take_bit_eq_mod drop_bit_eq_div)
qed

lemma hexdigit_roundtrip: "n < 16 \<Longrightarrow> hexdigit_val (hex_lower ! n) = n"
proof -
  have "\<forall>n \<in> set [0..<16]. hexdigit_val (hex_lower ! n) = n" by code_simp
  then show "n < 16 \<Longrightarrow> hexdigit_val (hex_lower ! n) = n" by simp
qed

lemma hexdigit_nibble [simp]: "hexdigit_val (hex_lower ! nibble v i) = nibble v i"
  by (intro hexdigit_roundtrip) (simp add: nibble_nat)

lemma hex_step: "n div 2 ^ (i + 4) * 16 + n div 2 ^ i mod 16 = (n div 2 ^ i :: nat)"
proof -
  have "n div 2 ^ (i + 4) = n div 2 ^ i div 16" by (simp add: power_add div_mult2_eq)
  then show ?thesis by simp
qed

lemma hex_fold:
  "foldl (\<lambda>a c. a * 16 + hexdigit_val c) (unat v div 2 ^ (i + 4)) (hex_lower ! nibble v i # cs) =
   foldl (\<lambda>a c. a * 16 + hexdigit_val c) (unat v div 2 ^ i) cs"
  by (simp only: foldl_Cons hexdigit_nibble) (simp only: nibble_nat hex_step)

lemma hex_tail:
  assumes "unat v div 2 ^ (4 * Suc n) = 0"
  shows "hex_val (map (\<lambda>i. hex_lower ! nibble v i) (rev (map (\<lambda>k. 4 * k) [0..<Suc n]))) = unat v"
proof -
  have "foldl (\<lambda>a c. a * 16 + hexdigit_val c) (unat v div 2 ^ (4 * m))
      (map (\<lambda>i. hex_lower ! nibble v i) (rev (map (\<lambda>k. 4 * k) [0..<m]))) = unat v" for m
  proof (induction m)
    case 0
    show ?case by simp
  next
    case (Suc m)
    then show ?case using hex_fold [of v "4 * m"] by (simp add: add.commute)
  qed
  from this [of "Suc n"] assms show ?thesis by (simp add: hex_val_def)
qed

lemma nibble_shifts_conv: "nibble_shifts = rev (map (\<lambda>k. 4 * k) [0..<8])"
  by (simp add: nibble_shifts_def upt_rec)

lemma hex8_val: "hex_val (hex8 v) = unat v"
proof -
  have "unat v div 2 ^ (4 * Suc 7) = 0" using unat_u32_less [of v] by simp
  from hex_tail [OF this] show ?thesis by (simp add: hex8_def nibble_shifts_conv del: upt_Suc)
qed

lemma length_hex8 [simp]: "length (hex8 v) = 8"
  by (simp add: hex8_def nibble_shifts_def)


text \<open>The trimmed form drops leading zero digits only.\<close>

lemma hex_val_leading_zeros:
  assumes "\<forall>i \<in> set ns. nibble v i = 0"
  shows "hex_val (map (\<lambda>i. hex_lower ! nibble v i) (ns @ ms)) =
    hex_val (map (\<lambda>i. hex_lower ! nibble v i) ms)"
proof -
  have "foldl (\<lambda>a c. a * 16 + hexdigit_val c) 0 (map (\<lambda>i. hex_lower ! nibble v i) ns) = 0"
    using assms by (induction ns) (auto simp: hexdigit_roundtrip)
  then show ?thesis by (simp add: hex_val_def)
qed

lemma hex_trim_val: "hex_val (hex_trim v) = unat v"
proof -
  let ?skip = "\<lambda>i. \<not> (nibble v i \<noteq> 0 \<or> i = 0)"
  have "\<forall>i \<in> set (takeWhile ?skip nibble_shifts). nibble v i = 0"
    by (auto dest: set_takeWhileD)
  from hex_val_leading_zeros [OF this, of "dropWhile ?skip nibble_shifts"]
  show ?thesis using hex8_val [of v] by (simp add: hex8_def hex_trim_def)
qed

lemma hex_trim_head:
  assumes "v \<noteq> 0"
  shows "hex_trim v \<noteq> [] \<and> hd (hex_trim v) \<noteq> CHR ''0''"
proof -
  let ?skip = "\<lambda>i. \<not> (nibble v i \<noteq> 0 \<or> i = 0)"
  have ne: "dropWhile ?skip nibble_shifts \<noteq> []"
    by (simp add: dropWhile_eq_Nil_conv nibble_shifts_def)
  define i where "i = hd (dropWhile ?skip nibble_shifts)"
  have i: "nibble v i \<noteq> 0 \<or> i = 0"
    using hd_dropWhile [OF ne] by (simp add: i_def)
  have "nibble v i \<noteq> 0"
  proof
    assume z: "nibble v i = 0"
    with i have "i = 0" by simp
    have "hex_trim v = [CHR ''0''] \<or> 0 < length (tl (dropWhile ?skip nibble_shifts))"
      using z ne by (cases "dropWhile ?skip nibble_shifts") (auto simp: hex_trim_def i_def hex_lower_def)
    moreover have "length (tl (dropWhile ?skip nibble_shifts)) = 0"
      using \<open>i = 0\<close> ne unfolding i_def by (auto simp: nibble_shifts_def split: if_splits)
    ultimately have "hex_val (hex_trim v) = 0" by (simp add: hex_val_def hexdigit_val_def)
    with assms show False by (simp add: hex_trim_val unat_eq_0)
  qed
  moreover have "nibble v i < 16" by (simp add: nibble_nat)
  ultimately have "hexdigit_val (hex_lower ! nibble v i) \<noteq> hexdigit_val CHR ''0''"
    by (simp add: hexdigit_roundtrip) (simp add: hexdigit_val_def)
  then have "hex_lower ! nibble v i \<noteq> CHR ''0''" by metis
  moreover have "hd (hex_trim v) = hex_lower ! nibble v i"
    unfolding hex_trim_def i_def using ne by (rule hd_map)
  moreover have "hex_trim v \<noteq> []"
    using ne unfolding hex_trim_def by (simp only: list.map_disc_iff not_False_eq_True)
  ultimately show ?thesis by simp
qed

subsection \<open>Signed\<close>

lemma print_int_magnitude:
  assumes "sint (v::u32) < 0"
  shows "int (unat (word_of_int (- (sint v + 1)) + 1 :: u32)) = - sint v"
proof -
  have r: "- (2 ^ 31) \<le> sint v" using sint_ge [of v] by simp
  have "(word_of_int (- (sint v + 1)) + 1 :: u32) = word_of_int (- sint v)"
    by (simp add: word_of_int_minus)
  moreover have "uint (word_of_int (- sint v) :: u32) = - sint v"
    using r assms by (simp only: uint_word_of_int take_bit_eq_mod) (simp add: mod_pos_pos_trivial)
  ultimately show ?thesis by (simp only: uint_nat [symmetric])
qed

definition int_val :: "string \<Rightarrow> int" where
  "int_val s = (if s \<noteq> [] \<and> hd s = CHR ''-'' then - int (dec_val (tl s)) else int (dec_val s))"

lemma print_dec_digits: "list_all is_digit (uart_print_dec v)"
  by (auto simp: uart_print_dec_def list_all_iff dest: dec_buf_digits) (simp add: is_digit_def)

lemma print_dec_nonempty: "uart_print_dec v \<noteq> []"
  by (simp add: uart_print_dec_def dec_buf_pos)

lemma print_dec_head: "hd (uart_print_dec v) = CHR ''0'' \<longleftrightarrow> v = 0"
  using dec_buf_no_leading_zero [of v] by (simp add: uart_print_dec_def hd_rev)

lemma print_dec_unsigned: "hd (uart_print_dec v) \<noteq> CHR ''-''"
proof -
  have "is_digit (hd (uart_print_dec v))"
    using print_dec_digits [of v] print_dec_nonempty [of v] by (simp add: list_all_iff)
  then show ?thesis by (auto simp: is_digit_def)
qed

section \<open>What the console shows\<close>

text \<open>\<open>uart_print_dec\<close> prints the value it is given: the text consists of decimal digits,
  at most ten of them (so the C array \<open>buf[10]\<close> does not overflow), it reads back as the
  value, and it starts with a zero only for the value zero.\<close>

theorem uart_print_dec_correct:
  "dec_val (uart_print_dec v) = unat v \<and>
   list_all is_digit (uart_print_dec v) \<and>
   length (uart_print_dec v) \<le> 10 \<and>
   (hd (uart_print_dec v) = CHR ''0'') = (v = 0)"
  using print_dec_val print_dec_digits print_dec_head dec_buf_fits [of v]
  by (auto simp: uart_print_dec_def)

text \<open>\<open>uart_print_int\<close> prints every \<open>int32_t\<close> so that it reads back, \<open>INT32_MIN\<close>
  included, whose magnitude no \<open>int32_t\<close> holds.\<close>

theorem uart_print_int_roundtrip: "int_val (uart_print_int v) = sint v"
proof (cases "sint v < 0")
  case True
  then show ?thesis
    using print_int_magnitude [OF True] print_dec_val
    by (simp only: uart_print_int_def int_val_def) simp
next
  case False
  have "int (unat v) = take_bit 32 (sint v)"
    using uint_sint [of v] by simp
  also have "\<dots> = sint v"
    using False sint_lt [of v] by (simp add: take_bit_int_eq_self_iff)
  finally have "int (unat v) = sint v" .
  moreover have "uart_print_int v = uart_print_dec v"
    using False by (simp add: uart_print_int_def)
  ultimately show ?thesis
    by (simp add: int_val_def print_dec_unsigned print_dec_val)
qed

text \<open>The two hexadecimal conversions of \<open>uart_printf\<close> read back as the word: \<open>%08x\<close>
  (and the digits of \<open>%p\<close>) always has eight digits, \<open>%x\<close> has at most eight and starts with
  a zero only for zero, when it is the single digit \<open>0\<close>.\<close>

theorem uart_printf_hex:
  "uart_printf ''%08x'' [ArgInt v] = Some (hex8 v) \<and>
   uart_printf ''%p'' [ArgInt v] = Some (''0x'' @ hex8 v) \<and>
   uart_printf ''%x'' [ArgInt v] = Some (hex_trim v) \<and>
   hex_val (hex8 v) = unat v \<and> length (hex8 v) = 8 \<and>
   hex_val (hex_trim v) = unat v \<and>
   (hd (hex_trim v) = CHR ''0'') = (v = 0)"
proof -
  have "hd (hex_trim 0) = CHR ''0''"
    by (simp add: hex_trim_def nibble_shifts_def nibble_def hex_lower_def)
  then have "(hd (hex_trim v) = CHR ''0'') = (v = 0)"
    using hex_trim_head [of v] by auto
  then show ?thesis
    by (simp add: hex8_val hex_trim_val is_padded_s_def emit_def conversion_def arg_int_def uart_puts_def)
qed

subsection \<open>Format strings\<close>

lemma printf_literal:
  "CHR ''%'' \<notin> set s \<Longrightarrow> uart_printf (s @ fmt) ap = emit s (uart_printf fmt ap)"
  by (induction s) (auto simp: emit_def option.map_comp comp_def option.map_ident)

text \<open>A string without a percent sign prints as itself, and \<open>%-<n>s\<close> after it prints its
  argument left-justified in a field of \<open>n\<close> columns without ever cutting it, a null
  pointer as \<open>(null)\<close>; formatting goes on with the remaining format and arguments.\<close>

theorem uart_printf_padded:
  assumes "CHR ''%'' \<notin> set pre" "1 \<le> w" "w \<le> 9"
  shows "uart_printf (pre @ ''%-'' @ char_of (48 + w) # ''s'' @ rest) (ArgStr a # ap) =
      emit (pre @ pad_right w (case a of None \<Rightarrow> ''(null)'' | Some t \<Rightarrow> t)) (uart_printf rest ap) \<and>
    length (pad_right w t) = max w (length t)"
proof -
  have c: "(of_char (char_of (48 + w) :: char) :: nat) = 48 + w"
    using assms(3) by (simp add: of_char_of)
  then have "is_padded_s (''-'' @ char_of (48 + w) # ''s'' @ rest)"
    using assms(2,3) by (simp add: is_padded_s_def)
  with assms c show ?thesis
    by (simp add: printf_literal emit_def option.map_comp comp_def pad_right_def)
qed

text \<open>A format that ends in a single percent sign has no defined result: \<open>uart_printf\<close>
  advances past the string's terminator.\<close>

theorem uart_printf_unterminated:
  assumes "CHR ''%'' \<notin> set pre"
  shows "uart_printf (pre @ ''%'') ap = None"
  using printf_literal [OF assms] by (simp add: emit_def is_padded_s_def)

end
