(* ===== verification/Kernel_State.thy ===== *)
theory Kernel_State
  imports Uart_Ring Wait_Queue Pgtable Uart_Format
begin

text \<open>
  The state the kernel's components share: the thread and process control blocks of
  \<open>kernel/include/thread.h\<close> and \<open>kernel/include/proc.h\<close>, the file-level variables of
  \<open>scheduler.c\<close>, \<open>uart_core.c\<close>, \<open>timer_core.c\<close> and \<open>intc_core.c\<close>, and the part of the machine they
  act on (TTBR0, the banked user registers, the translation tables and the memory behind them).

  A pointer into \<open>threads[]\<close> or \<open>processes[]\<close> is the index of the element, a pointer that may be
  null an option. What lies on a thread's kernel stack while the thread is switched out is the
  point where its kernel code goes on, a value of the type \<open>kcont\<close>; the register and stack level
  of the switch, with the saved kernel stack pointer \<open>ctx.sp_svc\<close> and the words it points at, is the subject of the theory
  \<open>Context_Switch\<close>, which shows that it refines the switch of this level. Kernel code runs with interrupts masked, so the only points
  where a thread can be switched out are the calls of \<open>schedule\<close>, and there is one
  constructor for each of them.
\<close>

section \<open>Control blocks\<close>

datatype task_state = TASK_READY | TASK_RUNNING | TASK_BLOCKED | TASK_DEAD

text \<open>The numeric value of the C enumeration constant.\<close>

primrec task_state_num :: "task_state \<Rightarrow> nat" where
  "task_state_num TASK_READY = 0"
| "task_state_num TASK_RUNNING = 1"
| "task_state_num TASK_BLOCKED = 2"
| "task_state_num TASK_DEAD = 3"

record cpu_context =
  ctx_r :: "u32 list"
  ctx_sp_svc :: u32
  ctx_lr_svc :: u32
  ctx_spsr :: u32
  ctx_sp_usr :: u32
  ctx_lr_usr :: u32

record exception_context =
  ec_spsr :: u32
  ec_r :: "u32 list"
  ec_lr :: u32

text \<open>Where a thread's kernel code goes on after \<open>schedule\<close> returns to it:
  \<open>ToUser\<close>, at the tail of \<open>handle_svc\<close> or \<open>handle_irq\<close> (or on the first entry), which leads to
  user mode with the given registers; \<open>InSysRead\<close>, inside the loop of \<open>sys_read\<close>;
  \<open>AfterFault\<close>, inside \<open>user_fault_kill\<close>; \<open>Halted\<close>, in the loop of \<open>halt_forever\<close>.\<close>

datatype kcont =
    ToUser exception_context
  | InSysRead exception_context
  | AfterFault
  | Halted

record thread =
  ctx :: cpu_context
  t_proc :: nat
  tid :: u32
  t_index :: u32
  t_state :: task_state
  kstack_base :: u32
  kstack_size :: u32
  user_stack_top :: u32
  resume_at :: kcont

record process =
  pid :: u32
  p_name :: "string option"
  p_pgd :: u32
  pgd_pa :: u32
  user_entry :: u32
  user_phys_base :: u32
  p_threads :: "tptr option list"
  img_size :: u32

section \<open>The kernel state\<close>

text \<open>The functions that are registered as interrupt and as timer handlers.\<close>

datatype irq_handler = H_timer_irq | H_uart_rx_irq
datatype timer_handler = H_scheduler_tick

record kstate =
  threads :: "thread list"
  processes :: "process list"
  current :: "tptr option"
  need_reschedule :: bool
  switch_count :: u32
  waitq :: wait_queue
  wake_hint :: "tptr option"
  rx :: rx_ring
  console_out :: string
  tick_count :: u32
  user_handler :: "timer_handler option"
  irq_table :: "irq_handler option list"
  eois :: "u32 list"
  ttbr0 :: u32
  sp_usr :: u32
  lr_usr :: u32
  pmem :: "u32 \<Rightarrow> char"
  tables :: "u32 \<Rightarrow> pgd"
  cpu :: kcont
  undefined_behaviour :: bool

text \<open>\<open>cpu\<close> is what the processor does next; \<open>eois\<close> lists the end-of-interrupt writes;
  \<open>undefined_behaviour\<close> is raised where the C code would have none defined.\<close>

definition upd_thread :: "tptr \<Rightarrow> (thread \<Rightarrow> thread) \<Rightarrow> kstate \<Rightarrow> kstate" where
  "upd_thread t f s = s\<lparr>threads := (threads s)[t := f (threads s ! t)]\<rparr>"

definition set_state :: "tptr \<Rightarrow> task_state \<Rightarrow> kstate \<Rightarrow> kstate" where
  "set_state t st = upd_thread t (\<lambda>th. th\<lparr>t_state := st\<rparr>)"

abbreviation state_of :: "kstate \<Rightarrow> tptr \<Rightarrow> task_state" where
  "state_of s t \<equiv> t_state (threads s ! t)"

abbreviation proc_of :: "kstate \<Rightarrow> tptr \<Rightarrow> process" where
  "proc_of s t \<equiv> processes s ! t_proc (threads s ! t)"

section \<open>Console and user memory\<close>

definition kputs :: "string \<Rightarrow> kstate \<Rightarrow> kstate" where
  "kputs cs s = s\<lparr>console_out := console_out s @ console_bytes cs\<rparr>"

definition kprintf :: "string \<Rightarrow> printf_arg list \<Rightarrow> kstate \<Rightarrow> kstate" where
  "kprintf fmt args s =
     (case uart_printf fmt args of
        Some out \<Rightarrow> kputs out s
      | None \<Rightarrow> s\<lparr>undefined_behaviour := True\<rparr>)"

text \<open>The table TTBR0 points at; the low bits of the register are walk attributes.\<close>

definition active_table :: "kstate \<Rightarrow> pgd" where
  "active_table s = tables s (ttbr0 s AND 0xFFFFC000)"

text \<open>A load and a store of the kernel through a virtual address; \<open>None\<close> is a data abort.\<close>

definition kload :: "kstate \<Rightarrow> u32 \<Rightarrow> char option" where
  "kload s va = map_option (pmem s) (translate (active_table s) Priv False va)"

definition kstore :: "u32 \<Rightarrow> char \<Rightarrow> kstate \<Rightarrow> kstate option" where
  "kstore va c s =
     map_option (\<lambda>pa. s\<lparr>pmem := (pmem s)(pa := c)\<rparr>) (translate (active_table s) Priv True va)"

section \<open>What the updates leave alone\<close>

lemma upd_thread_frame [simp]:
  "processes (upd_thread t f s) = processes s" "current (upd_thread t f s) = current s"
  "need_reschedule (upd_thread t f s) = need_reschedule s"
  "switch_count (upd_thread t f s) = switch_count s" "waitq (upd_thread t f s) = waitq s"
  "wake_hint (upd_thread t f s) = wake_hint s" "rx (upd_thread t f s) = rx s"
  "console_out (upd_thread t f s) = console_out s" "tick_count (upd_thread t f s) = tick_count s"
  "user_handler (upd_thread t f s) = user_handler s" "irq_table (upd_thread t f s) = irq_table s"
  "eois (upd_thread t f s) = eois s" "ttbr0 (upd_thread t f s) = ttbr0 s"
  "sp_usr (upd_thread t f s) = sp_usr s" "lr_usr (upd_thread t f s) = lr_usr s"
  "pmem (upd_thread t f s) = pmem s" "tables (upd_thread t f s) = tables s"
  "cpu (upd_thread t f s) = cpu s"
  "undefined_behaviour (upd_thread t f s) = undefined_behaviour s"
  by (simp_all add: upd_thread_def)

lemma length_upd_thread [simp]: "length (threads (upd_thread t f s)) = length (threads s)"
  by (simp add: upd_thread_def)

lemma nth_upd_thread:
  "t < length (threads s) \<Longrightarrow>
   threads (upd_thread t f s) ! i = (if i = t then f (threads s ! t) else threads s ! i)"
  by (simp add: upd_thread_def nth_list_update)

lemma set_state_frame [simp]:
  "processes (set_state t st s) = processes s" "current (set_state t st s) = current s"
  "need_reschedule (set_state t st s) = need_reschedule s"
  "switch_count (set_state t st s) = switch_count s" "waitq (set_state t st s) = waitq s"
  "wake_hint (set_state t st s) = wake_hint s" "rx (set_state t st s) = rx s"
  "console_out (set_state t st s) = console_out s" "tick_count (set_state t st s) = tick_count s"
  "user_handler (set_state t st s) = user_handler s" "irq_table (set_state t st s) = irq_table s"
  "eois (set_state t st s) = eois s" "ttbr0 (set_state t st s) = ttbr0 s"
  "sp_usr (set_state t st s) = sp_usr s" "lr_usr (set_state t st s) = lr_usr s"
  "pmem (set_state t st s) = pmem s" "tables (set_state t st s) = tables s"
  "cpu (set_state t st s) = cpu s"
  "undefined_behaviour (set_state t st s) = undefined_behaviour s"
  "length (threads (set_state t st s)) = length (threads s)"
  by (simp_all add: set_state_def)

lemma nth_set_state:
  "t < length (threads s) \<Longrightarrow>
   threads (set_state t st s) ! i =
     (if i = t then (threads s ! t)\<lparr>t_state := st\<rparr> else threads s ! i)"
  by (simp add: set_state_def nth_upd_thread)

lemma kputs_frame [simp]:
  "threads (kputs cs s) = threads s" "processes (kputs cs s) = processes s"
  "current (kputs cs s) = current s" "need_reschedule (kputs cs s) = need_reschedule s"
  "switch_count (kputs cs s) = switch_count s" "waitq (kputs cs s) = waitq s"
  "wake_hint (kputs cs s) = wake_hint s" "rx (kputs cs s) = rx s"
  "console_out (kputs cs s) = console_out s @ console_bytes cs"
  "tick_count (kputs cs s) = tick_count s" "user_handler (kputs cs s) = user_handler s"
  "irq_table (kputs cs s) = irq_table s" "eois (kputs cs s) = eois s"
  "ttbr0 (kputs cs s) = ttbr0 s" "sp_usr (kputs cs s) = sp_usr s" "lr_usr (kputs cs s) = lr_usr s"
  "pmem (kputs cs s) = pmem s" "tables (kputs cs s) = tables s" "cpu (kputs cs s) = cpu s"
  "undefined_behaviour (kputs cs s) = undefined_behaviour s"
  by (simp_all add: kputs_def)

lemma kprintf_frame [simp]:
  "threads (kprintf f a s) = threads s" "processes (kprintf f a s) = processes s"
  "current (kprintf f a s) = current s" "need_reschedule (kprintf f a s) = need_reschedule s"
  "switch_count (kprintf f a s) = switch_count s" "waitq (kprintf f a s) = waitq s"
  "wake_hint (kprintf f a s) = wake_hint s" "rx (kprintf f a s) = rx s"
  "tick_count (kprintf f a s) = tick_count s" "user_handler (kprintf f a s) = user_handler s"
  "irq_table (kprintf f a s) = irq_table s" "eois (kprintf f a s) = eois s"
  "ttbr0 (kprintf f a s) = ttbr0 s" "sp_usr (kprintf f a s) = sp_usr s"
  "lr_usr (kprintf f a s) = lr_usr s" "pmem (kprintf f a s) = pmem s"
  "tables (kprintf f a s) = tables s" "cpu (kprintf f a s) = cpu s"
  by (simp_all add: kprintf_def split: option.split)

lemma kprintf_defined:
  "uart_printf f a = Some out \<Longrightarrow> kprintf f a s = kputs out s"
  by (simp add: kprintf_def)

lemma active_table_cong: "tables s' = tables s \<Longrightarrow> ttbr0 s' = ttbr0 s \<Longrightarrow> active_table s' = active_table s"
  by (simp add: active_table_def)

end
