(* ===== verification/User_Pointer.thy ===== *)
theory User_Pointer
  imports Kernel_State
begin

text \<open>
  The user-pointer validator of \<open>kernel/syscall/syscall.c\<close>, and what it guarantees: a range it
  accepts lies in the user window without wrapping around, so under the page table of a process
  every kernel access to it succeeds and lands in the process's own physical slot.
\<close>

definition valid_user_ptr :: "u32 \<Rightarrow> u32 \<Rightarrow> bool" where
  "valid_user_ptr addr len =
     (let end_a = addr + len
      in if end_a < addr then False
         else if addr < USER_VIRT_BASE then False
         else if end_a > USER_VIRT_BASE + USER_REGION_SIZE then False
         else True)"

lemma valid_user_ptr_nat:
  "valid_user_ptr a len \<longleftrightarrow> 0x40000000 \<le> unat a \<and> unat a + unat len \<le> 0x40100000"
proof (cases "unat a + unat len < 4294967296")
  case True
  then have "unat (a + len) = unat a + unat len" by (rule unat_u32_add)
  then show ?thesis
    by (auto simp: valid_user_ptr_def Let_def word_less_nat_alt kernel_const)
next
  case False
  have "unat (a + len) = unat a + unat len - 4294967296"
    using False unat_u32_less [of a] unat_u32_less [of len]
    by (simp add: unat_word_ariths le_mod_geq)
  then have "a + len < a" using False unat_u32_less [of len] by (simp add: word_less_nat_alt)
  with False show ?thesis by (auto simp: valid_user_ptr_def)
qed

lemma valid_user_ptr_byte:
  assumes "valid_user_ptr a len" "i < unat len"
  shows "unat (a + of_nat i) = unat a + i"
    and "USER_VIRT_BASE \<le> a + of_nat i" and "a + of_nat i < USER_VIRT_BASE + USER_REGION_SIZE"
proof -
  have i: "unat (of_nat i :: u32) = i"
    using assms(2) unat_u32_less [of len] by (simp add: unat_u32_of_nat)
  show u: "unat (a + of_nat i) = unat a + i"
    using assms i by (simp add: valid_user_ptr_nat unat_u32_add)
  then show "USER_VIRT_BASE \<le> a + of_nat i" "a + of_nat i < USER_VIRT_BASE + USER_REGION_SIZE"
    using assms by (simp_all add: valid_user_ptr_nat word_le_nat_alt word_less_nat_alt kernel_const)
qed

text \<open>The physical addresses of the window of process \<open>i\<close>.\<close>

definition slot_range :: "platform \<Rightarrow> nat \<Rightarrow> u32 set" where
  "slot_range p i = {pa. user_slot (board_of p) i \<le> pa \<and> pa < user_slot (board_of p) i + USER_REGION_SIZE}"

lemma slot_range_nat:
  assumes "i < 3"
  shows "pa \<in> slot_range p i \<longleftrightarrow>
    unat (RAM_BASE (board_of p)) + 0x200000 + i * 0x100000 \<le> unat pa \<and>
    unat pa < unat (RAM_BASE (board_of p)) + 0x300000 + i * 0x100000"
proof -
  have "unat (user_slot (board_of p) i + USER_REGION_SIZE) =
      unat (RAM_BASE (board_of p)) + 0x300000 + i * 0x100000"
    using assms unat_user_slot [OF assms, of p]
    by (cases p) (simp_all add: kernel_const unat_u32_add board_defs)
  then show ?thesis
    using unat_user_slot [OF assms, of p] by (simp add: slot_range_def word_le_nat_alt word_less_nat_alt)
qed

lemma slot_range_disjoint: "i < 3 \<Longrightarrow> j < 3 \<Longrightarrow> i \<noteq> j \<Longrightarrow> slot_range p i \<inter> slot_range p j = {}"
  using region_unique [of i 0x100000 _ j]
  by (auto simp: slot_range_nat)

lemma window_in_slot:
  assumes "i < 3" "USER_VIRT_BASE \<le> va" "va < USER_VIRT_BASE + USER_REGION_SIZE"
  shows "user_slot (board_of p) i + (va - USER_VIRT_BASE) \<in> slot_range p i"
  using assms unat_user_pa [OF assms, of p]
  by (simp add: slot_range_nat word_le_nat_alt word_less_nat_alt kernel_const) arith

text \<open>C21: what \<open>valid_user_ptr\<close> accepts, in unbounded arithmetic: exactly the ranges inside the
  1 MB user window, whatever the 32-bit sum of base and length wraps to.\<close>

theorem valid_user_ptr_exact:
  "valid_user_ptr addr len = (0x40000000 \<le> unat addr \<and> unat addr + unat len \<le> 0x40100000)"
  by (rule valid_user_ptr_nat)

text \<open>Every byte of a range that \<open>valid_user_ptr\<close> accepts is mapped for the kernel, for
  loads and for stores, under the page table of whichever process \<open>i\<close> runs, and it lies in that
  process's own physical slot.\<close>

theorem valid_user_ptr_mapped:
  assumes "valid_user_ptr addr len" "k < unat len" "i < 3"
  shows "\<exists>pa \<in> slot_range p i. translate (proc_table p i pgd) Priv w (addr + of_nat k) = Some pa"
  using valid_user_ptr_byte [OF assms(1,2)] window_in_slot [OF assms(3)]
    proc_table_priv_window [of "addr + of_nat k" p i pgd w] by auto

theorem valid_user_ptr_mapped_witness:
  "\<exists>pa \<in> slot_range Bbb 1. translate (proc_table Bbb 1 (\<lambda>_. 0)) Priv True (0x400FFFF0 + of_nat 15) = Some pa"
  by (rule valid_user_ptr_mapped [where len = 16]) (simp_all add: valid_user_ptr_nat)

end
