(* ===== verification/Scheduler.thy ===== *)
theory Scheduler
  imports User_Pointer
begin

text \<open>
  The scheduler (\<open>kernel/sched/scheduler.c\<close>) and the effect of \<open>context_switch\<close>
  (\<open>kernel/arch/arm/proc/context_switch.S\<close>) on the shared state.

  \<open>schedule\<close> is called at three places of the kernel and returns to its caller when the calling
  thread runs again. The argument \<open>k\<close> is the caller's continuation: without a switch the processor
  goes on with \<open>k\<close>; with a switch \<open>k\<close> is what stays on the kernel stack of the thread that leaves,
  and the processor goes on with the continuation of the thread that enters.
\<close>

section \<open>Model\<close>

definition scheduler_tick :: "kstate \<Rightarrow> kstate" where
  "scheduler_tick s = s\<lparr>need_reschedule := True\<rparr>"

definition scheduler_request_resched :: "kstate \<Rightarrow> kstate" where
  "scheduler_request_resched s = s\<lparr>need_reschedule := True\<rparr>"

definition save_prev :: "tptr \<Rightarrow> kcont \<Rightarrow> kstate \<Rightarrow> kstate" where
  "save_prev p k s =
     upd_thread p (\<lambda>th. th\<lparr>ctx := (ctx th)\<lparr>ctx_sp_usr := sp_usr s, ctx_lr_usr := lr_usr s\<rparr>,
                            resume_at := k\<rparr>) s"

definition switch_mm :: "tptr \<Rightarrow> kstate \<Rightarrow> kstate" where
  "switch_mm n s = s\<lparr>ttbr0 := pgd_pa (proc_of s n) OR 0x4A\<rparr>"

definition load_next :: "tptr \<Rightarrow> kstate \<Rightarrow> kstate" where
  "load_next n s =
     s\<lparr>sp_usr := ctx_sp_usr (ctx (threads s ! n)),
       lr_usr := ctx_lr_usr (ctx (threads s ! n)),
       cpu := resume_at (threads s ! n)\<rparr>"

definition context_switch :: "tptr option \<Rightarrow> tptr \<Rightarrow> kcont \<Rightarrow> kstate \<Rightarrow> kstate" where
  "context_switch prev next k s =
     (case prev of
        None \<Rightarrow> load_next next (switch_mm next s)
      | Some p \<Rightarrow>
          let s1 = save_prev p k s
          in load_next next
              (if t_proc (threads s1 ! p) = t_proc (threads s1 ! next) then s1
               else switch_mm next s1))"

definition perform_switch :: "tptr \<Rightarrow> tptr \<Rightarrow> kcont \<Rightarrow> kstate \<Rightarrow> kstate" where
  "perform_switch prev cand k s =
     (let s1 = s\<lparr>switch_count := switch_count s + 1\<rparr>;
          s2 = (if state_of s1 prev = TASK_RUNNING then set_state prev TASK_READY s1 else s1);
          s3 = (set_state cand TASK_RUNNING s2)\<lparr>current := Some cand\<rparr>
      in context_switch (Some prev) cand k s3)"

definition runnable :: "kstate \<Rightarrow> tptr \<Rightarrow> bool" where
  "runnable s t \<longleftrightarrow> state_of s t = TASK_READY \<or> state_of s t = TASK_RUNNING"

text \<open>The order in which the sweep of \<open>schedule\<close> visits \<open>threads[]\<close>.\<close>

definition sweep :: "u32 \<Rightarrow> tptr list" where
  "sweep t =
     (let start = (t + 1) mod NUM_THREADS
      in map (\<lambda>i. unat ((start + of_nat i) mod NUM_THREADS)) [0..<num_threads])"

definition schedule :: "kcont \<Rightarrow> kstate \<Rightarrow> kstate" where
  "schedule k s =
     (case current s of
        None \<Rightarrow> s\<lparr>cpu := k\<rparr>
      | Some prev \<Rightarrow>
          if \<not> need_reschedule s then s\<lparr>cpu := k\<rparr>
          else
            let hint = wake_hint s;
                s2 = s\<lparr>need_reschedule := False, wake_hint := None\<rparr>
            in case (case hint of
                       Some h \<Rightarrow> if h \<noteq> prev \<and> runnable s2 h then Some h else None
                     | None \<Rightarrow> None) of
                 Some h \<Rightarrow> perform_switch prev h k s2
               | None \<Rightarrow>
                   (case find (\<lambda>c. c \<noteq> prev \<and> runnable s2 c) (sweep (tid (threads s2 ! prev))) of
                      Some cand \<Rightarrow> perform_switch prev cand k s2
                    | None \<Rightarrow> s2\<lparr>cpu := k\<rparr>))"

definition scheduler_block_on_input :: "kcont \<Rightarrow> kstate \<Rightarrow> kstate" where
  "scheduler_block_on_input k s =
     (case current s of
        None \<Rightarrow> s\<lparr>cpu := k\<rparr>
      | Some c \<Rightarrow>
          schedule k ((set_state c TASK_BLOCKED s)\<lparr>waitq := waitq_push c (waitq s),
                                                     need_reschedule := True\<rparr>))"

text \<open>Each round of the loop takes one entry off the queue.\<close>

lemma waitq_pop_shrinks:
  "waitq_pop q = (Some t, q') \<Longrightarrow> unat (waitq_count q') < unat (waitq_count q)"
  by (auto simp: waitq_pop_def Let_def unat_minus_one unat_eq_0 intro!: diff_less split: if_splits)
     (metis unat_gt_0)

function scheduler_wake_reader :: "kstate \<Rightarrow> kstate" where
  "scheduler_wake_reader s =
     (case waitq_pop (waitq s) of
        (None, q) \<Rightarrow> s\<lparr>waitq := q\<rparr>
      | (Some t, q) \<Rightarrow>
          let s' = s\<lparr>waitq := q\<rparr>
          in if state_of s' t \<noteq> TASK_BLOCKED then scheduler_wake_reader s'
             else (set_state t TASK_READY s')\<lparr>wake_hint := Some t, need_reschedule := True\<rparr>)"
  by pat_completeness auto
termination
  by (relation "measure (\<lambda>s. unat (waitq_count (waitq s)))") (auto dest: waitq_pop_shrinks [OF sym])

declare scheduler_wake_reader.simps [simp del]

section \<open>One switch\<close>

lemma perform_switch_frame [simp]:
  "processes (perform_switch p c k s) = processes s"
  "need_reschedule (perform_switch p c k s) = need_reschedule s"
  "switch_count (perform_switch p c k s) = switch_count s + 1"
  "waitq (perform_switch p c k s) = waitq s" "wake_hint (perform_switch p c k s) = wake_hint s"
  "rx (perform_switch p c k s) = rx s" "console_out (perform_switch p c k s) = console_out s"
  "tick_count (perform_switch p c k s) = tick_count s"
  "user_handler (perform_switch p c k s) = user_handler s"
  "irq_table (perform_switch p c k s) = irq_table s" "eois (perform_switch p c k s) = eois s"
  "pmem (perform_switch p c k s) = pmem s" "tables (perform_switch p c k s) = tables s"
  "undefined_behaviour (perform_switch p c k s) = undefined_behaviour s"
  "current (perform_switch p c k s) = Some c"
  "length (threads (perform_switch p c k s)) = length (threads s)"
  by (simp_all add: perform_switch_def context_switch_def load_next_def switch_mm_def save_prev_def Let_def)

text \<open>The control blocks after a switch from \<open>p\<close> to \<open>c\<close>.\<close>

lemma perform_switch_threads:
  assumes "p < length (threads s)" "c < length (threads s)" "p \<noteq> c"
  shows "threads (perform_switch p c k s) ! i =
    (if i = p then (threads s ! p)\<lparr>
        t_state := (if state_of s p = TASK_RUNNING then TASK_READY else state_of s p),
        ctx := (ctx (threads s ! p))\<lparr>ctx_sp_usr := sp_usr s, ctx_lr_usr := lr_usr s\<rparr>,
        resume_at := k\<rparr>
     else if i = c then (threads s ! c)\<lparr>t_state := TASK_RUNNING\<rparr>
     else threads s ! i)"
  using assms
  by (auto simp: perform_switch_def context_switch_def load_next_def switch_mm_def save_prev_def
      Let_def nth_upd_thread nth_set_state)

lemma perform_switch_machine:
  assumes "p < length (threads s)" "c < length (threads s)" "p \<noteq> c"
  shows "cpu (perform_switch p c k s) = resume_at (threads s ! c)"
    and "sp_usr (perform_switch p c k s) = ctx_sp_usr (ctx (threads s ! c))"
    and "lr_usr (perform_switch p c k s) = ctx_lr_usr (ctx (threads s ! c))"
    and "ttbr0 (perform_switch p c k s) =
      (if t_proc (threads s ! p) = t_proc (threads s ! c) then ttbr0 s else pgd_pa (proc_of s c) OR 0x4A)"
  using assms
  by (auto simp: perform_switch_def context_switch_def load_next_def switch_mm_def save_prev_def
      Let_def nth_upd_thread nth_set_state)

section \<open>The choice\<close>

text \<open>The specification of the choice: a woken reader first, and otherwise the next runnable
  thread after the current one in the circular order of \<open>threads[]\<close>.\<close>

definition next_thread :: "kstate \<Rightarrow> tptr \<Rightarrow> tptr option" where
  "next_thread s c =
     (case wake_hint s of
        Some h \<Rightarrow> if h \<noteq> c \<and> runnable s h then Some h
                  else find (\<lambda>t. t \<noteq> c \<and> runnable s t) (map (\<lambda>i. (c + i) mod 6) [1..<6])
      | None \<Rightarrow> find (\<lambda>t. t \<noteq> c \<and> runnable s t) (map (\<lambda>i. (c + i) mod 6) [1..<6]))"

lemma sweep_nat:
  assumes "c < 6"
  shows "sweep (of_nat c) = map (\<lambda>i. (c + i) mod 6) [1..<6] @ [c]"
proof -
  have "c \<in> {0, 1, 2, 3, 4, 5}" using assms by auto
  then show ?thesis by (auto simp: sweep_def kernel_const upt_rec)
qed

lemma find_append: "find P (xs @ ys) = (case find P xs of None \<Rightarrow> find P ys | Some x \<Rightarrow> Some x)"
  by (induction xs) auto

lemma find_sweep:
  assumes "c < 6"
  shows "find (\<lambda>t. t \<noteq> c \<and> P t) (sweep (of_nat c)) =
    find (\<lambda>t. t \<noteq> c \<and> P t) (map (\<lambda>i. (c + i) mod 6) [1..<6])"
  unfolding sweep_nat [OF assms] find_append by (simp split: option.split)

lemma runnable_upd [simp]:
  "runnable (s\<lparr>need_reschedule := b\<rparr>) t = runnable s t"
  "runnable (s\<lparr>wake_hint := h\<rparr>) t = runnable s t"
  by (simp_all add: runnable_def)

lemma schedule_next:
  assumes "current s = Some c" "need_reschedule s" "c < 6" "tid (threads s ! c) = of_nat c"
  shows "schedule k s =
    (let s2 = s\<lparr>need_reschedule := False, wake_hint := None\<rparr>
     in case next_thread s c of
          Some t \<Rightarrow> perform_switch c t k s2
        | None \<Rightarrow> s2\<lparr>cpu := k\<rparr>)"
  using assms by (auto simp: schedule_def next_thread_def find_sweep Let_def split: option.split)

lemma next_thread_props:
  assumes "next_thread s c = Some t" "\<forall>h. wake_hint s = Some h \<longrightarrow> h < 6"
  shows "t \<noteq> c \<and> runnable s t \<and> t < 6"
  using assms
  by (auto simp: next_thread_def find_Some_iff nth_append split: option.splits if_splits)

text \<open>The sweep reaches every thread.\<close>

lemma circular_cover:
  assumes "c < 6" "t < 6" "t \<noteq> c"
  shows "t \<in> set (map (\<lambda>i. (c + i) mod 6) [1..<6])"
proof -
  have "c \<in> {0, 1, 2, 3, 4, 5}" "t \<in> {0, 1, 2, 3, 4, 5}" using assms by auto
  then show ?thesis using assms(3) by (auto simp: upt_rec)
qed

lemma next_thread_None:
  assumes "next_thread s c = None" "c < 6" "t < 6" "t \<noteq> c"
  shows "\<not> runnable s t"
  using assms circular_cover [OF assms(2-4)]
  by (auto simp: next_thread_def find_None_iff split: option.splits if_splits)

end
