(* ===== verification/Kernel_Invariant.thy ===== *)
theory Kernel_Invariant
  imports Scheduler
begin

text \<open>
  The invariant of the running kernel and its preservation by the scheduler.

  \<open>kernel_layout\<close> is what \<open>process_init_all\<close> and \<open>thread_init_all\<close> set up and nothing changes:
  six threads, two for each of three processes, and each process's translation table.
  \<open>core_inv\<close> relates thread states, the wait queue, TTBR0 and the continuations of the threads
  that are switched out; \<open>cpu_ok\<close> says what the processor may be about to do.
\<close>

section \<open>Layout\<close>

definition thread_at :: "nat \<Rightarrow> thread \<Rightarrow> bool" where
  "thread_at t th \<longleftrightarrow> tid th = of_nat t \<and> t_proc th = t div 2 \<and> t_index th = of_nat (t mod 2)"

definition process_at :: "platform \<Rightarrow> (u32 \<Rightarrow> pgd) \<Rightarrow> nat \<Rightarrow> process \<Rightarrow> bool" where
  "process_at p tb i pr \<longleftrightarrow>
     pid pr = of_nat i \<and> p_name pr \<noteq> None \<and>
     p_threads pr = [Some (2 * i), Some (2 * i + 1)] \<and>
     pgd_pa pr AND 0xFFFFC000 = pgd_pa pr \<and>
     (\<exists>old. tb (pgd_pa pr) = proc_table p i old)"

definition kernel_layout :: "platform \<Rightarrow> kstate \<Rightarrow> bool" where
  "kernel_layout p s \<longleftrightarrow>
     length (threads s) = 6 \<and> length (processes s) = 3 \<and>
     (\<forall>t < 6. thread_at t (threads s ! t)) \<and>
     (\<forall>i < 3. process_at p (tables s) i (processes s ! i))"

lemma layout_lengths: "kernel_layout p s \<Longrightarrow> length (threads s) = 6 \<and> length (processes s) = 3"
  by (simp add: kernel_layout_def)

lemma layout_thread:
  "kernel_layout p s \<Longrightarrow> t < 6 \<Longrightarrow>
   tid (threads s ! t) = of_nat t \<and> t_proc (threads s ! t) = t div 2 \<and> t_index (threads s ! t) = of_nat (t mod 2)"
  by (simp add: kernel_layout_def thread_at_def)

lemma layout_process: "kernel_layout p s \<Longrightarrow> i < 3 \<Longrightarrow> process_at p (tables s) i (processes s ! i)"
  by (simp add: kernel_layout_def)

text \<open>An update keeps the layout when it touches the processes, the tables and the identity of the
  threads not at all.\<close>

lemma layout_cong:
  assumes "kernel_layout p s" "length (threads s') = length (threads s)"
    and "processes s' = processes s" "tables s' = tables s"
    and "\<And>t. t < 6 \<Longrightarrow> tid (threads s' ! t) = tid (threads s ! t) \<and>
      t_proc (threads s' ! t) = t_proc (threads s ! t) \<and> t_index (threads s' ! t) = t_index (threads s ! t)"
  shows "kernel_layout p s'"
  using assms by (simp add: kernel_layout_def thread_at_def)

lemma layout_set_state [kernel_inv]: "kernel_layout p s \<Longrightarrow> t < 6 \<Longrightarrow> kernel_layout p (set_state t st s)"
  by (rule layout_cong) (auto simp: nth_set_state layout_lengths)

section \<open>Invariant\<close>

definition user_ctx :: "exception_context \<Rightarrow> bool" where
  "user_ctx c \<longleftrightarrow> length (ec_r c) = 13 \<and> ec_spsr c AND 0x1F = 0x10"

definition read_ctx :: "exception_context \<Rightarrow> bool" where
  "read_ctx c \<longleftrightarrow> user_ctx c \<and> ec_r c ! 2 \<noteq> 0 \<and> valid_user_ptr (ec_r c ! 1) (ec_r c ! 2)"

text \<open>What a thread that is switched out goes on with, by its state.\<close>

primrec cont_ok :: "task_state \<Rightarrow> kcont \<Rightarrow> bool" where
  "cont_ok st (ToUser c) \<longleftrightarrow> user_ctx c \<and> st \<noteq> TASK_BLOCKED"
| "cont_ok st (InSysRead c) \<longleftrightarrow> read_ctx c"
| "cont_ok st AfterFault \<longleftrightarrow> st = TASK_DEAD"
| "cont_ok st Halted \<longleftrightarrow> False"

definition threads_inv :: "kstate \<Rightarrow> tptr \<Rightarrow> bool" where
  "threads_inv s c \<longleftrightarrow>
     (\<forall>t < 6. (state_of s t = TASK_RUNNING \<longrightarrow> t = c) \<and>
              (state_of s t = TASK_BLOCKED \<longrightarrow> t \<in> set (waitq_list (waitq s))) \<and>
              (t \<noteq> c \<longrightarrow> cont_ok (state_of s t) (resume_at (threads s ! t))))"

definition core_inv :: "kstate \<Rightarrow> bool" where
  "core_inv s \<longleftrightarrow>
     (\<exists>c < 6. current s = Some c \<and> threads_inv s c \<and> ttbr0 s = pgd_pa (proc_of s c) OR 0x4A) \<and>
     waitq_invar (waitq s) \<and> rx_invar (rx s) \<and> (\<forall>h. wake_hint s = Some h \<longrightarrow> h < 6) \<and>
     \<not> undefined_behaviour s"

text \<open>What the processor may go on with, for the current thread: user mode only when the
  thread is not blocked; the read loop in a blocked thread only while the ring is empty.\<close>

definition fits_cpu :: "kstate \<Rightarrow> tptr \<Rightarrow> kcont \<Rightarrow> bool" where
  "fits_cpu s c k \<longleftrightarrow>
     (case k of
        ToUser x \<Rightarrow> user_ctx x \<and> state_of s c \<noteq> TASK_BLOCKED
      | InSysRead x \<Rightarrow> read_ctx x \<and> (state_of s c = TASK_BLOCKED \<longrightarrow> uart_rx_empty (rx s))
      | AfterFault \<Rightarrow> state_of s c = TASK_DEAD
      | Halted \<Rightarrow> True)"

definition kinv :: "platform \<Rightarrow> kstate \<Rightarrow> bool" where
  "kinv p s \<longleftrightarrow> kernel_layout p s \<and> core_inv s \<and> (\<forall>c. current s = Some c \<longrightarrow> fits_cpu s c (cpu s))"

lemma kinvD:
  assumes "kinv p s"
  obtains c where "current s = Some c" "c < 6" "kernel_layout p s" "core_inv s" "fits_cpu s c (cpu s)"
  using assms by (auto simp: kinv_def core_inv_def)

lemma core_invD:
  assumes "core_inv s" "current s = Some c"
  shows "c < 6" "threads_inv s c" "ttbr0 s = pgd_pa (proc_of s c) OR 0x4A"
    "waitq_invar (waitq s)" "rx_invar (rx s)" "wake_hint s = Some h \<Longrightarrow> h < 6"
    "\<not> undefined_behaviour s"
  using assms by (auto simp: core_inv_def)

lemma core_invI:
  assumes "current s = Some c" "c < 6" "threads_inv s c" "ttbr0 s = pgd_pa (proc_of s c) OR 0x4A"
    "waitq_invar (waitq s)" "rx_invar (rx s)" "\<And>h. wake_hint s = Some h \<Longrightarrow> h < 6"
    "\<not> undefined_behaviour s"
  shows "core_inv s"
  using assms by (auto simp: core_inv_def)

lemma threads_invD:
  assumes "threads_inv s c" "t < 6"
  shows "state_of s t = TASK_RUNNING \<Longrightarrow> t = c"
    "state_of s t = TASK_BLOCKED \<Longrightarrow> t \<in> set (waitq_list (waitq s))"
    "t \<noteq> c \<Longrightarrow> cont_ok (state_of s t) (resume_at (threads s ! t))"
  using assms by (auto simp: threads_inv_def)

section \<open>The scheduler keeps the invariant\<close>

lemma fits_cont:
  "fits_cpu s c k \<Longrightarrow> k \<noteq> Halted \<Longrightarrow>
   st = state_of s c \<or> (state_of s c = TASK_RUNNING \<and> st = TASK_READY) \<Longrightarrow> cont_ok st k"
  by (cases k) (auto simp: fits_cpu_def)

lemma perform_switch_layout:
  assumes "kernel_layout p s" "c < 6" "t < 6" "c \<noteq> t"
  shows "kernel_layout p (perform_switch c t k s)"
  using assms layout_lengths [OF assms(1)]
  by (intro layout_cong [OF assms(1)]) (auto simp: perform_switch_threads)

lemma perform_switch_threads_inv:
  assumes l: "length (threads s) = 6" and inv: "threads_inv s c" and c: "c < 6" "t < 6" "c \<noteq> t"
    and "runnable s t" "fits_cpu s c k" "k \<noteq> Halted"
  shows "threads_inv (perform_switch c t k s) t"
  unfolding threads_inv_def
proof (intro allI impI)
  fix u :: nat assume u: "u < 6"
  note inv' = threads_invD [OF inv u]
  note th = perform_switch_threads [of c s t k u]
  have k: "cont_ok (if state_of s c = TASK_RUNNING then TASK_READY else state_of s c) k"
    by (rule fits_cont [OF assms(7,8)]) auto
  show "(state_of (perform_switch c t k s) u = TASK_RUNNING \<longrightarrow> u = t) \<and>
        (state_of (perform_switch c t k s) u = TASK_BLOCKED \<longrightarrow> u \<in> set (waitq_list (waitq (perform_switch c t k s)))) \<and>
        (u \<noteq> t \<longrightarrow> cont_ok (state_of (perform_switch c t k s) u) (resume_at (threads (perform_switch c t k s) ! u)))"
    using th inv' k l c by (cases "u = c") auto
qed

lemma perform_switch_inv:
  assumes l: "kernel_layout p s" and inv: "core_inv s" and cur: "current s = Some c"
    and t: "t < 6" "t \<noteq> c" "runnable s t" and k: "fits_cpu s c k" "k \<noteq> Halted"
  shows "kinv p (perform_switch c t k s)"
proof -
  note D = core_invD [OF inv cur]
  have len: "length (threads s) = 6" using layout_lengths [OF l] by simp
  have ct: "c < length (threads s)" "t < length (threads s)" "c \<noteq> t" using D(1) t len by auto
  let ?s = "perform_switch c t k s"
  have tinv: "threads_inv ?s t"
    using perform_switch_threads_inv [OF len D(2) D(1) t(1) _ t(3) k] t(2) by simp
  have tt: "threads ?s ! t = (threads s ! t)\<lparr>t_state := TASK_RUNNING\<rparr>"
    using perform_switch_threads [OF ct] t(2) by simp
  have core: "core_inv ?s"
    by (rule core_invI [where c = t])
      (use D t tinv in \<open>auto simp: tt perform_switch_machine [OF ct]\<close>)
  have "cont_ok (state_of s t) (resume_at (threads s ! t))"
    using threads_invD(3) [OF D(2) t(1,2)] .
  then have "fits_cpu ?s t (cpu ?s)"
    using t(3) by (cases "resume_at (threads s ! t)")
      (auto simp: fits_cpu_def perform_switch_machine [OF ct] tt runnable_def)
  with core show ?thesis
    using perform_switch_layout [OF l D(1) t(1)] t(2) by (simp add: kinv_def)
qed

lemma schedule_cases [consumes 3]:
  assumes l: "kernel_layout p s" and inv: "core_inv s" and cur: "current s = Some c"
  obtains (switch) t where "t < 6" "t \<noteq> c" "runnable s t" "need_reschedule s" "next_thread s c = Some t"
      "schedule k s = perform_switch c t k (s\<lparr>need_reschedule := False, wake_hint := None\<rparr>)"
    | (stay) "need_reschedule s" "next_thread s c = None" "\<And>t. t < 6 \<Longrightarrow> t \<noteq> c \<Longrightarrow> \<not> runnable s t"
      "schedule k s = s\<lparr>need_reschedule := False, wake_hint := None, cpu := k\<rparr>"
    | (none) "\<not> need_reschedule s" "schedule k s = s\<lparr>cpu := k\<rparr>"
proof (cases "need_reschedule s")
  case True
  note D = core_invD [OF inv cur]
  have tid: "tid (threads s ! c) = of_nat c" using layout_thread [OF l D(1)] by simp
  note sn = schedule_next [OF cur True D(1) tid, of k]
  show ?thesis
  proof (cases "next_thread s c")
    case None
    then show ?thesis using sn stay True next_thread_None [OF None D(1)] by simp
  next
    case (Some t)
    moreover have "t \<noteq> c \<and> runnable s t \<and> t < 6"
      using D(6) by (intro next_thread_props [OF Some]) auto
    ultimately show ?thesis using sn switch [of t] True by simp
  qed
next
  case False
  then show ?thesis using none cur by (simp add: schedule_def)
qed

lemma layout_upd [simp]:
  "kernel_layout p (s\<lparr>need_reschedule := b\<rparr>) = kernel_layout p s"
  "kernel_layout p (s\<lparr>wake_hint := h\<rparr>) = kernel_layout p s"
  "kernel_layout p (s\<lparr>cpu := k\<rparr>) = kernel_layout p s"
  "kernel_layout p (s\<lparr>waitq := q\<rparr>) = kernel_layout p s"
  "kernel_layout p (s\<lparr>rx := r\<rparr>) = kernel_layout p s"
  "kernel_layout p (s\<lparr>pmem := m\<rparr>) = kernel_layout p s"
  "kernel_layout p (s\<lparr>console_out := co\<rparr>) = kernel_layout p s"
  "kernel_layout p (s\<lparr>tick_count := tc\<rparr>) = kernel_layout p s"
  "kernel_layout p (s\<lparr>eois := es\<rparr>) = kernel_layout p s"
  "kernel_layout p (s\<lparr>sp_usr := v\<rparr>) = kernel_layout p s"
  "kernel_layout p (s\<lparr>lr_usr := v\<rparr>) = kernel_layout p s"
  by (simp_all add: kernel_layout_def)

lemma threads_inv_upd [simp]:
  "threads_inv (s\<lparr>need_reschedule := b\<rparr>) c = threads_inv s c"
  "threads_inv (s\<lparr>wake_hint := h\<rparr>) c = threads_inv s c"
  "threads_inv (s\<lparr>cpu := k\<rparr>) c = threads_inv s c"
  "threads_inv (s\<lparr>rx := r\<rparr>) c = threads_inv s c"
  "threads_inv (s\<lparr>pmem := m\<rparr>) c = threads_inv s c"
  "threads_inv (s\<lparr>console_out := co\<rparr>) c = threads_inv s c"
  "threads_inv (s\<lparr>tick_count := tc\<rparr>) c = threads_inv s c"
  "threads_inv (s\<lparr>eois := es\<rparr>) c = threads_inv s c"
  "threads_inv (s\<lparr>sp_usr := v\<rparr>) c = threads_inv s c"
  "threads_inv (s\<lparr>lr_usr := v\<rparr>) c = threads_inv s c"
  by (simp_all add: threads_inv_def)

lemma core_inv_upd [simp]:
  "core_inv (s\<lparr>need_reschedule := b\<rparr>) = core_inv s"
  "core_inv (s\<lparr>cpu := k\<rparr>) = core_inv s"
  "core_inv (s\<lparr>pmem := m\<rparr>) = core_inv s"
  "core_inv (s\<lparr>console_out := co\<rparr>) = core_inv s"
  "core_inv (s\<lparr>tick_count := tc\<rparr>) = core_inv s"
  "core_inv (s\<lparr>eois := es\<rparr>) = core_inv s"
  "core_inv (s\<lparr>sp_usr := v\<rparr>) = core_inv s"
  "core_inv (s\<lparr>lr_usr := v\<rparr>) = core_inv s"
  by (simp_all add: core_inv_def)

lemma core_inv_no_hint: "core_inv s \<Longrightarrow> core_inv (s\<lparr>wake_hint := None\<rparr>)"
  by (simp add: core_inv_def)

lemma core_inv_rx: "core_inv s \<Longrightarrow> rx_invar r \<Longrightarrow> core_inv (s\<lparr>rx := r\<rparr>)"
  by (simp add: core_inv_def)

lemma fits_cpu_upd [simp]:
  "fits_cpu (s\<lparr>need_reschedule := b\<rparr>) c k = fits_cpu s c k"
  "fits_cpu (s\<lparr>wake_hint := h\<rparr>) c k = fits_cpu s c k"
  "fits_cpu (s\<lparr>cpu := k'\<rparr>) c k = fits_cpu s c k"
  "fits_cpu (s\<lparr>console_out := co\<rparr>) c k = fits_cpu s c k"
  "fits_cpu (s\<lparr>eois := es\<rparr>) c k = fits_cpu s c k"
  "fits_cpu (s\<lparr>pmem := m\<rparr>) c k = fits_cpu s c k"
  by (simp_all add: fits_cpu_def split: kcont.split)

lemma schedule_inv [kernel_inv]:
  assumes l: "kernel_layout p s" and inv: "core_inv s" and cur: "current s = Some c"
    and k: "fits_cpu s c k" "k \<noteq> Halted"
  shows "kinv p (schedule k s)"
  using l inv cur
proof (cases rule: schedule_cases [where k = k])
  case (switch t)
  then show ?thesis
    using assms perform_switch_inv [of p "s\<lparr>need_reschedule := False, wake_hint := None\<rparr>" c t k]
    by (simp add: core_inv_no_hint)
next
  case stay
  then show ?thesis using assms by (simp add: kinv_def core_inv_no_hint)
next
  case none
  then show ?thesis using assms by (simp add: kinv_def)
qed

section \<open>Blocking and waking\<close>

lemma block_core_inv:
  assumes l: "kernel_layout p s" and inv: "core_inv s" and cur: "current s = Some c"
  shows "core_inv ((set_state c TASK_BLOCKED s)\<lparr>waitq := waitq_push c (waitq s), need_reschedule := True\<rparr>)"
    (is "core_inv ?s")
proof -
  note D = core_invD [OF inv cur]
  have c: "c < length (threads s)" using layout_lengths [OF l] D(1) by simp
  have q: "set (waitq_list (waitq_push c (waitq s))) = insert c (set (waitq_list (waitq s)))"
    using wq.push_set [OF D(4)] D(1) by simp
  have "threads_inv ?s c"
    using D(2) q by (auto simp: threads_inv_def nth_set_state [OF c])
  then show ?thesis
    using D cur waitq_push_list [OF D(4) D(1)]
    by (intro core_invI [where c = c]) (auto simp: nth_set_state [OF c])
qed

lemma block_on_input_inv [kernel_inv]:
  assumes l: "kernel_layout p s" and inv: "core_inv s" and cur: "current s = Some c"
    and "read_ctx x" "uart_rx_empty (rx s)"
  shows "kinv p (scheduler_block_on_input (InSysRead x) s)"
proof -
  note D = core_invD [OF inv cur]
  have c: "c < length (threads s)" using layout_lengths [OF l] D(1) by simp
  show ?thesis
    using assms D(1) block_core_inv [OF l inv cur]
    by (auto simp: scheduler_block_on_input_def fits_cpu_def layout_set_state nth_set_state [OF c]
        intro!: schedule_inv)
qed

text \<open>The wake-up in terms of the queue's content: the entries before the first blocked thread
  are dropped, that thread is woken.\<close>

lemma wake_reader_spec:
  assumes "waitq_invar (waitq s)"
  shows "case dropWhile (\<lambda>t. state_of s t \<noteq> TASK_BLOCKED) (waitq_list (waitq s)) of
      [] \<Rightarrow> \<exists>q. waitq_invar q \<and> waitq_list q = [] \<and> scheduler_wake_reader s = s\<lparr>waitq := q\<rparr>
    | t # ts \<Rightarrow> \<exists>q. waitq_invar q \<and> waitq_list q = ts \<and>
        scheduler_wake_reader s =
          (set_state t TASK_READY s)\<lparr>waitq := q, wake_hint := Some t, need_reschedule := True\<rparr>"
  using assms
proof (induction s rule: scheduler_wake_reader.induct)
  case (1 s)
  note inv = 1(2)
  show ?case
  proof (cases "waitq_list (waitq s)")
    case Nil
    then have "waitq_pop (waitq s) = (None, waitq s)" by (rule waitq_pop_empty)
    with Nil inv show ?thesis by (subst scheduler_wake_reader.simps) auto
  next
    case (Cons t ts)
    obtain q where q: "waitq_pop (waitq s) = (Some t, q)" "waitq_list q = ts" "waitq_invar q"
      using wq.pop_Cons [OF inv Cons] by auto
    show ?thesis
    proof (cases "state_of s t = TASK_BLOCKED")
      case True
      then have "scheduler_wake_reader s =
          (set_state t TASK_READY (s\<lparr>waitq := q\<rparr>))\<lparr>wake_hint := Some t, need_reschedule := True\<rparr>"
        using q by (subst scheduler_wake_reader.simps) (simp add: Let_def)
      moreover have "set_state t TASK_READY (s\<lparr>waitq := q\<rparr>) = (set_state t TASK_READY s)\<lparr>waitq := q\<rparr>"
        by (simp add: set_state_def upd_thread_def)
      ultimately show ?thesis using True Cons q by auto
    next
      case False
      then have w: "scheduler_wake_reader s = scheduler_wake_reader (s\<lparr>waitq := q\<rparr>)"
        using q by (subst scheduler_wake_reader.simps) (simp add: Let_def)
      have st: "set_state u st (s\<lparr>waitq := q\<rparr>) = (set_state u st s)\<lparr>waitq := q\<rparr>" for u st
        by (simp add: set_state_def upd_thread_def)
      from 1(1) [OF q(1) [symmetric] refl refl] False q(2,3) Cons show ?thesis
        unfolding w by (simp add: st del: dropWhile_eq_Nil_conv split: list.splits)
    qed
  qed
qed

lemma waitq_tail_blocked:
  assumes "dropWhile (\<lambda>t. state_of s t \<noteq> TASK_BLOCKED) ts = ds" "u \<in> set ts" "state_of s u = TASK_BLOCKED"
  shows "u \<in> set ds"
  using assms by (metis (mono_tags, lifting) UnE set_append set_takeWhileD takeWhile_dropWhile_id)

lemma wake_reader_inv:
  assumes l: "kernel_layout p s" and inv: "core_inv s" and cur: "current s = Some c"
  shows "kernel_layout p (scheduler_wake_reader s) \<and> core_inv (scheduler_wake_reader s) \<and>
    current (scheduler_wake_reader s) = Some c \<and>
    (state_of s c \<noteq> TASK_BLOCKED \<longrightarrow> state_of (scheduler_wake_reader s) c = state_of s c)"
proof -
  note D = core_invD [OF inv cur]
  have len: "length (threads s) = 6" using layout_lengths [OF l] by simp
  let ?P = "\<lambda>t. state_of s t \<noteq> TASK_BLOCKED"
  show ?thesis
  proof (cases "dropWhile ?P (waitq_list (waitq s))")
    case Nil
    then obtain q where q: "waitq_invar q" "waitq_list q = []" "scheduler_wake_reader s = s\<lparr>waitq := q\<rparr>"
      using wake_reader_spec [OF D(4)] unfolding Nil by auto
    have "\<forall>t < 6. state_of s t \<noteq> TASK_BLOCKED"
      using threads_invD(2) [OF D(2)] waitq_tail_blocked [OF Nil] by auto
    then have "threads_inv (s\<lparr>waitq := q\<rparr>) c" using D(2) by (simp add: threads_inv_def)
    then have "core_inv (s\<lparr>waitq := q\<rparr>)"
      using D cur q by (intro core_invI [where c = c]) auto
    with q l cur show ?thesis by simp
  next
    case (Cons t ts)
    then obtain q where q: "waitq_invar q" "waitq_list q = ts" "scheduler_wake_reader s =
        (set_state t TASK_READY s)\<lparr>waitq := q, wake_hint := Some t, need_reschedule := True\<rparr>"
      using wake_reader_spec [OF D(4)] unfolding Cons by auto
    have b: "state_of s t = TASK_BLOCKED"
      using hd_dropWhile [of ?P "waitq_list (waitq s)"] Cons by simp
    have "t \<in> set (waitq_list (waitq s))" using Cons by (metis list.set_intros(1) set_dropWhileD)
    then have t: "t < 6" using waitq_list_valid [OF D(4)] by simp
    have tl: "t < length (threads s)" using t len by simp
    have cont: "t \<noteq> c \<Longrightarrow> cont_ok TASK_READY (resume_at (threads s ! t))"
      using threads_invD(3) [OF D(2) t] b by (cases "resume_at (threads s ! t)") auto
    have q': "u \<in> set ts" if "u < 6" "state_of s u = TASK_BLOCKED" "u \<noteq> t" for u
      using threads_invD(2) [OF D(2) that(1,2)] waitq_tail_blocked [OF Cons] that by auto
    have "threads_inv (scheduler_wake_reader s) c"
      unfolding q(3) threads_inv_def using threads_invD [OF D(2)] cont q' q(2)
      by (auto simp: nth_set_state [OF tl])
    then have "core_inv (scheduler_wake_reader s)"
      using D cur q t by (intro core_invI [where c = c]) (auto simp: nth_set_state [OF tl])
    with q l t cur b show ?thesis by (auto simp: nth_set_state [OF tl] intro: layout_set_state)
  qed
qed

end
