(* ===== verification/Syscall.thy ===== *)
theory Syscall
  imports Kernel_Invariant
begin

text \<open>
  The system calls (\<open>kernel/syscall/syscall.c\<close>): one definition per handler, the table and
  \<open>syscall_dispatch\<close>. A handler takes the four argument registers and the kernel state. It either
  returns a value for r0, or it has to wait (only \<open>sys_read\<close>, on an empty ring), or the kernel
  takes a data abort on a user address.
\<close>

section \<open>Model\<close>

datatype sys_result = Ret u32 | Wait | Abort

type_synonym syscall_fn = "u32 \<Rightarrow> u32 \<Rightarrow> u32 \<Rightarrow> u32 \<Rightarrow> kstate \<Rightarrow> sys_result \<times> kstate"

definition E_BADCALL :: u32 where [kernel_const]: "E_BADCALL = - 1"
definition E_FAULT :: u32 where [kernel_const]: "E_FAULT = - 2"

subsection \<open>write, getpid, yield, exit\<close>

primrec write_loop :: "nat \<Rightarrow> u32 \<Rightarrow> kstate \<Rightarrow> bool \<times> kstate" where
  "write_loop 0 a s = (True, s)"
| "write_loop (Suc n) a s =
     (case kload s a of
        None \<Rightarrow> (False, s)
      | Some c \<Rightarrow> write_loop n (a + 1) (kputs [c] s))"

definition sys_write :: syscall_fn where
  "sys_write fd buf_addr len unused s =
     (if \<not> valid_user_ptr buf_addr len then (Ret E_FAULT, s)
      else case write_loop (unat len) buf_addr s of
             (True, s') \<Rightarrow> (Ret len, s')
           | (False, s') \<Rightarrow> (Abort, s'))"

definition sys_getpid :: syscall_fn where
  "sys_getpid a0 a1 a2 a3 s =
     (Ret (case current s of Some c \<Rightarrow> pid (proc_of s c) | None \<Rightarrow> - 1), s)"

definition sys_yield :: syscall_fn where
  "sys_yield a0 a1 a2 a3 s = (Ret 0, scheduler_request_resched s)"

definition sys_exit :: syscall_fn where
  "sys_exit a0 a1 a2 a3 s =
     (Ret 0, scheduler_request_resched
       (case current s of
          Some c \<Rightarrow>
            set_state c TASK_DEAD
              (kprintf ''[EXIT] %s t%u\<newline>'' [ArgStr (p_name (proc_of s c)), ArgInt (t_index (threads s ! c))] s)
        | None \<Rightarrow> s))"

subsection \<open>read\<close>

text \<open>The loop of \<open>sys_read\<close> from the point where \<open>n\<close> bytes are stored and \<open>rem\<close> may follow.\<close>

primrec read_loop :: "nat \<Rightarrow> u32 \<Rightarrow> u32 \<Rightarrow> kstate \<Rightarrow> sys_result \<times> kstate" where
  "read_loop 0 buf n s = (Ret n, s)"
| "read_loop (Suc rem) buf n s =
     (let (c, r) = uart_rx_pop (rx s);
          s' = s\<lparr>rx := r\<rparr>
      in if c < 0 then (if n > 0 then (Ret n, s') else (Wait, s'))
         else case kstore (buf + n) (char_of (nat c)) s' of
                None \<Rightarrow> (Abort, s')
              | Some s'' \<Rightarrow> read_loop rem buf (n + 1) s'')"

definition sys_read :: syscall_fn where
  "sys_read fd buf_addr len unused s =
     (if len = 0 then (Ret 0, s)
      else if \<not> valid_user_ptr buf_addr len then (Ret E_FAULT, s)
      else read_loop (unat len) buf_addr 0 s)"

subsection \<open>ps\<close>

text \<open>The progress of the listing: go on with \<open>n\<close> bytes written, leave the loop over the threads
  (\<open>break\<close>), or a data abort.\<close>

datatype ps_progress = Go u32 kstate | Brk u32 kstate | PsAbort kstate

fun ps_then :: "ps_progress \<Rightarrow> (u32 \<Rightarrow> kstate \<Rightarrow> ps_progress) \<Rightarrow> ps_progress" where
  "ps_then (Go n s) f = f n s"
| "ps_then r f = r"

definition ps_store :: "u32 \<Rightarrow> char \<Rightarrow> u32 \<Rightarrow> kstate \<Rightarrow> ps_progress" where
  "ps_store out c n s =
     (case kstore (out + n) c s of None \<Rightarrow> PsAbort s | Some s' \<Rightarrow> Go (n + 1) s')"

text \<open>\<open>for (c = cs; *c && n + 1 < sz; c++) out[n++] = *c\<close>\<close>

fun ps_chars :: "u32 \<Rightarrow> u32 \<Rightarrow> string \<Rightarrow> u32 \<Rightarrow> kstate \<Rightarrow> ps_progress" where
  "ps_chars out sz [] n s = Go n s"
| "ps_chars out sz (c # cs) n s =
     (if n + 1 < sz then ps_then (ps_store out c n s) (ps_chars out sz cs) else Go n s)"

text \<open>\<open>if (n + 1 >= sz) break; out[n++] = c\<close>\<close>

definition ps_checked :: "u32 \<Rightarrow> u32 \<Rightarrow> char \<Rightarrow> u32 \<Rightarrow> kstate \<Rightarrow> ps_progress" where
  "ps_checked out sz c n s = (if n + 1 \<ge> sz then Brk n s else ps_store out c n s)"

definition PS_NAME_W :: nat where "PS_NAME_W = 7"

definition ps_state_name :: "string list" where
  "ps_state_name = [''READY  '', ''RUNNING'', ''BLOCKED'', ''DEAD   '']"

definition ps_state :: "task_state \<Rightarrow> string" where
  "ps_state st = (if task_state_num st < 4 then ps_state_name ! task_state_num st else ''???'')"

definition ps_thread :: "u32 \<Rightarrow> u32 \<Rightarrow> nat \<Rightarrow> u32 \<Rightarrow> kstate \<Rightarrow> ps_progress" where
  "ps_thread out sz i n0 s0 =
     (let t = threads s0 ! i;
          st = ps_state (t_state t);
          nm = (case p_name (processes s0 ! t_proc t) of Some x \<Rightarrow> x | None \<Rightarrow> ''?'')
      in ps_then (ps_chars out sz nm n0 s0) (\<lambda>n s.
         ps_then (ps_chars out sz (replicate (PS_NAME_W - unat (n - n0)) (CHR '' '')) n s) (\<lambda>n s.
         ps_then (ps_checked out sz (CHR '' '') n s) (\<lambda>n s.
         ps_then (ps_checked out sz (CHR ''t'') n s) (\<lambda>n s.
         ps_then (ps_checked out sz (char_of (48 + unat (t_index t))) n s) (\<lambda>n s.
         ps_then (ps_checked out sz (CHR '' '') n s) (\<lambda>n s.
         ps_then (ps_checked out sz (CHR '' '') n s) (\<lambda>n s.
         ps_then (ps_chars out sz st n s) (\<lambda>n s.
         ps_checked out sz (CHR 0x0A) n s)))))))))"

fun ps_loop :: "u32 \<Rightarrow> u32 \<Rightarrow> nat list \<Rightarrow> u32 \<Rightarrow> kstate \<Rightarrow> ps_progress" where
  "ps_loop out sz [] n s = Go n s"
| "ps_loop out sz (i # is) n s = ps_then (ps_thread out sz i n s) (ps_loop out sz is)"

definition sys_ps :: syscall_fn where
  "sys_ps buf_addr sz unused0 unused1 s =
     (if \<not> valid_user_ptr buf_addr sz then (Ret E_FAULT, s)
      else case ps_loop buf_addr sz [0..<num_threads] 0 s of
             Go n s' \<Rightarrow> (Ret n, s')
           | Brk n s' \<Rightarrow> (Ret n, s')
           | PsAbort s' \<Rightarrow> (Abort, s'))"

subsection \<open>kill, ticks\<close>

definition alive_threads :: "kstate \<Rightarrow> tptr option list \<Rightarrow> nat" where
  "alive_threads s ts =
     length (filter (\<lambda>x. case x of Some t \<Rightarrow> state_of s t \<noteq> TASK_DEAD | None \<Rightarrow> False) ts)"

text \<open>The loop that marks every thread of a process dead, in \<open>sys_kill\<close> and in \<open>user_fault_kill\<close>.\<close>

definition retire_threads :: "tptr option list \<Rightarrow> kstate \<Rightarrow> kstate" where
  "retire_threads ts s =
     fold (\<lambda>x s. case x of Some t \<Rightarrow> set_state t TASK_DEAD s | None \<Rightarrow> s) ts s"

definition sys_kill :: syscall_fn where
  "sys_kill kpid unused0 unused1 unused2 s =
     (if kpid \<ge> NUM_PROCESSES then (Ret E_BADCALL, s)
      else
        let p = processes s ! unat kpid;
            alive = alive_threads s (p_threads p)
        in if alive = 0 then (Ret 0, s)
           else
             let s1 = kprintf ''[KILL] %s (%u threads) killed by %s t%u via sys_kill\<newline>''
                        [ArgStr (p_name p), ArgInt (of_nat alive),
                         ArgStr (case current s of Some c \<Rightarrow> p_name (proc_of s c) | None \<Rightarrow> Some ''?''),
                         ArgInt (case current s of Some c \<Rightarrow> t_index (threads s ! c) | None \<Rightarrow> 0)] s
             in (Ret 0, scheduler_request_resched (retire_threads (p_threads p) s1)))"

definition timer_get_ticks :: "kstate \<Rightarrow> u32" where
  "timer_get_ticks s = tick_count s"

definition sys_ticks :: syscall_fn where
  "sys_ticks a0 a1 a2 a3 s = (Ret (timer_get_ticks s), s)"

subsection \<open>Dispatch\<close>

definition SYS_WRITE :: nat where "SYS_WRITE = 0"
definition SYS_GETPID :: nat where "SYS_GETPID = 1"
definition SYS_YIELD :: nat where "SYS_YIELD = 2"
definition SYS_EXIT :: nat where "SYS_EXIT = 3"
definition SYS_READ :: nat where "SYS_READ = 4"
definition SYS_PS :: nat where "SYS_PS = 5"
definition SYS_KILL :: nat where "SYS_KILL = 6"
definition SYS_TICKS :: nat where "SYS_TICKS = 7"
definition NR_SYSCALLS :: u32 where [kernel_const]: "NR_SYSCALLS = 8"

definition syscall_table :: "syscall_fn option list" where
  "syscall_table =
     (replicate (unat NR_SYSCALLS) None)
       [SYS_WRITE := Some sys_write, SYS_GETPID := Some sys_getpid, SYS_YIELD := Some sys_yield,
        SYS_EXIT := Some sys_exit, SYS_READ := Some sys_read, SYS_PS := Some sys_ps,
        SYS_KILL := Some sys_kill, SYS_TICKS := Some sys_ticks]"

definition set_r0 :: "u32 \<Rightarrow> exception_context \<Rightarrow> exception_context" where
  "set_r0 v c = c\<lparr>ec_r := (ec_r c)[0 := v]\<rparr>"

text \<open>The outcome of \<open>syscall_dispatch\<close>: the updated context, or the reason why there is none.\<close>

datatype dispatch_result = Done exception_context | Waiting | Aborted

definition syscall_dispatch :: "exception_context \<Rightarrow> kstate \<Rightarrow> dispatch_result \<times> kstate" where
  "syscall_dispatch c s =
     (let num = ec_r c ! 7
      in case (if num \<ge> NR_SYSCALLS then None else syscall_table ! unat num) of
           None \<Rightarrow> (Done (set_r0 E_BADCALL c), s)
         | Some f \<Rightarrow>
             (case f (ec_r c ! 0) (ec_r c ! 1) (ec_r c ! 2) (ec_r c ! 3) s of
                (Ret ret, s') \<Rightarrow> (Done (set_r0 ret c), s')
              | (Wait, s') \<Rightarrow> (Waiting, s')
              | (Abort, s') \<Rightarrow> (Aborted, s')))"

end
