(* ===== verification/Syscall_Correct.thy ===== *)
theory Syscall_Correct
  imports Syscall
begin

text \<open>
  Correctness of the system calls under the invariant: which bytes they move between the user
  buffer, the receive ring and the console, that they never abort in the kernel, and that they keep
  the invariant. The bytes of a user range are read through \<open>upa\<close>, the physical address behind a
  virtual address of the process that runs.
\<close>

section \<open>User memory under the invariant\<close>

definition upa :: "platform \<Rightarrow> nat \<Rightarrow> u32 \<Rightarrow> u32" where
  "upa p i va = user_slot (board_of p) i + (va - USER_VIRT_BASE)"

definition user_bytes :: "platform \<Rightarrow> nat \<Rightarrow> kstate \<Rightarrow> u32 \<Rightarrow> nat \<Rightarrow> char list" where
  "user_bytes p i s a n = map (\<lambda>k. pmem s (upa p i (a + of_nat k))) [0..<n]"

lemma ttbr0_base: "(x OR 0x4A) AND 0xFFFFC000 = x AND (0xFFFFC000 :: u32)"
  by (simp add: bit.conj_disj_distrib2)

lemma active_table_current:
  assumes "kernel_layout p s" "core_inv s" "current s = Some c"
  shows "\<exists>old. active_table s = proc_table p (c div 2) old"
proof -
  have c: "c < 6" and tt: "ttbr0 s = pgd_pa (proc_of s c) OR 0x4A"
    using core_invD [OF assms(2,3)] by auto
  have "t_proc (threads s ! c) = c div 2" using layout_thread [OF assms(1) c] by simp
  moreover have "process_at p (tables s) (c div 2) (processes s ! (c div 2))"
    using c by (intro layout_process [OF assms(1)]) simp
  ultimately show ?thesis by (simp add: active_table_def tt ttbr0_base process_at_def)
qed

text \<open>The state in which system calls run, reduced to what user accesses depend on.\<close>

definition user_access :: "platform \<Rightarrow> nat \<Rightarrow> kstate \<Rightarrow> bool" where
  "user_access p i s \<longleftrightarrow> i < 3 \<and> (\<exists>old. active_table s = proc_table p i old)"

lemma user_access_current:
  "kernel_layout p s \<Longrightarrow> core_inv s \<Longrightarrow> current s = Some c \<Longrightarrow> user_access p (c div 2) s"
  using active_table_current core_invD(1) by (fastforce simp: user_access_def)

lemma user_access_upd [simp]:
  "user_access p i (s\<lparr>rx := r\<rparr>) = user_access p i s"
  "user_access p i (s\<lparr>pmem := m\<rparr>) = user_access p i s"
  "user_access p i (kputs cs s) = user_access p i s"
  by (simp_all add: user_access_def active_table_def)

lemma kload_user:
  assumes "user_access p i s" "valid_user_ptr a len" "k < unat len"
  shows "kload s (a + of_nat k) = Some (pmem s (upa p i (a + of_nat k)))"
  using assms(1) valid_user_ptr_byte [OF assms(2,3)]
  by (auto simp: kload_def user_access_def upa_def proc_table_priv_window)

lemma kstore_user:
  assumes "user_access p i s" "valid_user_ptr a len" "k < unat len"
  shows "kstore (a + of_nat k) c s = Some (s\<lparr>pmem := (pmem s)(upa p i (a + of_nat k) := c)\<rparr>)"
  using assms(1) valid_user_ptr_byte [OF assms(2,3)]
  by (auto simp: kstore_def user_access_def upa_def proc_table_priv_window)

lemma upa_inj:
  assumes "valid_user_ptr a len" "j < unat len" "k < unat len" "upa p i (a + of_nat j) = upa p i (a + of_nat k)"
  shows "j = k"
proof -
  have "a + of_nat j = a + of_nat k" using assms(4) by (simp add: upa_def)
  then have "unat (a + of_nat j) = unat (a + of_nat k)" by simp
  then show ?thesis
    by (simp only: valid_user_ptr_byte(1) [OF assms(1,2)] valid_user_ptr_byte(1) [OF assms(1,3)] add_left_cancel)
qed

lemma upa_in_slot:
  "user_access p i s \<Longrightarrow> valid_user_ptr a len \<Longrightarrow> k < unat len \<Longrightarrow> upa p i (a + of_nat k) \<in> slot_range p i"
  unfolding upa_def user_access_def by (intro window_in_slot valid_user_ptr_byte) auto

text \<open>A write of one byte of the range shows up in the bytes read back, and nowhere else.\<close>

lemma user_bytes_snoc:
  "user_bytes p i s a (Suc n) = user_bytes p i s a n @ [pmem s (upa p i (a + of_nat n))]"
  by (simp add: user_bytes_def)

lemma user_bytes_store_other:
  assumes "valid_user_ptr a len" "n \<le> k" "k < unat len"
  shows "user_bytes p i (s\<lparr>pmem := (pmem s)(upa p i (a + of_nat k) := c)\<rparr>) a n = user_bytes p i s a n"
proof -
  have "upa p i (a + of_nat j) \<noteq> upa p i (a + of_nat k)" if "j < n" for j
    using upa_inj [OF assms(1) _ assms(3), of j p i] that assms by auto
  then show ?thesis by (simp add: user_bytes_def)
qed

section \<open>write\<close>

lemma write_loop_spec:
  assumes "user_access p i s" "valid_user_ptr a len" "k + n \<le> unat len"
  shows "write_loop n (a + of_nat k) s =
    (True, kputs (map (\<lambda>j. pmem s (upa p i (a + of_nat j))) [k..<k + n]) s)"
  using assms
proof (induction n arbitrary: k s)
  case 0
  then show ?case by (simp add: kputs_def console_bytes_def)
next
  case (Suc n)
  let ?c = "pmem s (upa p i (a + of_nat k))"
  have "kload s (a + of_nat k) = Some ?c"
    using Suc.prems by (intro kload_user) auto
  then have "write_loop (Suc n) (a + of_nat k) s = write_loop n (a + of_nat (Suc k)) (kputs [?c] s)"
    by (simp add: ac_simps)
  also have "\<dots> = (True, kputs (map (\<lambda>j. pmem s (upa p i (a + of_nat j))) [Suc k..<Suc k + n]) (kputs [?c] s))"
    using Suc.IH [of "kputs [?c] s" "Suc k"] Suc.prems by simp
  also have "\<dots> = (True, kputs (map (\<lambda>j. pmem s (upa p i (a + of_nat j))) [k..<k + Suc n]) s)"
    by (simp add: upt_conv_Cons kputs_def console_bytes_def del: upt_Suc)
  finally show ?case .
qed

lemma sys_write_spec:
  assumes "user_access p i s" "valid_user_ptr a len"
  shows "sys_write fd a len u s = (Ret len, kputs (user_bytes p i s a (unat len)) s)"
  using write_loop_spec [OF assms, of 0 "unat len"] assms
  by (simp add: sys_write_def user_bytes_def)

section \<open>read\<close>

lemma rx_pop_cases:
  assumes "rx_invar r"
  obtains (empty) "rx_contents r = []" "uart_rx_pop r = (-1, r)"
    | (byte) c cs r' where "rx_contents r = c # cs" "uart_rx_pop r = (of_char c, r')"
        "rx_contents r' = cs" "rx_invar r'"
proof (cases "rx_contents r")
  case Nil
  then show ?thesis
    using empty assms by (simp add: rx_empty_iff uart_rx_empty_def uart_rx_pop_def)
next
  case (Cons c cs)
  then show ?thesis using byte rx_pop_contents [OF assms Cons] by (metis prod.collapse)
qed

text \<open>One round of the copy loop: the byte at the front of the ring goes to the next place of the buffer.\<close>

lemma read_loop_byte:
  assumes "user_access p i s" "valid_user_ptr a len" "n < unat len" "uart_rx_pop (rx s) = (of_char c, r')"
  defines "s1 \<equiv> s\<lparr>rx := r', pmem := (pmem s)(upa p i (a + of_nat n) := c)\<rparr>"
  shows "read_loop (Suc rem) a (of_nat n) s = read_loop rem a (of_nat (Suc n)) s1"
    and "user_bytes p i s1 a (Suc n) = user_bytes p i s a n @ [c]" and "user_access p i s1"
proof -
  have "kstore (a + of_nat n) c (s\<lparr>rx := r'\<rparr>) = Some s1"
    using kstore_user [of p i "s\<lparr>rx := r'\<rparr>" a len n c] assms(1-3) by (simp add: s1_def)
  then show "read_loop (Suc rem) a (of_nat n) s = read_loop rem a (of_nat (Suc n)) s1"
    using assms(4) by (simp add: add.commute of_char_int_nonneg not_less)
  show "user_bytes p i s1 a (Suc n) = user_bytes p i s a n @ [c]"
    using user_bytes_store_other [OF assms(2) order_refl assms(3), of p i "s\<lparr>rx := r'\<rparr>" c]
    by (simp add: user_bytes_snoc s1_def) (simp add: user_bytes_def)
  show "user_access p i s1" using assms(1) by (simp add: s1_def)
qed

text \<open>The copy loop: it moves bytes from the front of the ring to the buffer until the ring is
  empty or the buffer is full.\<close>

lemma read_loop_spec:
  assumes "user_access p i s" "rx_invar (rx s)" "valid_user_ptr a len"
    and "n + rem = unat len" "rem \<noteq> 0" "n \<noteq> 0 \<or> rx_contents (rx s) \<noteq> []"
  defines "m \<equiv> min rem (length (rx_contents (rx s)))"
  shows "\<exists>r mem. read_loop rem a (of_nat n) s = (Ret (of_nat (n + m)), s\<lparr>rx := r, pmem := mem\<rparr>) \<and>
    rx_invar r \<and> rx_contents r = drop m (rx_contents (rx s)) \<and>
    user_bytes p i (s\<lparr>rx := r, pmem := mem\<rparr>) a (n + m) =
      user_bytes p i s a n @ take m (rx_contents (rx s)) \<and>
    (\<forall>pa. pa \<notin> (\<lambda>k. upa p i (a + of_nat k)) ` {n..<n + m} \<longrightarrow> mem pa = pmem s pa)"
  using assms(1-6) unfolding m_def
proof (induction rem arbitrary: n s)
  case 0
  then show ?case by simp
next
  case (Suc rem)
  have n32: "n < 4294967296" using Suc.prems(4) unat_u32_less [of len] by simp
  from Suc.prems(2) show ?case
  proof (cases rule: rx_pop_cases)
    case empty
    then have "n \<noteq> 0" using Suc.prems by simp
    then have "(of_nat n :: u32) > 0" using n32 by (simp add: word_less_nat_alt unat_u32_of_nat)
    with empty Suc.prems(2) show ?thesis
      by (intro exI [of _ "rx s"] exI [of _ "pmem s"]) (auto simp: user_bytes_def)
  next
    case (byte c cs r')
    let ?pa = "upa p i (a + of_nat n)"
    define s1 where "s1 = s\<lparr>rx := r', pmem := (pmem s)(?pa := c)\<rparr>"
    have "n < unat len" using Suc.prems(4) by simp
    note round = read_loop_byte [OF Suc.prems(1,3) this byte(2), folded s1_def]
    note step = round(1) [of rem] and ub = round(2)
    have s1: "s\<lparr>rx := r', pmem := pmem s1\<rparr> = s1" "rx s1 = r'" "user_access p i s1"
        "\<And>r mem. s1\<lparr>rx := r, pmem := mem\<rparr> = s\<lparr>rx := r, pmem := mem\<rparr>"
        "\<And>pa. pa \<noteq> ?pa \<Longrightarrow> pmem s1 pa = pmem s pa"
      using Suc.prems(1) by (simp_all add: s1_def)
    show ?thesis
    proof (cases "rem = 0")
      case True
      then have "read_loop (Suc rem) a (of_nat n) s = (Ret (of_nat (Suc n)), s1)" using step by simp
      then show ?thesis using True ub byte s1
        by (intro exI [of _ r'] exI [of _ "pmem s1"]) auto
    next
      case False
      have "user_access p i s1" "rx_invar (rx s1)" "Suc n + rem = unat len" "Suc n \<noteq> 0 \<or> rx_contents (rx s1) \<noteq> []"
        using s1 byte Suc.prems by auto
      from Suc.IH [OF this(1,2) Suc.prems(3) this(3) False this(4)] obtain r mem where ih:
        "read_loop rem a (of_nat (Suc n)) s1 = (Ret (of_nat (Suc n + min rem (length cs))), s\<lparr>rx := r, pmem := mem\<rparr>)"
        "rx_invar r" "rx_contents r = drop (min rem (length cs)) cs"
        "user_bytes p i (s\<lparr>rx := r, pmem := mem\<rparr>) a (Suc n + min rem (length cs)) =
          user_bytes p i s1 a (Suc n) @ take (min rem (length cs)) cs"
        "\<And>pa. pa \<notin> (\<lambda>k. upa p i (a + of_nat k)) ` {Suc n..<Suc n + min rem (length cs)} \<Longrightarrow> mem pa = pmem s1 pa"
        unfolding s1 byte(3) by auto
      have m: "min (Suc rem) (length (rx_contents (rx s))) = Suc (min rem (length cs))" using byte by simp
      have "mem pa = pmem s pa" if "pa \<notin> (\<lambda>k. upa p i (a + of_nat k)) ` {n..<n + Suc (min rem (length cs))}" for pa
      proof -
        have "{n..<n + Suc (min rem (length cs))} = insert n {Suc n..<Suc n + min rem (length cs)}" by auto
        with that show ?thesis using ih(5) [of pa] s1(5) [of pa] by simp
      qed
      then show ?thesis unfolding m step using ih(1-4) ub byte(1)
        by (intro exI [of _ r] exI [of _ mem]) auto
    qed
  qed
qed

lemma sys_read_spec:
  assumes "user_access p i s" "rx_invar (rx s)" "valid_user_ptr a len" "len \<noteq> 0" "rx_contents (rx s) \<noteq> []"
  defines "m \<equiv> min (unat len) (length (rx_contents (rx s)))"
  shows "\<exists>r mem. sys_read fd a len u s = (Ret (of_nat m), s\<lparr>rx := r, pmem := mem\<rparr>) \<and>
    rx_invar r \<and> rx_contents r = drop m (rx_contents (rx s)) \<and>
    user_bytes p i (s\<lparr>rx := r, pmem := mem\<rparr>) a m = take m (rx_contents (rx s)) \<and>
    (\<forall>pa. pa \<notin> (\<lambda>k. upa p i (a + of_nat k)) ` {0..<m} \<longrightarrow> mem pa = pmem s pa)"
proof -
  have "unat len \<noteq> 0" using assms(4) by (simp add: unat_eq_0)
  then show ?thesis
    using read_loop_spec [OF assms(1-3), of 0 "unat len"] assms(3-5) unfolding m_def
    by (simp add: sys_read_def user_bytes_def)
qed

lemma sys_read_waits:
  assumes "valid_user_ptr a len" "len \<noteq> 0" "uart_rx_empty (rx s)"
  shows "sys_read fd a len u s = (Wait, s)"
proof -
  obtain n where "unat len = Suc n" using assms(2) by (metis not0_implies_Suc unat_eq_0)
  then show ?thesis using assms by (simp add: sys_read_def uart_rx_empty_def uart_rx_pop_def)
qed

section \<open>ps\<close>

text \<open>The whole listing, and the part of it the loop may still write.\<close>

definition ps_name :: "kstate \<Rightarrow> nat \<Rightarrow> string" where
  "ps_name s i = (case p_name (proc_of s i) of Some x \<Rightarrow> x | None \<Rightarrow> ''?'')"

definition ps_line :: "kstate \<Rightarrow> nat \<Rightarrow> string" where
  "ps_line s i = pad_right PS_NAME_W (ps_name s i) @ '' t'' @ [char_of (48 + unat (t_index (threads s ! i)))] @
     ''  '' @ ps_state (state_of s i) @ [CHR 0x0A]"

text \<open>A step of the listing that has written \<open>n\<close> bytes and appends \<open>cs\<close> as far as they fit:
  it goes on when all of them fit; otherwise the buffer is full and nothing more is written.\<close>

definition ps_appends :: "platform \<Rightarrow> nat \<Rightarrow> u32 \<Rightarrow> u32 \<Rightarrow> string \<Rightarrow> kstate \<Rightarrow> nat \<Rightarrow> ps_progress \<Rightarrow> bool" where
  "ps_appends p i out sz cs s n r \<longleftrightarrow>
     (\<exists>mem. let m = min (length cs) (unat sz - 1 - n); s' = s\<lparr>pmem := mem\<rparr>
       in (r = Go (of_nat (n + m)) s' \<or> (m < length cs \<and> r = Brk (of_nat (n + m)) s')) \<and>
          user_bytes p i s' out (n + m) = user_bytes p i s out n @ take m cs \<and>
          (\<forall>pa. pa \<notin> (\<lambda>k. upa p i (out + of_nat k)) ` {n..<n + m} \<longrightarrow> mem pa = pmem s pa))"

lemma ps_guard:
  assumes "n \<le> unat sz - 1"
  shows "of_nat n + 1 < sz \<longleftrightarrow> n < unat (sz :: u32) - 1"
proof -
  have "n < 4294967295" using assms unat_u32_less [of sz] by simp
  then have "unat (of_nat n + 1 :: u32) = Suc n" by (simp add: unat_u32_plus1 unat_u32_of_nat)
  then show ?thesis by (auto simp: word_less_nat_alt)
qed

lemma ps_full: "ps_appends p i out sz cs s (unat sz - 1) (Go (of_nat (unat sz - 1)) s)"
  unfolding ps_appends_def by (intro exI [of _ "pmem s"]) (simp add: user_bytes_def)

lemma ps_nothing: "ps_appends p i out sz [] s n (Go (of_nat n) s)"
  unfolding ps_appends_def by (intro exI [of _ "pmem s"]) (simp add: user_bytes_def)

lemma ps_break: "cs \<noteq> [] \<Longrightarrow> ps_appends p i out sz cs s (unat sz - 1) (Brk (of_nat (unat sz - 1)) s)"
  unfolding ps_appends_def by (intro exI [of _ "pmem s"]) (simp add: user_bytes_def)

lemma ps_store_appends:
  assumes "user_access p i s" "valid_user_ptr out sz" "n < unat sz - 1"
  shows "ps_appends p i out sz [c] s n (ps_store out c (of_nat n) s)"
proof -
  let ?s = "s\<lparr>pmem := (pmem s)(upa p i (out + of_nat n) := c)\<rparr>"
  have n: "n < unat sz" using assms(3) by simp
  have "ps_store out c (of_nat n) s = Go (of_nat (Suc n)) ?s"
    using kstore_user [OF assms(1,2) n, of c] by (simp add: ps_store_def add.commute)
  moreover have "user_bytes p i ?s out (Suc n) = user_bytes p i s out n @ [c]"
    using user_bytes_store_other [OF assms(2) order_refl n] by (simp add: user_bytes_snoc)
  moreover have "min (length [c]) (unat sz - 1 - n) = 1" using assms(3) by simp
  ultimately show ?thesis
    unfolding ps_appends_def by (intro exI [of _ "pmem ?s"]) auto
qed

text \<open>Steps compose: what the second step appends comes after what the first one appended.\<close>

lemma ps_then_appends:
  assumes r: "ps_appends p i out sz cs s n r" and n: "n \<le> unat sz - 1"
    and f: "\<And>mem n'. n' = n + min (length cs) (unat sz - 1 - n) \<Longrightarrow> n' \<le> unat sz - 1 \<Longrightarrow>
      ps_appends p i out sz ds (s\<lparr>pmem := mem\<rparr>) n' (f (of_nat n') (s\<lparr>pmem := mem\<rparr>))"
  shows "ps_appends p i out sz (cs @ ds) s n (ps_then r f)"
proof -
  define m where "m = min (length cs) (unat sz - 1 - n)"
  define m' where "m' = min (length ds) (unat sz - 1 - (n + m))"
  from r obtain mem where
    r: "r = Go (of_nat (n + m)) (s\<lparr>pmem := mem\<rparr>) \<or> (m < length cs \<and> r = Brk (of_nat (n + m)) (s\<lparr>pmem := mem\<rparr>))"
    and ub: "user_bytes p i (s\<lparr>pmem := mem\<rparr>) out (n + m) = user_bytes p i s out n @ take m cs"
    and fr: "\<And>pa. pa \<notin> (\<lambda>k. upa p i (out + of_nat k)) ` {n..<n + m} \<Longrightarrow> mem pa = pmem s pa"
    unfolding ps_appends_def Let_def m_def by auto
  have nm: "n + m \<le> unat sz - 1" using n by (auto simp: m_def)
  have tot: "min (length (cs @ ds)) (unat sz - 1 - n) = m + m'" by (auto simp: m_def m'_def)
  have tk: "take (m + m') (cs @ ds) = take m cs @ take m' ds" by (auto simp: m_def m'_def min_def)
  from r show ?thesis
  proof
    assume g: "r = Go (of_nat (n + m)) (s\<lparr>pmem := mem\<rparr>)"
    have "ps_appends p i out sz ds (s\<lparr>pmem := mem\<rparr>) (n + m) (ps_then r f)"
      unfolding g ps_then.simps by (rule f [OF _ nm]) (simp only: m_def)
    then obtain mem' where
      r': "ps_then r f = Go (of_nat (n + m + m')) (s\<lparr>pmem := mem'\<rparr>) \<or>
        (m' < length ds \<and> ps_then r f = Brk (of_nat (n + m + m')) (s\<lparr>pmem := mem'\<rparr>))"
      and ub': "user_bytes p i (s\<lparr>pmem := mem'\<rparr>) out (n + m + m') =
        user_bytes p i (s\<lparr>pmem := mem\<rparr>) out (n + m) @ take m' ds"
      and fr': "\<And>pa. pa \<notin> (\<lambda>k. upa p i (out + of_nat k)) ` {n + m..<n + m + m'} \<Longrightarrow> mem' pa = mem pa"
      unfolding ps_appends_def Let_def m'_def [symmetric] by (elim exE conjE) simp
    have "{n..<n + (m + m')} = {n..<n + m} \<union> {n + m..<n + m + m'}" by auto
    then have "\<forall>pa. pa \<notin> (\<lambda>k. upa p i (out + of_nat k)) ` {n..<n + (m + m')} \<longrightarrow> mem' pa = pmem s pa"
      using fr fr' by (simp add: image_Un)
    moreover have "m \<le> length cs" by (simp add: m_def)
    ultimately show ?thesis
      unfolding ps_appends_def tot Let_def tk using r' ub ub' by (intro exI [of _ mem']) (auto simp: add.assoc)
  next
    assume b: "m < length cs \<and> r = Brk (of_nat (n + m)) (s\<lparr>pmem := mem\<rparr>)"
    then have "m' = 0" by (auto simp: m_def m'_def)
    then show ?thesis
      unfolding ps_appends_def tot Let_def tk using b ub fr by (intro exI [of _ mem]) auto
  qed
qed

lemma ps_chars_appends:
  assumes "user_access p i s" "valid_user_ptr out sz" "n \<le> unat sz - 1"
  shows "ps_appends p i out sz cs s n (ps_chars out sz cs (of_nat n) s)"
  using assms
proof (induction cs arbitrary: n s)
  case Nil
  then show ?case by (simp add: ps_nothing)
next
  case (Cons c cs)
  show ?case
  proof (cases "n < unat sz - 1")
    case True
    have "ps_appends p i out sz ([c] @ cs) s n (ps_then (ps_store out c (of_nat n) s) (ps_chars out sz cs))"
      using Cons True by (intro ps_then_appends ps_store_appends Cons.IH) auto
    with True show ?thesis using Cons.prems(3) by (simp add: ps_guard)
  next
    case False
    then have "n = unat sz - 1" using Cons.prems(3) by simp
    then show ?thesis using ps_guard [OF Cons.prems(3)] ps_full by auto
  qed
qed

lemma ps_checked_appends:
  assumes "user_access p i s" "valid_user_ptr out sz" "n \<le> unat sz - 1"
  shows "ps_appends p i out sz [c] s n (ps_checked out sz c (of_nat n) s)"
proof (cases "n < unat sz - 1")
  case True
  then show ?thesis using assms ps_guard [OF assms(3)] ps_store_appends
    by (auto simp: ps_checked_def not_less [symmetric])
next
  case False
  then have "n = unat sz - 1" using assms(3) by simp
  then show ?thesis using ps_guard [OF assms(3)] ps_break [of "[c]"]
    by (auto simp: ps_checked_def not_less [symmetric])
qed

lemma ps_pad_appends:
  assumes "user_access p i s" "valid_user_ptr out sz" "n \<le> unat sz - 1"
    and "n = n0 + min (length nm) (unat sz - 1 - n0)" "n0 \<le> unat sz - 1"
  shows "ps_appends p i out sz (replicate (7 - length nm) (CHR '' '')) s n
    (ps_chars out sz (replicate (7 - unat (of_nat n - of_nat n0 :: u32)) (CHR '' '')) (of_nat n) s)"
proof (cases "length nm \<le> unat sz - 1 - n0")
  case True
  have "(of_nat n - of_nat n0 :: u32) = of_nat (length nm)" using True assms(4) by simp
  moreover have "length nm < 4294967296" using True unat_u32_less [of sz] by simp
  ultimately have "unat (of_nat n - of_nat n0 :: u32) = length nm" by (simp add: unat_u32_of_nat)
  then show ?thesis using ps_chars_appends [OF assms(1-3)] by simp
next
  case False
  then have n: "n = unat sz - 1" using assms(4,5) by simp
  have "ps_chars out sz cs (of_nat n) s = Go (of_nat n) s" for cs
    using ps_guard [OF assms(3)] n by (cases cs) auto
  then show ?thesis using ps_full n by simp
qed

lemma ps_thread_appends:
  assumes "user_access p i s" "valid_user_ptr out sz" "n \<le> unat sz - 1"
  shows "ps_appends p i out sz (ps_line s t) s n (ps_thread out sz t (of_nat n) s)"
proof -
  have line: "ps_line s t = ps_name s t @ replicate (7 - length (ps_name s t)) (CHR '' '') @ [CHR '' ''] @ [CHR ''t''] @
      [char_of (48 + unat (t_index (threads s ! t)))] @ [CHR '' ''] @ [CHR '' ''] @ ps_state (state_of s t) @ [CHR 0x0A]"
    by (simp add: ps_line_def pad_right_def PS_NAME_W_def)
  show ?thesis
    unfolding line ps_thread_def Let_def PS_NAME_W_def ps_name_def [symmetric]
    by (rule ps_then_appends ps_pad_appends ps_chars_appends ps_checked_appends assms |
        assumption | simp only: user_access_upd)+
qed

lemma ps_line_upd [simp]: "ps_line (s\<lparr>pmem := mem\<rparr>) t = ps_line s t"
  by (simp add: ps_line_def ps_name_def)

lemma ps_loop_appends:
  assumes "user_access p i s" "valid_user_ptr out sz" "n \<le> unat sz - 1"
  shows "ps_appends p i out sz (concat (map (ps_line s) ts)) s n (ps_loop out sz ts (of_nat n) s)"
  using assms
proof (induction ts arbitrary: n s)
  case Nil
  then show ?case by (simp add: ps_nothing)
next
  case (Cons t ts)
  have ih: "ps_appends p i out sz (concat (map (ps_line s) ts)) (s\<lparr>pmem := mem\<rparr>) n' (ps_loop out sz ts (of_nat n') (s\<lparr>pmem := mem\<rparr>))"
    if "n' \<le> unat sz - 1" for mem n'
    using Cons.IH [of "s\<lparr>pmem := mem\<rparr>" n'] Cons.prems that by (simp cong: map_cong)
  have "ps_appends p i out sz (ps_line s t @ concat (map (ps_line s) ts)) s n
      (ps_then (ps_thread out sz t (of_nat n) s) (ps_loop out sz ts))"
    by (rule ps_then_appends ps_thread_appends ih Cons.prems | assumption)+
  then show ?case by simp
qed

definition ps_listing :: "kstate \<Rightarrow> string" where
  "ps_listing s = concat (map (ps_line s) [0..<6])"

text \<open>The system call writes the listing, cut after \<open>size - 1\<close> bytes.\<close>

lemma sys_ps_spec:
  assumes "user_access p i s" "valid_user_ptr out sz"
  defines "m \<equiv> min (length (ps_listing s)) (unat sz - 1)"
  shows "\<exists>mem. sys_ps out sz u0 u1 s = (Ret (of_nat m), s\<lparr>pmem := mem\<rparr>) \<and>
    user_bytes p i (s\<lparr>pmem := mem\<rparr>) out m = take m (ps_listing s) \<and>
    (\<forall>pa. pa \<notin> (\<lambda>k. upa p i (out + of_nat k)) ` {0..<m} \<longrightarrow> mem pa = pmem s pa)"
  using ps_loop_appends [OF assms(1,2), of 0 "[0..<6]"] assms(2)
  unfolding ps_appends_def ps_listing_def [symmetric] m_def sys_ps_def
  by (auto simp: Let_def kernel_const user_bytes_def)

section \<open>exit and kill\<close>

lemma set_dead_inv [kernel_inv]:
  assumes l: "kernel_layout p s" and inv: "core_inv s" and t: "t < 6"
  shows "core_inv (set_state t TASK_DEAD s)"
proof -
  obtain c where cur: "current s = Some c" using inv by (auto simp: core_inv_def)
  note D = core_invD [OF inv cur]
  have tl: "t < length (threads s)" using layout_lengths [OF l] t by simp
  have "cont_ok TASK_DEAD k" if "cont_ok st k" for st k using that by (cases k) auto
  then have "threads_inv (set_state t TASK_DEAD s) c"
    using D(2) by (auto simp: threads_inv_def nth_set_state [OF tl])
  then show ?thesis
    using D cur by (intro core_invI [where c = c]) (auto simp: nth_set_state [OF tl])
qed

lemma retire_two: "retire_threads [Some t, Some u] s = set_state u TASK_DEAD (set_state t TASK_DEAD s)"
  by (simp add: retire_threads_def)

lemma kputs_inv [kernel_inv]:
  "kernel_layout p (kputs cs s) = kernel_layout p s" "core_inv (kputs cs s) = core_inv s"
  by (simp_all add: kputs_def)

lemmas printf_eval = emit_def is_padded_s_def conversion_def arg_int_def uart_puts_def

lemma exit_message:
  "uart_printf ''[EXIT] %s t%u\<newline>'' [ArgStr (Some nm), ArgInt v] =
     Some (''[EXIT] '' @ nm @ '' t'' @ uart_print_dec v @ ''\<newline>'')"
  by (simp add: printf_eval)

lemma kill_message:
  "uart_printf ''[KILL] %s (%u threads) killed by %s t%u via sys_kill\<newline>''
      [ArgStr (Some nm), ArgInt a, ArgStr (Some by), ArgInt v] =
     Some (''[KILL] '' @ nm @ '' ('' @ uart_print_dec a @ '' threads) killed by '' @ by @ '' t'' @
       uart_print_dec v @ '' via sys_kill\<newline>'')"
  by (simp add: printf_eval)

text \<open>The process of a thread, and the threads of a process, under the layout.\<close>

lemma layout_proc_of:
  assumes "kernel_layout p s" "c < 6"
  shows "proc_of s c = processes s ! (c div 2)" "process_at p (tables s) (c div 2) (proc_of s c)"
proof -
  show "proc_of s c = processes s ! (c div 2)" using layout_thread [OF assms] by simp
  then show "process_at p (tables s) (c div 2) (proc_of s c)"
    using layout_process [OF assms(1), of "c div 2"] assms(2) by simp
qed

lemma layout_name: "kernel_layout p s \<Longrightarrow> i < 3 \<Longrightarrow> \<exists>nm. p_name (processes s ! i) = Some nm"
  using layout_process by (auto simp: process_at_def)

lemma layout_name_of: "kernel_layout p s \<Longrightarrow> c < 6 \<Longrightarrow> \<exists>nm. p_name (proc_of s c) = Some nm"
  using layout_proc_of(2) by (fastforce simp: process_at_def)

lemma layout_threads_of:
  "kernel_layout p s \<Longrightarrow> i < 3 \<Longrightarrow> p_threads (processes s ! i) = [Some (2 * i), Some (2 * i + 1)]"
  using layout_process by (auto simp: process_at_def)

lemma set_state_kputs: "set_state t st (kputs cs s) = kputs cs (set_state t st s)"
  by (simp add: kputs_def set_state_def upd_thread_def)

lemma sys_exit_spec:
  assumes "kernel_layout p s" "current s = Some c" "c < 6"
  shows "\<exists>msg. sys_exit a0 a1 a2 a3 s = (Ret 0, scheduler_request_resched (kputs msg (set_state c TASK_DEAD s)))"
proof -
  obtain nm where "p_name (proc_of s c) = Some nm"
    using layout_name_of [OF assms(1,3)] by auto
  then show ?thesis
    using assms(2) kprintf_defined [OF exit_message] by (auto simp: sys_exit_def set_state_kputs)
qed

lemma sys_kill_spec:
  assumes l: "kernel_layout p s" and cur: "current s = Some c" "c < 6" and k: "kpid < 3"
  shows "let i = unat kpid; dead = (\<lambda>t. state_of s t = TASK_DEAD)
    in if dead (2 * i) \<and> dead (2 * i + 1) then sys_kill kpid u0 u1 u2 s = (Ret 0, s)
       else \<exists>msg. sys_kill kpid u0 u1 u2 s =
         (Ret 0, scheduler_request_resched (kputs msg
            (set_state (2 * i + 1) TASK_DEAD (set_state (2 * i) TASK_DEAD s))))"
proof -
  have i: "unat kpid < 3" using k by (simp add: word_less_nat_alt)
  obtain nm where nm: "p_name (processes s ! unat kpid) = Some nm" using layout_name [OF l i] by auto
  obtain nm' where nm': "p_name (proc_of s c) = Some nm'"
    using layout_name_of [OF l cur(2)] by auto
  show ?thesis
    using k cur nm nm' layout_threads_of [OF l i]
    by (auto simp: sys_kill_def Let_def kernel_const alive_threads_def retire_two set_state_kputs
        kprintf_defined [OF kill_message] not_le [symmetric])
qed

section \<open>Every system call\<close>

text \<open>What a stretch of kernel code on behalf of thread \<open>c\<close> keeps: the invariant, the current thread,
  the contexts of all other threads (and that the dead ones stay dead), and all memory
  outside the slot of the current process.\<close>

definition others_kept :: "tptr \<Rightarrow> kstate \<Rightarrow> kstate \<Rightarrow> bool" where
  "others_kept c s s' \<longleftrightarrow>
     (\<forall>t < 6. t \<noteq> c \<longrightarrow>
        resume_at (threads s' ! t) = resume_at (threads s ! t) \<and> ctx (threads s' ! t) = ctx (threads s ! t) \<and>
        (state_of s t = TASK_DEAD \<longrightarrow> state_of s' t = TASK_DEAD))"

definition keeps :: "platform \<Rightarrow> tptr \<Rightarrow> kstate \<Rightarrow> kstate \<Rightarrow> bool" where
  "keeps p c s s' \<longleftrightarrow>
     kernel_layout p s' \<and> core_inv s' \<and> current s' = Some c \<and> others_kept c s s' \<and>
     (\<forall>pa. pa \<notin> slot_range p (c div 2) \<longrightarrow> pmem s' pa = pmem s pa)"

text \<open>A system call moreover never leaves its caller blocked; blocking is up to \<open>schedule\<close>.\<close>

definition sys_keeps :: "platform \<Rightarrow> tptr \<Rightarrow> kstate \<Rightarrow> kstate \<Rightarrow> bool" where
  "sys_keeps p c s s' \<longleftrightarrow>
     keeps p c s s' \<and> (state_of s c \<noteq> TASK_BLOCKED \<longrightarrow> state_of s' c \<noteq> TASK_BLOCKED)"

lemmas sys_keeps_defs = sys_keeps_def keeps_def others_kept_def

lemma sys_keeps_refl: "kernel_layout p s \<Longrightarrow> core_inv s \<Longrightarrow> current s = Some c \<Longrightarrow> sys_keeps p c s s"
  by (simp add: sys_keeps_defs)

lemma sys_keeps_resched: "sys_keeps p c s (scheduler_request_resched s') = sys_keeps p c s s'"
  by (simp add: sys_keeps_defs scheduler_request_resched_def)

lemma sys_keeps_kputs: "sys_keeps p c s (kputs cs s') = sys_keeps p c s s'"
  by (simp add: sys_keeps_defs kputs_inv)

lemma sys_keeps_dead:
  assumes "sys_keeps p c s s'" "t < 6"
  shows "sys_keeps p c s (set_state t TASK_DEAD s')"
proof -
  have "t < length (threads s')" using assms layout_lengths by (auto simp: sys_keeps_defs)
  then show ?thesis
    using assms by (auto simp: sys_keeps_defs set_dead_inv layout_set_state nth_set_state)
qed

lemma sys_keeps_mem:
  assumes "kernel_layout p s" "core_inv s" "current s = Some c" "valid_user_ptr a len" "m \<le> unat len"
    and "\<forall>pa. pa \<notin> (\<lambda>k. upa p (c div 2) (a + of_nat k)) ` {0..<m} \<longrightarrow> mem pa = pmem s pa"
  shows "sys_keeps p c s (s\<lparr>pmem := mem\<rparr>)"
proof -
  have "(\<lambda>k. upa p (c div 2) (a + of_nat k)) ` {0..<m} \<subseteq> slot_range p (c div 2)"
    using upa_in_slot [OF user_access_current [OF assms(1-3)] assms(4)] assms(5) by auto
  then have "\<forall>pa. pa \<notin> slot_range p (c div 2) \<longrightarrow> mem pa = pmem s pa"
    using assms(6) by blast
  then show ?thesis using assms(1-3) by (simp add: sys_keeps_defs)
qed

lemma sys_keeps_rx: "sys_keeps p c s s' \<Longrightarrow> rx_invar r \<Longrightarrow> sys_keeps p c s (s'\<lparr>rx := r\<rparr>)"
  by (simp add: sys_keeps_defs core_inv_rx)

text \<open>The result of a handler under the invariant: no abort, and waiting only for input.\<close>

definition sys_ok :: "platform \<Rightarrow> tptr \<Rightarrow> kstate \<Rightarrow> u32 \<Rightarrow> u32 \<Rightarrow> sys_result \<times> kstate \<Rightarrow> bool" where
  "sys_ok p c s a1 a2 rs \<longleftrightarrow>
     sys_keeps p c s (snd rs) \<and> fst rs \<noteq> Abort \<and>
     (fst rs = Wait \<longrightarrow> snd rs = s \<and> uart_rx_empty (rx s) \<and> a2 \<noteq> 0 \<and> valid_user_ptr a1 a2)"

lemma sys_read_ok:
  assumes "kernel_layout p s" "core_inv s" "current s = Some c"
  shows "sys_ok p c s buf len (sys_read fd buf len u s)"
proof (cases "len \<noteq> 0 \<and> valid_user_ptr buf len")
  case False
  then show ?thesis using sys_keeps_refl [OF assms] by (auto simp: sys_read_def sys_ok_def)
next
  case True
  note ua = user_access_current [OF assms] and ri = core_invD(5) [OF assms(2,3)]
  show ?thesis
  proof (cases "rx_contents (rx s) = []")
    case True
    with \<open>len \<noteq> 0 \<and> valid_user_ptr buf len\<close> show ?thesis
      using sys_keeps_refl [OF assms] by (simp add: sys_ok_def sys_read_waits rx_empty_iff)
  next
    case False
    let ?m = "min (unat len) (length (rx_contents (rx s)))"
    from sys_read_spec [OF ua ri _ _ False, of buf len fd u] True obtain r mem where
      r: "sys_read fd buf len u s = (Ret (of_nat ?m), s\<lparr>rx := r, pmem := mem\<rparr>)" "rx_invar r"
        "\<forall>pa. pa \<notin> (\<lambda>k. upa p (c div 2) (buf + of_nat k)) ` {0..<?m} \<longrightarrow> mem pa = pmem s pa"
      by auto
    have "sys_keeps p c s ((s\<lparr>pmem := mem\<rparr>)\<lparr>rx := r\<rparr>)"
      using True r(2,3) by (intro sys_keeps_rx sys_keeps_mem [OF assms]) auto
    moreover have "(s\<lparr>pmem := mem\<rparr>)\<lparr>rx := r\<rparr> = s\<lparr>rx := r, pmem := mem\<rparr>" by simp
    ultimately show ?thesis using r(1) by (simp add: sys_ok_def)
  qed
qed

lemma sys_ps_ok:
  assumes "kernel_layout p s" "core_inv s" "current s = Some c"
  shows "sys_ok p c s a1 a2 (sys_ps buf sz u0 u1 s)"
proof (cases "valid_user_ptr buf sz")
  case False
  then show ?thesis using sys_keeps_refl [OF assms] by (simp add: sys_ps_def sys_ok_def)
next
  case True
  obtain mem where m: "sys_ps buf sz u0 u1 s = (Ret (of_nat (min (length (ps_listing s)) (unat sz - 1))), s\<lparr>pmem := mem\<rparr>)"
      "\<forall>pa. pa \<notin> (\<lambda>k. upa p (c div 2) (buf + of_nat k)) ` {0..<min (length (ps_listing s)) (unat sz - 1)} \<longrightarrow>
         mem pa = pmem s pa"
    using sys_ps_spec [OF user_access_current [OF assms] True] by blast
  then show ?thesis
    using sys_keeps_mem [OF assms True _ m(2)] by (simp add: sys_ok_def)
qed

lemma sys_write_ok:
  assumes "kernel_layout p s" "core_inv s" "current s = Some c"
  shows "sys_ok p c s a1 a2 (sys_write fd buf len u s)"
proof (cases "valid_user_ptr buf len")
  case False
  then show ?thesis using sys_keeps_refl [OF assms] by (simp add: sys_write_def sys_ok_def)
next
  case True
  then show ?thesis
    using sys_keeps_refl [OF assms]
    by (simp add: sys_write_spec [OF user_access_current [OF assms]] sys_ok_def sys_keeps_kputs)
qed

lemma sys_exit_ok:
  assumes "kernel_layout p s" "core_inv s" "current s = Some c"
  shows "sys_ok p c s a1 a2 (sys_exit b0 b1 b2 b3 s)"
proof -
  have c: "c < 6" using core_invD(1) [OF assms(2,3)] .
  obtain msg where "sys_exit b0 b1 b2 b3 s = (Ret 0, scheduler_request_resched (kputs msg (set_state c TASK_DEAD s)))"
    using sys_exit_spec [OF assms(1,3) c] by blast
  then show ?thesis
    using sys_keeps_refl [OF assms] c
    by (simp add: sys_ok_def sys_keeps_resched sys_keeps_kputs sys_keeps_dead)
qed

lemma sys_kill_ok:
  assumes "kernel_layout p s" "core_inv s" "current s = Some c"
  shows "sys_ok p c s a1 a2 (sys_kill kpid u0 u1 u2 s)"
proof (cases "kpid < 3")
  case False
  then show ?thesis
    using sys_keeps_refl [OF assms] by (simp add: sys_ok_def sys_kill_def kernel_const not_less)
next
  case True
  then have i: "unat kpid < 3" by (simp add: word_less_nat_alt)
  have c: "c < 6" using core_invD(1) [OF assms(2,3)] .
  from sys_kill_spec [OF assms(1,3) c True, of u0 u1 u2] consider
      "sys_kill kpid u0 u1 u2 s = (Ret 0, s)"
    | msg where "sys_kill kpid u0 u1 u2 s = (Ret 0, scheduler_request_resched (kputs msg
         (set_state (2 * unat kpid + 1) TASK_DEAD (set_state (2 * unat kpid) TASK_DEAD s))))"
    by (auto simp: Let_def split: if_splits)
  then show ?thesis
    using sys_keeps_refl [OF assms] i
    by cases (simp_all add: sys_ok_def sys_keeps_resched sys_keeps_kputs sys_keeps_dead)
qed

lemma sys_simple_ok:
  assumes "kernel_layout p s" "core_inv s" "current s = Some c"
  shows "sys_ok p c s a1 a2 (sys_getpid b0 b1 b2 b3 s)" "sys_ok p c s a1 a2 (sys_yield b0 b1 b2 b3 s)"
    "sys_ok p c s a1 a2 (sys_ticks b0 b1 b2 b3 s)"
  using sys_keeps_refl [OF assms]
  by (simp_all add: sys_ok_def sys_getpid_def sys_yield_def sys_ticks_def sys_keeps_resched)

lemmas sys_handlers_ok = sys_read_ok sys_ps_ok sys_write_ok sys_exit_ok sys_kill_ok sys_simple_ok

subsection \<open>Dispatch\<close>

lemma syscall_table_eq:
  "syscall_table = map Some [sys_write, sys_getpid, sys_yield, sys_exit, sys_read, sys_ps, sys_kill, sys_ticks]"
proof -
  have "unat NR_SYSCALLS = 8" by (simp add: NR_SYSCALLS_def)
  then show ?thesis
    by (simp add: syscall_table_def SYS_WRITE_def SYS_GETPID_def SYS_YIELD_def SYS_EXIT_def
        SYS_READ_def SYS_PS_def SYS_KILL_def SYS_TICKS_def numeral_eq_Suc)
qed

lemma less_8_cases:
  assumes "(n::nat) < 8"
  shows "n = 0 \<or> n = 1 \<or> n = 2 \<or> n = 3 \<or> n = 4 \<or> n = 5 \<or> n = 6 \<or> n = 7"
  using assms by auto

text \<open>The handler behind every number, with the argument registers.\<close>

definition handler_result :: "exception_context \<Rightarrow> kstate \<Rightarrow> sys_result \<times> kstate" where
  "handler_result x s = the (syscall_table ! unat (ec_r x ! 7)) (ec_r x ! 0) (ec_r x ! 1) (ec_r x ! 2) (ec_r x ! 3) s"

lemma handler_result_ok:
  assumes "kernel_layout p s" "core_inv s" "current s = Some c" "ec_r x ! 7 < 8"
  shows "sys_ok p c s (ec_r x ! 1) (ec_r x ! 2) (handler_result x s)"
proof -
  have "unat (ec_r x ! 7) < 8" using assms(4) by (simp add: word_less_nat_alt)
  from less_8_cases [OF this] show ?thesis
    unfolding handler_result_def syscall_table_eq
    by (elim disjE) (simp_all add: sys_handlers_ok [OF assms(1-3)])
qed

lemma dispatch_handler:
  "syscall_dispatch x s =
     (if ec_r x ! 7 < 8
      then (case handler_result x s of
              (Ret v, s') \<Rightarrow> (Done (set_r0 v x), s') | (Wait, s') \<Rightarrow> (Waiting, s') | (Abort, s') \<Rightarrow> (Aborted, s'))
      else (Done (set_r0 E_BADCALL x), s))"
proof (cases "ec_r x ! 7 < 8")
  case True
  then have n: "unat (ec_r x ! 7) < 8" by (simp add: word_less_nat_alt)
  have "syscall_table ! unat (ec_r x ! 7) = Some (the (syscall_table ! unat (ec_r x ! 7)))"
    using less_8_cases [OF n] unfolding syscall_table_eq by (elim disjE) simp_all
  then show ?thesis
    using True by (auto simp: syscall_dispatch_def handler_result_def Let_def NR_SYSCALLS_def
        split: option.split sys_result.split prod.split)
next
  case False
  then have "ec_r x ! 7 \<ge> 8" by simp
  with False show ?thesis by (simp add: syscall_dispatch_def Let_def NR_SYSCALLS_def)
qed

lemma user_ctx_set_r0 [simp]: "user_ctx (set_r0 v x) = user_ctx x"
  by (simp add: user_ctx_def set_r0_def)

lemma dispatch_ok:
  assumes "kernel_layout p s" "core_inv s" "current s = Some c" "user_ctx x"
    and "syscall_dispatch x s = (r, s')"
  shows "sys_keeps p c s s'" "r \<noteq> Aborted" "r = Done x' \<Longrightarrow> user_ctx x'"
    "r = Waiting \<Longrightarrow> s' = s \<and> uart_rx_empty (rx s) \<and> read_ctx x"
proof -
  have "sys_keeps p c s s' \<and> r \<noteq> Aborted \<and> (r = Done x' \<longrightarrow> user_ctx x') \<and>
    (r = Waiting \<longrightarrow> s' = s \<and> uart_rx_empty (rx s) \<and> read_ctx x)"
  proof (cases "ec_r x ! 7 < 8")
    case True
    obtain v t where h: "handler_result x s = (v, t)" by (cases "handler_result x s")
    then show ?thesis
      using assms(4,5) True handler_result_ok [OF assms(1-3) True]
      by (cases v) (auto simp: dispatch_handler sys_ok_def read_ctx_def)
  next
    case False
    then show ?thesis using assms(4,5) sys_keeps_refl [OF assms(1-3)] by (auto simp: dispatch_handler)
  qed
  then show "sys_keeps p c s s'" "r \<noteq> Aborted" "r = Done x' \<Longrightarrow> user_ctx x'"
    "r = Waiting \<Longrightarrow> s' = s \<and> uart_rx_empty (rx s) \<and> read_ctx x" by auto
qed

end
