(* ===== verification/Exceptions.thy ===== *)
theory Exceptions
  imports Syscall_Correct
begin

text \<open>
  The exception handlers (\<open>kernel/arch/arm/exception/exception_handlers.c\<close>), the interrupt
  and timer subsystems they call (\<open>intc_core.c\<close>, \<open>timer_core.c\<close>), and the running system as a step
  relation: the current thread executes user code, traps into the kernel with \<open>svc\<close>, is
  interrupted, or faults; a thread that was switched out inside the kernel goes on from there.

  The chip drivers are seen here by what they deliver: the number of the active line, and the
  bytes that the receive FIFO holds when \<open>rx_irq\<close> drains it.
\<close>

section \<open>Interrupt and timer subsystems\<close>

definition MAX_IRQS :: u32 where [kernel_const]: "MAX_IRQS = 128"

definition timer_tick :: "kstate \<Rightarrow> kstate" where
  "timer_tick s =
     (let s1 = s\<lparr>tick_count := tick_count s + 1\<rparr>
      in case user_handler s1 of
           Some H_scheduler_tick \<Rightarrow> scheduler_tick s1
         | None \<Rightarrow> s1)"

text \<open>\<open>timer_irq\<close> acknowledges the chip and calls \<open>timer_tick\<close>.\<close>

definition timer_irq :: "kstate \<Rightarrow> kstate" where
  "timer_irq s = timer_tick s"

text \<open>The \<open>rx_irq\<close> of both UART chips: every byte of the FIFO into the ring, then one wake-up.\<close>

definition uart_rx_irq :: "char list \<Rightarrow> kstate \<Rightarrow> kstate" where
  "uart_rx_irq bs s = scheduler_wake_reader (s\<lparr>rx := fold uart_rx_push bs (rx s)\<rparr>)"

definition run_handler :: "irq_handler \<Rightarrow> char list \<Rightarrow> kstate \<Rightarrow> kstate" where
  "run_handler h bs s = (case h of H_timer_irq \<Rightarrow> timer_irq s | H_uart_rx_irq \<Rightarrow> uart_rx_irq bs s)"

definition irq_register :: "u32 \<Rightarrow> irq_handler \<Rightarrow> kstate \<Rightarrow> kstate" where
  "irq_register irq fn s =
     (if irq < MAX_IRQS then s\<lparr>irq_table := (irq_table s)[unat irq := Some fn]\<rparr> else s)"

definition irq_dispatch :: "u32 \<Rightarrow> char list \<Rightarrow> kstate \<Rightarrow> kstate" where
  "irq_dispatch n bs s =
     (let s1 = (if n < MAX_IRQS
                then (case irq_table s ! unat n of Some h \<Rightarrow> run_handler h bs s | None \<Rightarrow> s)
                else s)
      in s1\<lparr>eois := eois s1 @ [n]\<rparr>)"

section \<open>Exception handlers\<close>

definition mode_name :: "u32 \<Rightarrow> string" where
  "mode_name cpsr =
     (let m = cpsr AND 0x1F
      in if m = 0x10 then ''USR'' else if m = 0x11 then ''FIQ'' else if m = 0x12 then ''IRQ''
         else if m = 0x13 then ''SVC'' else if m = 0x17 then ''ABT'' else if m = 0x1B then ''UND''
         else if m = 0x1F then ''SYS'' else ''???'')"

definition dump_context :: "exception_context \<Rightarrow> kstate \<Rightarrow> kstate" where
  "dump_context c s =
     kprintf ''  r12=%08x\<newline>'' [ArgInt (ec_r c ! 12)]
    (kprintf ''  r8 =%08x  r9 =%08x  r10=%08x  r11=%08x\<newline>'' (map (\<lambda>i. ArgInt (ec_r c ! i)) [8, 9, 10, 11])
    (kprintf ''  r4 =%08x  r5 =%08x  r6 =%08x  r7 =%08x\<newline>'' (map (\<lambda>i. ArgInt (ec_r c ! i)) [4, 5, 6, 7])
    (kprintf ''  r0 =%08x  r1 =%08x  r2 =%08x  r3 =%08x\<newline>'' (map (\<lambda>i. ArgInt (ec_r c ! i)) [0, 1, 2, 3])
    (kprintf ''  PC   = 0x%08x  (faulting/return address)\<newline>'' [ArgInt (ec_lr c)]
    (kprintf ''  SPSR = 0x%08x  (mode=%s, IRQ=%s, FIQ=%s)\<newline>''
       [ArgInt (ec_spsr c), ArgStr (Some (mode_name (ec_spsr c))),
        ArgStr (Some (if ec_spsr c AND push_bit 7 1 \<noteq> 0 then ''masked'' else ''on'')),
        ArgStr (Some (if ec_spsr c AND push_bit 6 1 \<noteq> 0 then ''masked'' else ''on''))] s)))))"

definition halt_forever :: "kstate \<Rightarrow> kstate" where
  "halt_forever s = (kprintf ''[PANIC] system halted.\<newline>'' [] s)\<lparr>cpu := Halted\<rparr>"

definition fault_from_user :: "exception_context \<Rightarrow> bool" where
  "fault_from_user c \<longleftrightarrow> ec_spsr c AND 0x1F = 0x10"

text \<open>\<open>user_fault_kill\<close> up to its call of \<open>schedule\<close>, and what follows when \<open>schedule\<close> comes back.\<close>

definition user_fault_kill :: "string \<Rightarrow> kstate \<Rightarrow> kstate" where
  "user_fault_kill kind s =
     (let s1 = (case current s of
                  Some c \<Rightarrow>
                    retire_threads (p_threads (proc_of s c))
                      (kprintf ''[KILL] %s killed by %s (faulting t%u, whole process retired)\<newline>''
                         [ArgStr (p_name (proc_of s c)), ArgStr (Some kind), ArgInt (t_index (threads s ! c))] s)
                | None \<Rightarrow> s)
      in schedule AfterFault (scheduler_request_resched s1))"

definition user_fault_panic :: "kstate \<Rightarrow> kstate" where
  "user_fault_panic s =
     halt_forever (kprintf ''[PANIC] no runnable thread left after user fault\<newline>'' [] s)"

definition handle_data_abort :: "u32 \<Rightarrow> u32 \<Rightarrow> exception_context \<Rightarrow> kstate \<Rightarrow> kstate" where
  "handle_data_abort dfsr dfar c s =
     (if fault_from_user c then
        user_fault_kill ''data abort''
          (kprintf ''[FAULT] data abort  DFAR=0x%08x DFSR=0x%08x PC=0x%08x\<newline>''
             [ArgInt dfar, ArgInt dfsr, ArgInt (ec_lr c)] s)
      else
        halt_forever (dump_context c
          (kprintf ''  DFSR = 0x%08x  (fault status)\<newline>'' [ArgInt dfsr]
          (kprintf ''  DFAR = 0x%08x  (faulting address)\<newline>'' [ArgInt dfar]
          (kprintf ''\<newline>[PANIC] *** DATA ABORT (kernel) ***\<newline>'' [] s)))))"

definition handle_prefetch_abort :: "u32 \<Rightarrow> u32 \<Rightarrow> exception_context \<Rightarrow> kstate \<Rightarrow> kstate" where
  "handle_prefetch_abort ifsr ifar c s =
     (if fault_from_user c then
        user_fault_kill ''prefetch abort''
          (kprintf ''[FAULT] prefetch abort  IFAR=0x%08x IFSR=0x%08x\<newline>'' [ArgInt ifar, ArgInt ifsr] s)
      else
        halt_forever (dump_context c
          (kprintf ''  IFSR = 0x%08x  (fault status)\<newline>'' [ArgInt ifsr]
          (kprintf ''  IFAR = 0x%08x  (faulting address)\<newline>'' [ArgInt ifar]
          (kprintf ''\<newline>[PANIC] *** PREFETCH ABORT (kernel) ***\<newline>'' [] s)))))"

definition handle_undefined :: "exception_context \<Rightarrow> kstate \<Rightarrow> kstate" where
  "handle_undefined c s =
     (if fault_from_user c then
        user_fault_kill ''undefined instruction''
          (kprintf ''[FAULT] undefined instr at PC=0x%08x\<newline>'' [ArgInt (ec_lr c)] s)
      else
        halt_forever (dump_context c
          (kprintf ''\<newline>[PANIC] *** UNDEFINED INSTRUCTION (kernel) ***\<newline>'' [] s)))"

text \<open>A data abort of the kernel itself ends in \<open>halt_forever\<close>; the register dump it prints before
  depends on the compiled code and is left out.\<close>

definition kernel_abort :: "kstate \<Rightarrow> kstate" where
  "kernel_abort s = halt_forever (kprintf ''\<newline>[PANIC] *** DATA ABORT (kernel) ***\<newline>'' [] s)"

definition handle_svc :: "exception_context \<Rightarrow> kstate \<Rightarrow> kstate" where
  "handle_svc c s =
     (case syscall_dispatch c s of
        (Done c', s') \<Rightarrow> schedule (ToUser c') s'
      | (Waiting, s') \<Rightarrow> scheduler_block_on_input (InSysRead c) s'
      | (Aborted, s') \<Rightarrow> kernel_abort s')"

text \<open>The rest of \<open>handle_svc\<close> for a thread that \<open>schedule\<close> has switched back in inside
  \<open>sys_read\<close>: the read loop goes on with \<open>n = 0\<close>.\<close>

definition resume_read :: "exception_context \<Rightarrow> kstate \<Rightarrow> kstate" where
  "resume_read c s =
     (case read_loop (unat (ec_r c ! 2)) (ec_r c ! 1) 0 s of
        (Ret v, s') \<Rightarrow> schedule (ToUser (set_r0 v c)) s'
      | (Wait, s') \<Rightarrow> scheduler_block_on_input (InSysRead c) s'
      | (Abort, s') \<Rightarrow> kernel_abort s')"

definition handle_irq :: "u32 \<Rightarrow> char list \<Rightarrow> exception_context \<Rightarrow> kstate \<Rightarrow> kstate" where
  "handle_irq n bs c s = schedule (ToUser c) (irq_dispatch n bs s)"

section \<open>The running system\<close>

text \<open>User code stores through the translation of its own table, at user privilege.\<close>

primrec user_stores :: "(u32 \<times> char) list \<Rightarrow> kstate \<Rightarrow> kstate option" where
  "user_stores [] s = Some s"
| "user_stores (w # ws) s =
     (case translate (active_table s) Usr True (fst w) of
        None \<Rightarrow> None
      | Some pa \<Rightarrow> user_stores ws (s\<lparr>pmem := (pmem s)(pa := snd w)\<rparr>))"

datatype event =
    UserRun "(u32 \<times> char) list" exception_context u32 u32
  | Svc
  | Irq u32 "char list"
  | DataAbort u32 u32
  | PrefetchAbort u32 u32
  | UndefinedInstr
  | KernelResume

inductive kstep :: "kstate \<Rightarrow> event \<Rightarrow> kstate \<Rightarrow> bool" where
  user: "cpu s = ToUser c \<Longrightarrow> user_ctx c' \<Longrightarrow> user_stores ws s = Some s' \<Longrightarrow>
    kstep s (UserRun ws c' sp lr) (s'\<lparr>cpu := ToUser c', sp_usr := sp, lr_usr := lr\<rparr>)"
| svc: "cpu s = ToUser c \<Longrightarrow> kstep s Svc (handle_svc c s)"
| irq: "cpu s = ToUser c \<Longrightarrow> kstep s (Irq n bs) (handle_irq n bs c s)"
| data_abort: "cpu s = ToUser c \<Longrightarrow> kstep s (DataAbort fs fa) (handle_data_abort fs fa c s)"
| prefetch_abort: "cpu s = ToUser c \<Longrightarrow> kstep s (PrefetchAbort fs fa) (handle_prefetch_abort fs fa c s)"
| undefined_instr: "cpu s = ToUser c \<Longrightarrow> kstep s UndefinedInstr (handle_undefined c s)"
| resume_read: "cpu s = InSysRead c \<Longrightarrow> kstep s KernelResume (resume_read c s)"
| resume_fault: "cpu s = AfterFault \<Longrightarrow> kstep s KernelResume (user_fault_panic s)"

inductive ksteps :: "kstate \<Rightarrow> event list \<Rightarrow> kstate \<Rightarrow> bool" where
  stop: "ksteps s [] s"
| more: "kstep s e s' \<Longrightarrow> ksteps s' es s'' \<Longrightarrow> ksteps s (e # es) s''"

inductive_cases kstep_userE: "kstep s (UserRun ws c' sp lr) s'"
inductive_cases kstep_svcE: "kstep s Svc s'"
inductive_cases kstep_irqE: "kstep s (Irq n bs) s'"
inductive_cases kstep_resumeE: "kstep s KernelResume s'"
inductive_cases ksteps_ConsE: "ksteps s (e # es) s'"
inductive_simps ksteps_Nil [simp]: "ksteps s [] s'"
inductive_simps ksteps_Cons: "ksteps s (e # es) s'"

section \<open>The invariant holds along every run\<close>

lemma kinvI:
  "kernel_layout p s \<Longrightarrow> core_inv s \<Longrightarrow> current s = Some c \<Longrightarrow> fits_cpu s c (cpu s) \<Longrightarrow> kinv p s"
  by (simp add: kinv_def)

lemma handle_svc_inv [kernel_inv]:
  assumes k: "kinv p s" and x: "cpu s = ToUser x"
  shows "kinv p (handle_svc x s)"
proof -
  from k obtain c where c: "current s = Some c" "c < 6" "kernel_layout p s" "core_inv s" "fits_cpu s c (cpu s)"
    by (rule kinvD)
  have ux: "user_ctx x" and nb: "state_of s c \<noteq> TASK_BLOCKED"
    using c(5) x by (simp_all add: fits_cpu_def)
  obtain r s' where d: "syscall_dispatch x s = (r, s')" by (cases "syscall_dispatch x s")
  note ok = dispatch_ok [OF c(3,4,1) ux d]
  show ?thesis
  proof (cases r)
    case (Done x')
    then show ?thesis
      using ok(1,3) nb d by (auto simp: handle_svc_def sys_keeps_defs fits_cpu_def intro!: schedule_inv)
  next
    case Waiting
    then show ?thesis
      using ok(4) d c by (auto simp: handle_svc_def intro!: block_on_input_inv)
  next
    case Aborted
    with ok(2) show ?thesis by simp
  qed
qed

lemma read_ctx_sys_read:
  "read_ctx x \<Longrightarrow> read_loop (unat (ec_r x ! 2)) (ec_r x ! 1) 0 s = sys_read fd (ec_r x ! 1) (ec_r x ! 2) u s"
  by (simp add: sys_read_def read_ctx_def)

lemma resume_read_inv [kernel_inv]:
  assumes k: "kinv p s" and x: "cpu s = InSysRead x"
  shows "kinv p (resume_read x s)"
proof -
  from k obtain c where c: "current s = Some c" "c < 6" "kernel_layout p s" "core_inv s" "fits_cpu s c (cpu s)"
    by (rule kinvD)
  have rx: "read_ctx x" and bl: "state_of s c = TASK_BLOCKED \<Longrightarrow> uart_rx_empty (rx s)"
    using c(5) x by (simp_all add: fits_cpu_def)
  then have ux: "user_ctx x" and v: "valid_user_ptr (ec_r x ! 1) (ec_r x ! 2)" "ec_r x ! 2 \<noteq> 0"
    by (simp_all add: read_ctx_def)
  obtain r s' where d: "sys_read 0 (ec_r x ! 1) (ec_r x ! 2) 0 s = (r, s')" by (meson surj_pair)
  have ok: "sys_ok p c s (ec_r x ! 1) (ec_r x ! 2) (r, s')"
    using sys_read_ok [OF c(3,4,1), of "ec_r x ! 1" "ec_r x ! 2" 0 0] d by simp
  have eq: "resume_read x s = (case r of
      Ret v \<Rightarrow> schedule (ToUser (set_r0 v x)) s'
    | Wait \<Rightarrow> scheduler_block_on_input (InSysRead x) s'
    | Abort \<Rightarrow> kernel_abort s')"
    unfolding resume_read_def read_ctx_sys_read [OF rx, where fd = 0 and u = 0] d by (cases r) simp_all
  show ?thesis
  proof (cases r)
    case (Ret w)
    have "state_of s c \<noteq> TASK_BLOCKED"
      using bl d Ret sys_read_waits [OF v, of s 0 0] by auto
    then show ?thesis
      using ok Ret ux by (auto simp: eq sys_ok_def sys_keeps_defs fits_cpu_def intro!: schedule_inv)
  next
    case Wait
    then show ?thesis
      using ok rx c by (auto simp: eq sys_ok_def intro!: block_on_input_inv)
  next
    case Abort
    with ok show ?thesis by (simp add: sys_ok_def)
  qed
qed

lemma timer_irq_inv:
  assumes "kernel_layout p s" "core_inv s" "current s = Some c"
  shows "kernel_layout p (timer_irq s) \<and> core_inv (timer_irq s) \<and> current (timer_irq s) = Some c \<and>
    state_of (timer_irq s) c = state_of s c \<and> pmem (timer_irq s) = pmem s"
  using assms
  by (auto simp: timer_irq_def timer_tick_def scheduler_tick_def Let_def split: option.split timer_handler.split)

lemma uart_burst_inv: "rx_invar r \<Longrightarrow> rx_invar (fold uart_rx_push bs r)"
  using rxq.burst [of r bs] rx_contents_bound [of r] by simp

lemma wake_reader_pmem: "waitq_invar (waitq s) \<Longrightarrow> pmem (scheduler_wake_reader s) = pmem s"
  using wake_reader_spec [of s] by (auto split: list.splits)

lemma uart_rx_irq_inv:
  assumes "kernel_layout p s" "core_inv s" "current s = Some c" "state_of s c \<noteq> TASK_BLOCKED"
  shows "kernel_layout p (uart_rx_irq bs s) \<and> core_inv (uart_rx_irq bs s) \<and>
    current (uart_rx_irq bs s) = Some c \<and> state_of (uart_rx_irq bs s) c = state_of s c \<and>
    pmem (uart_rx_irq bs s) = pmem s"
proof -
  let ?s = "s\<lparr>rx := fold uart_rx_push bs (rx s)\<rparr>"
  have "core_inv ?s"
    using assms(2) core_invD(5) [OF assms(2,3)] by (intro core_inv_rx uart_burst_inv)
  then show ?thesis
    using wake_reader_inv [of p ?s c] wake_reader_pmem [of ?s] assms core_invD(4) [OF assms(2,3)]
    by (simp add: uart_rx_irq_def)
qed

lemma irq_dispatch_inv:
  assumes "kernel_layout p s" "core_inv s" "current s = Some c" "state_of s c \<noteq> TASK_BLOCKED"
  shows "kernel_layout p (irq_dispatch n bs s) \<and> core_inv (irq_dispatch n bs s) \<and>
    current (irq_dispatch n bs s) = Some c \<and> state_of (irq_dispatch n bs s) c = state_of s c \<and>
    pmem (irq_dispatch n bs s) = pmem s"
  using timer_irq_inv [OF assms(1-3)] uart_rx_irq_inv [OF assms] assms
  by (auto simp: irq_dispatch_def run_handler_def Let_def split: option.split irq_handler.split)

lemma handle_irq_inv [kernel_inv]:
  assumes k: "kinv p s" and x: "cpu s = ToUser x"
  shows "kinv p (handle_irq n bs x s)"
proof -
  from k obtain c where c: "current s = Some c" "kernel_layout p s" "core_inv s" "fits_cpu s c (cpu s)"
    by (rule kinvD)
  have "user_ctx x" "state_of s c \<noteq> TASK_BLOCKED" using c(4) x by (simp_all add: fits_cpu_def)
  then show ?thesis
    using irq_dispatch_inv [OF c(2,3,1)] by (auto simp: handle_irq_def fits_cpu_def intro!: schedule_inv)
qed

subsection \<open>Faults\<close>

lemma fault_messages:
  "uart_printf ''[FAULT] data abort  DFAR=0x%08x DFSR=0x%08x PC=0x%08x\<newline>'' [ArgInt a, ArgInt b, ArgInt c] \<noteq> None"
  "uart_printf ''[FAULT] prefetch abort  IFAR=0x%08x IFSR=0x%08x\<newline>'' [ArgInt a, ArgInt b] \<noteq> None"
  "uart_printf ''[FAULT] undefined instr at PC=0x%08x\<newline>'' [ArgInt a] \<noteq> None"
  "uart_printf ''[KILL] %s killed by %s (faulting t%u, whole process retired)\<newline>''
     [ArgStr (Some nm), ArgStr (Some kd), ArgInt a] \<noteq> None"
  "uart_printf ''[PANIC] no runnable thread left after user fault\<newline>'' [] \<noteq> None"
  "uart_printf ''[PANIC] system halted.\<newline>'' [] \<noteq> None"
  by (simp_all add: printf_eval)

lemma kprintf_some: "uart_printf f a \<noteq> None \<Longrightarrow> \<exists>out. kprintf f a s = kputs out s"
  by (auto simp: kprintf_def)

lemma user_fault_kill_inv:
  assumes "kernel_layout p s" "core_inv s" "current s = Some c"
  shows "kinv p (user_fault_kill kd s)"
proof -
  have c: "c < 6" using core_invD(1) [OF assms(2,3)] .
  obtain nm where nm: "p_name (proc_of s c) = Some nm" using layout_name_of [OF assms(1) c] by auto
  obtain out where out: "kprintf ''[KILL] %s killed by %s (faulting t%u, whole process retired)\<newline>''
      [ArgStr (Some nm), ArgStr (Some kd), ArgInt (t_index (threads s ! c))] s = kputs out s"
    using kprintf_some [OF fault_messages(4)] by blast
  let ?i = "c div 2"
  let ?s = "set_state (2 * ?i + 1) TASK_DEAD (set_state (2 * ?i) TASK_DEAD s)"
  have i: "2 * ?i < 6" "2 * ?i + 1 < 6" using c by presburger+
  have th: "p_threads (proc_of s c) = [Some (2 * ?i), Some (2 * ?i + 1)]"
    using layout_proc_of(2) [OF assms(1) c] by (simp add: process_at_def)
  have eq: "user_fault_kill kd s = schedule AfterFault (scheduler_request_resched (kputs out ?s))"
    using assms(3) nm out th
    by (simp add: user_fault_kill_def retire_two set_state_kputs del: kprintf_frame)
  have keep: "sys_keeps p c s ?s"
    using sys_keeps_refl [OF assms] i by (intro sys_keeps_dead) auto
  have "state_of ?s c = TASK_DEAD"
    using i c layout_lengths [OF assms(1)] by (auto simp: nth_set_state)
  then show ?thesis
    unfolding eq using keep
    by (auto simp: sys_keeps_defs scheduler_request_resched_def fits_cpu_def kputs_inv intro!: schedule_inv)
qed

lemma user_fault_kill_kputs:
  assumes "kernel_layout p s" "core_inv s" "current s = Some c" "uart_printf f a \<noteq> None"
  shows "kinv p (user_fault_kill kd (kprintf f a s))"
  using kprintf_some [OF assms(4), of s] user_fault_kill_inv [of p _ c kd] assms
  by (auto simp: kputs_inv)

lemma fault_handlers_inv [kernel_inv]:
  assumes k: "kinv p s" and x: "cpu s = ToUser x"
  shows "kinv p (handle_data_abort fs fa x s)" "kinv p (handle_prefetch_abort fs fa x s)"
    "kinv p (handle_undefined x s)"
proof -
  from k obtain c where c: "current s = Some c" "kernel_layout p s" "core_inv s" "fits_cpu s c (cpu s)"
    by (rule kinvD)
  have "fault_from_user x" using c(4) x by (simp add: fits_cpu_def user_ctx_def fault_from_user_def)
  then show "kinv p (handle_data_abort fs fa x s)" "kinv p (handle_prefetch_abort fs fa x s)"
    "kinv p (handle_undefined x s)"
    using user_fault_kill_kputs [OF c(2,3,1) fault_messages(1)]
      user_fault_kill_kputs [OF c(2,3,1) fault_messages(2)]
      user_fault_kill_kputs [OF c(2,3,1) fault_messages(3)]
    by (simp_all add: handle_data_abort_def handle_prefetch_abort_def handle_undefined_def)
qed

lemma halt_forever_inv:
  assumes "kinv p s"
  shows "kinv p (halt_forever s)"
  using assms kprintf_some [OF fault_messages(6), of s]
  by (auto simp: halt_forever_def kinv_def fits_cpu_def kputs_inv)

lemma user_fault_panic_inv [kernel_inv]:
  assumes "kinv p s"
  shows "kinv p (user_fault_panic s)"
proof -
  obtain out where "kprintf ''[PANIC] no runnable thread left after user fault\<newline>'' [] s = kputs out s"
    using kprintf_some [OF fault_messages(5)] by blast
  moreover have "kinv p (kputs out s)"
    using assms by (simp add: kinv_def kputs_inv) (simp add: kputs_def)
  ultimately show ?thesis by (simp add: user_fault_panic_def halt_forever_inv del: kprintf_frame)
qed

subsection \<open>User code\<close>

lemma user_stores_mem:
  assumes "user_stores ws s = Some s'" "user_access p i s"
  shows "\<exists>mem. s' = s\<lparr>pmem := mem\<rparr> \<and> (\<forall>pa. pa \<notin> slot_range p i \<longrightarrow> mem pa = pmem s pa)"
  using assms
proof (induction ws arbitrary: s)
  case Nil
  then show ?case by (intro exI [of _ "pmem s"]) simp
next
  case (Cons w ws)
  then obtain pa where pa: "translate (active_table s) Usr True (fst w) = Some pa"
    "user_stores ws (s\<lparr>pmem := (pmem s)(pa := snd w)\<rparr>) = Some s'"
    by (auto split: option.splits)
  have "pa \<in> slot_range p i"
    using pa(1) Cons.prems(2)
    by (auto simp: user_access_def proc_table_user split: if_splits intro: window_in_slot)
  then show ?case using Cons.IH [OF pa(2)] Cons.prems(2) by fastforce
qed

lemma user_step_inv:
  assumes k: "kinv p s" and x: "cpu s = ToUser x" and "user_ctx x'" "user_stores ws s = Some s'"
  shows "kinv p (s'\<lparr>cpu := ToUser x', sp_usr := sp, lr_usr := lr\<rparr>)"
proof -
  from k obtain c where c: "current s = Some c" "kernel_layout p s" "core_inv s" "fits_cpu s c (cpu s)"
    by (rule kinvD)
  obtain mem where "s' = s\<lparr>pmem := mem\<rparr>"
    using user_stores_mem [OF assms(4) user_access_current [OF c(2,3,1)]] by auto
  then show ?thesis
    using c x assms(3) by (intro kinvI [where c = c]) (simp_all add: fits_cpu_def)
qed

lemma kstep_inv [kernel_inv]: "kstep s e s' \<Longrightarrow> kinv p s \<Longrightarrow> kinv p s'"
  by (induction rule: kstep.induct) (auto intro: kernel_inv user_step_inv)

lemma ksteps_inv [kernel_inv]: "ksteps s es s' \<Longrightarrow> kinv p s \<Longrightarrow> kinv p s'"
  by (induction rule: ksteps.induct) (auto intro: kstep_inv)

end
