(* ===== verification/Process_Init.thy ===== *)
theory Process_Init
  imports Exceptions
begin

text \<open>
  Construction of the address spaces and of the threads (\<open>kernel/proc/process.c\<close>,
  \<open>kernel/proc/thread.c\<close>). The addresses the linker chooses and the program images the build
  embeds are values of the record \<open>link_map\<close> and a list of byte lists; what the code relies
  on is \<open>link_ok\<close> (the alignment and the separation of the table arrays that the linker script
  asks for, and that the kernel ends below the slots of the processes, which nothing checks) and \<open>images_ok\<close> (each image fits its slot, which the code does not check).

  The copy of an image goes through the kernel's high alias of RAM, so it is a sequence of stores
  through the active table, and it may fail (\<open>None\<close>, a data abort). Memory is one here; the caches
  and their maintenance (\<open>icache_sync\<close>), which make it so, are in \<open>Cache_Sync\<close>.
\<close>

section \<open>Model\<close>

record link_map =
  lk_boot_pgd :: u32
  lk_proc_pgd :: u32
  lk_thread_kstack :: u32
  lk_ret_from_first_entry :: u32
  lk_vectors_start :: u32
  lk_kmain :: u32
  lk_text :: "u32 \<times> u32"
  lk_data :: "u32 \<times> u32"
  lk_bss :: "u32 \<times> u32"
  lk_svc_stack_top :: u32

record user_image =
  img_name :: string
  img_bytes :: "char list"

definition user_images :: "char list list \<Rightarrow> user_image list" where
  "user_images imgs =
     [\<lparr>img_name = ''counter'', img_bytes = imgs ! 0\<rparr>,
      \<lparr>img_name = ''runaway'', img_bytes = imgs ! 1\<rparr>,
      \<lparr>img_name = ''shell'', img_bytes = imgs ! 2\<rparr>]"

subsection \<open>process.c\<close>

primrec store_bytes :: "u32 \<Rightarrow> char list \<Rightarrow> kstate \<Rightarrow> kstate option" where
  "store_bytes a [] s = Some s"
| "store_bytes a (c # cs) s = Option.bind (kstore a c s) (store_bytes (a + 1) cs)"

definition kmemcpy :: "u32 \<Rightarrow> char list \<Rightarrow> u32 \<Rightarrow> kstate \<Rightarrow> kstate option" where
  "kmemcpy dst src n s = store_bytes dst (take (unat n) src) s"

definition kmemset :: "u32 \<Rightarrow> char \<Rightarrow> u32 \<Rightarrow> kstate \<Rightarrow> kstate option" where
  "kmemset dst v n s = store_bytes dst (replicate (unat n) v) s"

definition zero_process :: process where
  "zero_process = \<lparr>pid = 0, p_name = None, p_pgd = 0, pgd_pa = 0, user_entry = 0, user_phys_base = 0,
     p_threads = replicate threads_per_proc None, img_size = 0\<rparr>"

definition make_process :: "board \<Rightarrow> link_map \<Rightarrow> user_image \<Rightarrow> nat \<Rightarrow> process" where
  "make_process b lk img i =
     zero_process\<lparr>
       pid := of_nat i,
       p_name := Some (img_name img),
       p_pgd := lk_proc_pgd lk + of_nat i * PGD_ALIGN,
       pgd_pa := (lk_proc_pgd lk + of_nat i * PGD_ALIGN) - PHYS_OFFSET b,
       user_entry := USER_VIRT_BASE,
       user_phys_base := USER_PHYS_BASE b + of_nat i * USER_PHYS_STRIDE,
       img_size := of_nat (length (img_bytes img))\<rparr>"

text \<open>The body of the loop of \<open>process_init_all\<close>.\<close>

definition process_init :: "board \<Rightarrow> link_map \<Rightarrow> user_image list \<Rightarrow> nat \<Rightarrow> kstate \<Rightarrow> kstate option" where
  "process_init b lk images i s =
     (let img = images ! i;
          p = make_process b lk img i;
          s1 = s\<lparr>processes := (processes s)[i := p]\<rparr>;
          user_va = user_phys_base p + PHYS_OFFSET b;
          boot = tables s (lk_boot_pgd lk - PHYS_OFFSET b)
      in Option.bind (kmemset user_va (CHR 0x00) USER_REGION_SIZE s1) (\<lambda>s2.
         Option.bind (kmemcpy user_va (img_bytes img) (img_size p) s2) (\<lambda>s3.
         Some (s3\<lparr>tables := (tables s3)
           (pgd_pa p := pgtable_build_for_proc b boot (user_phys_base p) (tables s3 (pgd_pa p)))\<rparr>))))"

primrec process_init_loop :: "board \<Rightarrow> link_map \<Rightarrow> user_image list \<Rightarrow> nat list \<Rightarrow> kstate \<Rightarrow> kstate option" where
  "process_init_loop b lk images [] s = Some s"
| "process_init_loop b lk images (i # is) s =
     Option.bind (process_init b lk images i s) (process_init_loop b lk images is)"

definition process_init_all :: "board \<Rightarrow> link_map \<Rightarrow> char list list \<Rightarrow> kstate \<Rightarrow> kstate option" where
  "process_init_all b lk imgs = process_init_loop b lk (user_images imgs) [0..<num_processes]"

subsection \<open>thread.c\<close>

definition INIT_STACK_WORDS :: u32 where [kernel_const]: "INIT_STACK_WORDS = 9 + 16"

text \<open>The 25 words at the top of the kernel stack, in the order of the assignments.\<close>

definition initial_frame :: "link_map \<Rightarrow> u32 \<Rightarrow> u32 \<Rightarrow> u32 list \<Rightarrow> u32 list" where
  "initial_frame lk entry arg frame =
     (let f1 = fold (\<lambda>i f. f[i := 0]) [0..<8] frame;
          f2 = f1[8 := lk_ret_from_first_entry lk];
          f3 = fold (\<lambda>i f. f[9 + i := 0]) [0..<13] f2
      in f3[9 := arg, 22 := 0, 23 := entry, 24 := 0x10])"

text \<open>What popping such a frame leads to: nine words for \<open>context_switch\<close>, then the registers,
  the program counter and the status register that \<open>ret_from_first_entry\<close> loads.\<close>

definition frame_cont :: "u32 list \<Rightarrow> kcont" where
  "frame_cont f = ToUser \<lparr>ec_spsr = f ! 24, ec_r = take 13 (drop 9 f), ec_lr = f ! 23\<rparr>"

definition thread_build_initial_frame :: "link_map \<Rightarrow> u32 \<Rightarrow> u32 \<Rightarrow> thread \<Rightarrow> thread" where
  "thread_build_initial_frame lk entry arg t =
     (let top = kstack_base t + kstack_size t;
          frame = initial_frame lk entry arg (replicate 25 0)
      in t\<lparr>ctx := (ctx t)\<lparr>ctx_sp_svc := top - INIT_STACK_WORDS * 4, ctx_lr_svc := 0, ctx_spsr := 0x10,
                          ctx_sp_usr := user_stack_top t, ctx_lr_usr := 0\<rparr>,
           resume_at := frame_cont frame\<rparr>)"

definition zero_thread :: thread where
  "zero_thread = \<lparr>ctx = \<lparr>ctx_r = replicate 13 0, ctx_sp_svc = 0, ctx_lr_svc = 0, ctx_spsr = 0,
       ctx_sp_usr = 0, ctx_lr_usr = 0\<rparr>,
     t_proc = 0, tid = 0, t_index = 0, t_state = TASK_READY, kstack_base = 0, kstack_size = 0,
     user_stack_top = 0, resume_at = Halted\<rparr>"

definition thread_init :: "link_map \<Rightarrow> nat \<Rightarrow> kstate \<Rightarrow> kstate" where
  "thread_init lk t s =
     (let p = t div threads_per_proc;
          index = t mod threads_per_proc;
          th = (threads s ! t)\<lparr>
            t_proc := p, tid := of_nat t, t_index := of_nat index, t_state := TASK_READY,
            kstack_base := lk_thread_kstack lk + of_nat t * KSTACK_SIZE, kstack_size := KSTACK_SIZE,
            user_stack_top := USER_STACK_TOP - of_nat index * USER_STACK_SIZE\<rparr>;
          th' = thread_build_initial_frame lk (user_entry (processes s ! p)) (of_nat index) th;
          pr = (processes s ! p)\<lparr>p_threads := (p_threads (processes s ! p))[index := Some t]\<rparr>
      in s\<lparr>threads := (threads s)[t := th'], processes := (processes s)[p := pr]\<rparr>)"

definition thread_init_all :: "link_map \<Rightarrow> kstate \<Rightarrow> kstate" where
  "thread_init_all lk s = (fold (thread_init lk) [0..<num_threads] s)\<lparr>current := Some 0\<rparr>"

definition thread_state_name :: "string list" where
  "thread_state_name = [''READY'', ''RUNNING'', ''BLOCKED'', ''DEAD'']"

definition thread_dump :: "tptr \<Rightarrow> kstate \<Rightarrow> kstate" where
  "thread_dump t s =
     (let th = threads s ! t
      in kprintf ''[THRD]   %-7s t%u  kstack=0x%08x ustack=0x%08x sp=0x%08x %s\<newline>''
           [ArgStr (p_name (proc_of s t)), ArgInt (t_index th), ArgInt (kstack_base th),
            ArgInt (user_stack_top th), ArgInt (ctx_sp_svc (ctx th)),
            ArgStr (Some (thread_state_name ! task_state_num (t_state th)))] s)"

definition process_dump :: "nat \<Rightarrow> kstate \<Rightarrow> kstate" where
  "process_dump i s =
     (let p = processes s ! i;
          s1 = kprintf ''[PROC] %-7s pgd=0x%08x pa=0x%08x user_pa=0x%08x img=%uB\<newline>''
                 [ArgStr (p_name p), ArgInt (p_pgd p), ArgInt (pgd_pa p), ArgInt (user_phys_base p),
                  ArgInt (img_size p)] s
      in fold (\<lambda>x s. case x of Some t \<Rightarrow> thread_dump t s | None \<Rightarrow> s) (p_threads p) s1)"

section \<open>The address spaces\<close>

text \<open>What the code relies on: the linker aligns the process tables and keeps them apart from the
  boot table; the kernel, from its text to the top of its stacks and the tables with the rest of its zeroed data in between, lies in the high
  half below \<open>0xC0200000\<close>, the alias of \<open>USER_PHYS_BASE\<close> on both boards, where the slots that \<open>process_init_all\<close> clears begin; and each image fits the 1 MB slot.\<close>

definition kernel_placed :: "link_map \<Rightarrow> bool" where
  "kernel_placed lk \<longleftrightarrow> 0xC0000000 \<le> fst (lk_text lk) \<and> fst (lk_text lk) \<le> fst (lk_bss lk) \<and>
     fst (lk_bss lk) \<le> lk_boot_pgd lk \<and> unat (lk_boot_pgd lk) + 0x4000 \<le> unat (snd (lk_bss lk)) \<and>
     fst (lk_bss lk) \<le> lk_proc_pgd lk \<and> unat (lk_proc_pgd lk) + 3 * 0x4000 \<le> unat (snd (lk_bss lk)) \<and>
     snd (lk_bss lk) \<le> lk_svc_stack_top lk \<and> lk_svc_stack_top lk \<le> 0xC0200000"

definition link_ok :: "link_map \<Rightarrow> bool" where
  "link_ok lk \<longleftrightarrow> lk_proc_pgd lk AND 0x3FFF = 0 \<and> lk_boot_pgd lk AND 0x3FFF = 0 \<and>
     (\<forall>i < 3. lk_boot_pgd lk \<noteq> lk_proc_pgd lk + of_nat i * 16384) \<and> kernel_placed lk"

definition images_ok :: "char list list \<Rightarrow> bool" where
  "images_ok imgs \<longleftrightarrow> length imgs = 3 \<and> (\<forall>im \<in> set imgs. length im \<le> 0x100000)"

lemma kernel_below_slots:
  assumes "link_ok lk" "fst (lk_text lk) \<le> a" "a < lk_svc_stack_top lk" "i < 3"
  shows "a - PHYS_OFFSET (board_of p) \<notin> slot_range p i"
proof -
  have a: "0xC0000000 \<le> a" "a < 0xC0200000" using assms(1-3) unfolding link_ok_def kernel_placed_def by (meson order.trans less_le_trans)+
  then have n: "0xC0000000 \<le> unat a" "unat a < 0xC0200000" by (simp_all add: word_le_nat_alt word_less_nat_alt)
  have off: "unat (PHYS_OFFSET (board_of p)) = 0xC0000000 - unat (RAM_BASE (board_of p))" "unat (RAM_BASE (board_of p)) \<le> 0xC0000000"
    by (cases p; simp add: board_defs)+
  then have "unat (a - PHYS_OFFSET (board_of p)) = unat a - unat (PHYS_OFFSET (board_of p))"
    using n(1) by (intro unat_sub) (simp add: word_le_nat_alt)
  then show ?thesis using n off unfolding slot_range_nat [OF assms(4)] by linarith
qed

lemma store_bytes_spec:
  assumes "\<And>k. k < length cs \<Longrightarrow> translate (active_table s) Priv True (a + of_nat k) = Some (b + of_nat k)"
    and "length cs \<le> 0x100000"
  shows "\<exists>mem. store_bytes a cs s = Some (s\<lparr>pmem := mem\<rparr>) \<and>
    (\<forall>k < length cs. mem (b + of_nat k) = cs ! k) \<and>
    (\<forall>pa. (\<forall>k < length cs. pa \<noteq> b + of_nat k) \<longrightarrow> mem pa = pmem s pa)"
  using assms
proof (induction cs arbitrary: a b s)
  case Nil
  then show ?case by (intro exI [of _ "pmem s"]) simp
next
  case (Cons c cs)
  let ?s = "s\<lparr>pmem := (pmem s)(b := c)\<rparr>"
  have tr: "translate (active_table ?s) Priv True (a + 1 + of_nat k) = Some (b + 1 + of_nat k)"
    if "k < length cs" for k
    using Cons.prems(1) [of "Suc k"] that by (simp add: active_table_def ac_simps)
  have k0: "kstore a c s = Some ?s"
    using Cons.prems(1) [of 0] by (simp add: kstore_def)
  from Cons.IH [OF tr] Cons.prems(2) obtain mem where m: "store_bytes (a + 1) cs ?s = Some (?s\<lparr>pmem := mem\<rparr>)"
    "\<forall>k < length cs. mem (b + 1 + of_nat k) = cs ! k"
    "\<forall>pa. (\<forall>k < length cs. pa \<noteq> b + 1 + of_nat k) \<longrightarrow> mem pa = pmem ?s pa"
    by auto
  have eq: "b + of_nat (Suc k) = b + 1 + of_nat k" for k by simp
  have ne: "b \<noteq> b + 1 + of_nat k" if "k < length cs" for k
  proof -
    have "unat (of_nat (Suc k) :: u32) = Suc k" using that Cons.prems(2) by (intro unat_u32_of_nat) simp
    then have "(of_nat (Suc k) :: u32) \<noteq> 0" by (metis nat.distinct(1) unat_0)
    then show ?thesis by (simp add: add.assoc)
  qed
  have at: "mem (b + of_nat k) = (c # cs) ! k" if "k < length (c # cs)" for k
  proof (cases k)
    case 0
    then show ?thesis using m(3) ne by simp
  next
    case (Suc j)
    then have "mem (b + 1 + of_nat j) = cs ! j" using that m(2) by simp
    then show ?thesis unfolding Suc eq by simp
  qed
  have other: "mem pa = pmem s pa" if o: "\<forall>k < length (c # cs). pa \<noteq> b + of_nat k" for pa
  proof -
    have "pa \<noteq> b" using o [rule_format, of 0] by simp
    moreover have "pa \<noteq> b + 1 + of_nat k" if "k < length cs" for k
      using o [rule_format, of "Suc k"] that unfolding eq by simp
    ultimately show ?thesis using m(3) by simp
  qed
  show ?case using k0 m(1) at other by (intro exI [of _ mem]) simp
qed

text \<open>The kernel's alias of a user slot under the boot table.\<close>

lemma unat_sect_offset: "j < 4096 \<Longrightarrow> k < 0x100000 \<Longrightarrow> unat (sect j + of_nat k) = j * 0x100000 + k"
  using unat_u32_add [of "sect j" "of_nat k"] by (simp add: unat_sect unat_u32_of_nat)

lemma alias_translate:
  assumes "i < 3" "k < 0x100000"
  shows "translate (boot_table p) Priv w (user_slot (board_of p) i + PHYS_OFFSET (board_of p) + of_nat k) =
    Some (user_slot (board_of p) i + of_nat k)"
proof -
  have idx: "pgd_index (sect (0xC02 + i) + of_nat k) = 0xC02 + i"
    using assms unat_sect_offset [of "0xC02 + i" k] by (simp add: pgd_index_nat)
  show ?thesis
  proof (cases p)
    case Qemu
    have "user_slot qemu_board i + PHYS_OFFSET qemu_board = sect (0xC02 + i)"
      using qemu.phys_offset_sect [of "2 + i"] by (simp add: user_slot_sect)
    then show ?thesis
      using assms idx Qemu qemu.boot_translate [of Priv w "sect (0xC02 + i) + of_nat k"]
      by (simp add: boot_table_def) (simp add: algebra_simps)
  next
    case Bbb
    have "user_slot bbb_board i + PHYS_OFFSET bbb_board = sect (0xC02 + i)"
      using bbb.phys_offset_sect [of "2 + i"] by (simp add: user_slot_sect)
    then show ?thesis
      using assms idx Bbb bbb.boot_translate [of Priv w "sect (0xC02 + i) + of_nat k"]
      by (simp add: boot_table_def) (simp add: algebra_simps)
  qed
qed

lemma slot_offset_in:
  assumes "i < 3" "k < 0x100000"
  shows "user_slot (board_of p) i + of_nat k \<in> slot_range p i"
  using valid_user_ptr_byte [of USER_VIRT_BASE USER_REGION_SIZE k] assms
    window_in_slot [OF assms(1), of "USER_VIRT_BASE + of_nat k" p]
  by (simp add: valid_user_ptr_nat kernel_const)

definition slot_image :: "char list \<Rightarrow> char list" where
  "slot_image im = im @ replicate (0x100000 - length im) (CHR 0x00)"

lemma store_to_slot:
  assumes "active_table s = boot_table p" "i < 3" "length cs \<le> 0x100000"
  shows "\<exists>mem. store_bytes (user_slot (board_of p) i + PHYS_OFFSET (board_of p)) cs s = Some (s\<lparr>pmem := mem\<rparr>) \<and>
    (\<forall>k < length cs. mem (user_slot (board_of p) i + of_nat k) = cs ! k) \<and>
    (\<forall>pa. (\<forall>k < length cs. pa \<noteq> user_slot (board_of p) i + of_nat k) \<longrightarrow> mem pa = pmem s pa)"
  using assms alias_translate [OF assms(2), of _ p True] by (intro store_bytes_spec) auto

lemma slot_offset_inj:
  assumes "j < 0x100000" "k < 0x100000" "user_slot b i + of_nat j = user_slot b i + of_nat k"
  shows "j = k"
proof -
  have "(of_nat j :: u32) = of_nat k" using assms(3) by simp
  then have "unat (of_nat j :: u32) = unat (of_nat k :: u32)" by simp
  then show ?thesis using assms(1,2) by (simp only: unat_u32_of_nat)
qed

lemma process_init_spec:
  assumes at: "active_table s = boot_table p" "tables s (lk_boot_pgd lk - PHYS_OFFSET (board_of p)) = boot_table p"
    and i: "i < 3" and len: "length (img_bytes (images ! i)) \<le> 0x100000"
  defines "pr \<equiv> make_process (board_of p) lk (images ! i) i"
  shows "\<exists>mem. process_init (board_of p) lk images i s = Some (s\<lparr>processes := (processes s)[i := pr], pmem := mem,
      tables := (tables s)(pgd_pa pr := proc_table p i (tables s (pgd_pa pr)))\<rparr>) \<and>
    (\<forall>k < 0x100000. mem (user_slot (board_of p) i + of_nat k) = slot_image (img_bytes (images ! i)) ! k) \<and>
    (\<forall>pa. pa \<notin> slot_range p i \<longrightarrow> mem pa = pmem s pa)"
proof -
  let ?b = "board_of p" and ?im = "img_bytes (images ! i)"
  let ?s = "s\<lparr>processes := (processes s)[i := pr]\<rparr>"
  have slot: "user_phys_base pr = user_slot ?b i"
    by (simp add: pr_def make_process_def user_slot_def)
  have sz: "unat (img_size pr) = length ?im"
    using len by (simp add: pr_def make_process_def unat_u32_of_nat)
  have R: "unat USER_REGION_SIZE = 0x100000" by (simp add: kernel_const)
  have "active_table ?s = boot_table p" using at(1) by (simp add: active_table_def)
  from store_to_slot [OF this i, of "replicate 0x100000 (CHR 0x00)"] obtain m1 where m1:
    "kmemset (user_slot ?b i + PHYS_OFFSET ?b) (CHR 0x00) USER_REGION_SIZE ?s = Some (?s\<lparr>pmem := m1\<rparr>)"
    "\<forall>k < 0x100000. m1 (user_slot ?b i + of_nat k) = CHR 0x00"
    "\<forall>pa. (\<forall>k < 0x100000. pa \<noteq> user_slot ?b i + of_nat k) \<longrightarrow> m1 pa = pmem s pa"
    unfolding kmemset_def R by auto
  have "active_table (?s\<lparr>pmem := m1\<rparr>) = boot_table p" using at(1) by (simp add: active_table_def)
  from store_to_slot [OF this i len] obtain m2 where m2:
    "kmemcpy (user_slot ?b i + PHYS_OFFSET ?b) ?im (img_size pr) (?s\<lparr>pmem := m1\<rparr>) = Some (?s\<lparr>pmem := m2\<rparr>)"
    "\<forall>k < length ?im. m2 (user_slot ?b i + of_nat k) = ?im ! k"
    "\<forall>pa. (\<forall>k < length ?im. pa \<noteq> user_slot ?b i + of_nat k) \<longrightarrow> m2 pa = m1 pa"
    unfolding kmemcpy_def sz by auto
  have "m2 (user_slot ?b i + of_nat k) = slot_image ?im ! k" if k: "k < 0x100000" for k
  proof (cases "k < length ?im")
    case True
    then show ?thesis using m2(2) by (simp add: slot_image_def nth_append)
  next
    case False
    then have "\<forall>j < length ?im. user_slot ?b i + of_nat k \<noteq> user_slot ?b i + of_nat j"
    proof (intro allI impI notI)
      fix j assume j: "j < length ?im" and eq: "user_slot ?b i + of_nat k = user_slot ?b i + of_nat j"
      from j len have "j < 0x100000" by simp
      from slot_offset_inj [OF k this eq] j False show False by simp
    qed
    then show ?thesis using m2(3) m1(2) k False by (simp add: slot_image_def nth_append)
  qed
  moreover have "m2 pa = pmem s pa" if "pa \<notin> slot_range p i" for pa
  proof -
    have "\<forall>k < 0x100000. pa \<noteq> user_slot ?b i + of_nat k" using slot_offset_in [OF i] that by auto
    then show ?thesis using m1(3) m2(3) len by auto
  qed
  moreover have "process_init ?b lk images i s = Some (s\<lparr>processes := (processes s)[i := pr], pmem := m2,
      tables := (tables s)(pgd_pa pr := proc_table p i (tables s (pgd_pa pr)))\<rparr>)"
    using m1(1) m2(1) at(2)
    by (simp add: process_init_def Let_def pr_def [symmetric] slot del: fun_upd_apply)
  ultimately show ?thesis by auto
qed

text \<open>The tables of the processes are different arrays, and different from the boot table.\<close>

abbreviation proc_rec :: "platform \<Rightarrow> link_map \<Rightarrow> char list list \<Rightarrow> nat \<Rightarrow> process" where
  "proc_rec p lk imgs i \<equiv> make_process (board_of p) lk (user_images imgs ! i) i"

lemma pgd_pa_rec: "pgd_pa (proc_rec p lk imgs i) = lk_proc_pgd lk + of_nat i * 16384 - PHYS_OFFSET (board_of p)"
  by (simp add: make_process_def kernel_const)

lemma pgd_pa_distinct:
  assumes "i < 3" "j < 3" "i \<noteq> j"
  shows "pgd_pa (proc_rec p lk imgs i) \<noteq> pgd_pa (proc_rec p lk imgs j)"
  using assms unfolding pgd_pa_rec by (auto simp: numeral_3_eq_3 less_Suc_eq)

lemma pgd_pa_boot:
  "link_ok lk \<Longrightarrow> i < 3 \<Longrightarrow> pgd_pa (proc_rec p lk imgs i) \<noteq> lk_boot_pgd lk - PHYS_OFFSET (board_of p)"
  unfolding pgd_pa_rec by (auto simp: link_ok_def)

lemma phys_offset_aligned: "PHYS_OFFSET (board_of p) AND 0x3FFF = 0"
  by (cases p) (simp_all add: board_defs)

lemma and_3FFF: "(x::u32) AND 0x3FFF = take_bit 14 x"
  by (simp add: take_bit_eq_mask mask_eq_exp_minus_1)

lemma aligned_split: "(x::u32) AND 0x3FFF = 0 \<Longrightarrow> x AND 0xFFFFC000 = x"
proof -
  assume a: "x AND 0x3FFF = 0"
  have "(0xFFFFC000 :: u32) = NOT 0x3FFF" by simp
  then have "x AND 0xFFFFC000 = x AND NOT 0x3FFF" by (simp only:)
  moreover have "x = (x AND 0x3FFF) OR (x AND NOT 0x3FFF)"
    by (simp only: bit.conj_disj_distrib [symmetric] bit.disj_cancel_right bit.conj_one_right)
  ultimately show ?thesis using a by simp
qed

lemma images_nth: "i < 3 \<Longrightarrow> img_bytes (user_images imgs ! i) = imgs ! i"
  by (auto simp: user_images_def numeral_3_eq_3 less_Suc_eq numeral_2_eq_2)

lemma boot_pa_aligned:
  assumes "link_ok lk"
  shows "(lk_boot_pgd lk - PHYS_OFFSET (board_of p)) AND 0xFFFFC000 = lk_boot_pgd lk - PHYS_OFFSET (board_of p)"
proof (rule aligned_split)
  obtain x y where x: "lk_boot_pgd lk = push_bit 14 x" and y: "PHYS_OFFSET (board_of p) = push_bit 14 y"
    using assms phys_offset_aligned [of p] unfolding link_ok_def and_3FFF by (metis bits_ident add_0_right)
  have "lk_boot_pgd lk - PHYS_OFFSET (board_of p) = push_bit 14 (x - y)"
    unfolding x y by (simp add: push_bit_eq_mult algebra_simps)
  then show "(lk_boot_pgd lk - PHYS_OFFSET (board_of p)) AND 0x3FFF = 0"
    by (simp only: and_3FFF take_bit_push_bit) simp
qed

lemma pgd_pa_aligned:
  assumes "link_ok lk" "i < 3"
  shows "pgd_pa (proc_rec p lk imgs i) AND 0xFFFFC000 = pgd_pa (proc_rec p lk imgs i)"
proof (rule aligned_split)
  obtain x y where x: "lk_proc_pgd lk = push_bit 14 x" and y: "PHYS_OFFSET (board_of p) = push_bit 14 y"
    using assms(1) phys_offset_aligned [of p] unfolding link_ok_def and_3FFF by (metis bits_ident add_0_right)
  have "pgd_pa (proc_rec p lk imgs i) = push_bit 14 (x + of_nat i - y)"
    unfolding pgd_pa_rec x y by (simp add: push_bit_eq_mult algebra_simps)
  then show "pgd_pa (proc_rec p lk imgs i) AND 0x3FFF = 0"
    by (simp only: and_3FFF take_bit_push_bit) simp
qed

text \<open>The state after the address spaces of the processes below \<open>n\<close> are built.\<close>

definition spaces_built :: "platform \<Rightarrow> link_map \<Rightarrow> char list list \<Rightarrow> kstate \<Rightarrow> nat \<Rightarrow> kstate \<Rightarrow> bool" where
  "spaces_built p lk imgs s0 n s \<longleftrightarrow>
     (\<exists>ps mem tb. s = s0\<lparr>processes := ps, pmem := mem, tables := tb\<rparr> \<and>
        length ps = length (processes s0) \<and>
        tb (lk_boot_pgd lk - PHYS_OFFSET (board_of p)) = boot_table p \<and>
        (\<forall>i < n. ps ! i = proc_rec p lk imgs i \<and>
           (\<exists>old. tb (pgd_pa (proc_rec p lk imgs i)) = proc_table p i old) \<and>
           (\<forall>k < 0x100000. mem (user_slot (board_of p) i + of_nat k) = slot_image (imgs ! i) ! k)) \<and>
        (\<forall>pa. (\<forall>i < n. pa \<notin> slot_range p i) \<longrightarrow> mem pa = pmem s0 pa))"

lemma spaces_built_step:
  assumes b: "spaces_built p lk imgs s0 n s" and n: "n < 3"
    and at: "ttbr0 s0 AND 0xFFFFC000 = lk_boot_pgd lk - PHYS_OFFSET (board_of p)"
    and ok: "link_ok lk" "images_ok imgs" "length (processes s0) = 3"
  shows "\<exists>s'. process_init (board_of p) lk (user_images imgs) n s = Some s' \<and> spaces_built p lk imgs s0 (Suc n) s'"
proof -
  let ?b = "board_of p" and ?r = "proc_rec p lk imgs"
  from b obtain ps mem tb where s: "s = s0\<lparr>processes := ps, pmem := mem, tables := tb\<rparr>" "length ps = length (processes s0)"
    "tb (lk_boot_pgd lk - PHYS_OFFSET ?b) = boot_table p"
    and below: "\<And>i. i < n \<Longrightarrow> ps ! i = ?r i \<and> (\<exists>old. tb (pgd_pa (?r i)) = proc_table p i old) \<and>
      (\<forall>k < 0x100000. mem (user_slot ?b i + of_nat k) = slot_image (imgs ! i) ! k)"
    and out: "\<And>pa. \<forall>i < n. pa \<notin> slot_range p i \<Longrightarrow> mem pa = pmem s0 pa"
    unfolding spaces_built_def by auto
  have tabs: "active_table s = boot_table p" "tables s (lk_boot_pgd lk - PHYS_OFFSET ?b) = boot_table p"
    using s at by (simp_all add: active_table_def)
  have len: "length (img_bytes (user_images imgs ! n)) \<le> 0x100000"
    using ok(2) n by (simp add: images_nth images_ok_def)
  from process_init_spec [OF tabs n len] obtain mem' where pi:
    "process_init ?b lk (user_images imgs) n s = Some (s\<lparr>processes := (processes s)[n := ?r n], pmem := mem',
      tables := (tables s)(pgd_pa (?r n) := proc_table p n (tables s (pgd_pa (?r n))))\<rparr>)"
    "\<forall>k < 0x100000. mem' (user_slot ?b n + of_nat k) = slot_image (imgs ! n) ! k"
    "\<forall>pa. pa \<notin> slot_range p n \<longrightarrow> mem' pa = pmem s pa"
    using n by (auto simp: images_nth)
  let ?tb = "tb(pgd_pa (?r n) := proc_table p n (tb (pgd_pa (?r n))))"
  have boot: "?tb (lk_boot_pgd lk - PHYS_OFFSET ?b) = boot_table p"
    using s(3) pgd_pa_boot [OF ok(1) n, of p imgs] by (simp add: fun_upd_other del: fun_upd_apply)
  have all: "ps[n := ?r n] ! i = ?r i \<and> (\<exists>old. ?tb (pgd_pa (?r i)) = proc_table p i old) \<and>
      (\<forall>k < 0x100000. mem' (user_slot ?b i + of_nat k) = slot_image (imgs ! i) ! k)" if i: "i < Suc n" for i
  proof (cases "i = n")
    case True
    then show ?thesis using pi(2) s(2) ok(3) n by auto
  next
    case False
    with i have l: "i < n" by simp
    have "pgd_pa (?r i) \<noteq> pgd_pa (?r n)" using l n by (intro pgd_pa_distinct) auto
    moreover have "mem' (user_slot ?b i + of_nat k) = mem (user_slot ?b i + of_nat k)" if "k < 0x100000" for k
    proof -
      have "user_slot ?b i + of_nat k \<notin> slot_range p n"
        using slot_offset_in [of i k p] slot_range_disjoint [of i n p] that l n by auto
      then show ?thesis using pi(3) s(1) by simp
    qed
    ultimately show ?thesis using below [OF l] False by (simp add: fun_upd_other del: fun_upd_apply)
  qed
  have out': "\<forall>pa. (\<forall>i < Suc n. pa \<notin> slot_range p i) \<longrightarrow> mem' pa = pmem s0 pa"
    using pi(3) out s(1) by simp
  let ?s = "s0\<lparr>processes := ps[n := ?r n], pmem := mem', tables := ?tb\<rparr>"
  have "spaces_built p lk imgs s0 (Suc n) ?s"
    unfolding spaces_built_def using s(2) boot all out'
    by (intro exI [of _ "ps[n := ?r n]"] exI [of _ mem'] exI [of _ ?tb]) (simp del: fun_upd_apply)
  moreover have "process_init ?b lk (user_images imgs) n s = Some ?s"
    using pi(1) by (simp add: s(1) del: fun_upd_apply)
  ultimately show ?thesis by blast
qed

lemma process_init_all_spec:
  assumes boot: "tables s (lk_boot_pgd lk - PHYS_OFFSET (board_of p)) = boot_table p"
    and at: "ttbr0 s AND 0xFFFFC000 = lk_boot_pgd lk - PHYS_OFFSET (board_of p)"
    and ok: "link_ok lk" "images_ok imgs" "length (processes s) = 3"
  shows "\<exists>s'. process_init_all (board_of p) lk imgs s = Some s' \<and> spaces_built p lk imgs s 3 s'"
proof -
  note step = spaces_built_step [OF _ _ at ok]
  have "spaces_built p lk imgs s 0 s"
    using boot unfolding spaces_built_def by (intro exI [of _ "processes s"] exI [of _ "pmem s"] exI [of _ "tables s"]) simp
  from step [OF this] obtain s1 where 1: "process_init (board_of p) lk (user_images imgs) 0 s = Some s1" "spaces_built p lk imgs s 1 s1" by auto
  from step [OF 1(2)] obtain s2 where 2: "process_init (board_of p) lk (user_images imgs) 1 s1 = Some s2" "spaces_built p lk imgs s 2 s2"
    by (auto simp: numeral_2_eq_2)
  from step [OF 2(2)] obtain s3 where 3: "process_init (board_of p) lk (user_images imgs) 2 s2 = Some s3" "spaces_built p lk imgs s 3 s3"
    by (auto simp: numeral_3_eq_3 numeral_2_eq_2)
  have "[0..<num_processes] = [0, 1, 2]" by (simp add: kernel_const upt_rec)
  then show ?thesis using 1(1) 2(1) 3 by (simp add: process_init_all_def)
qed

section \<open>The threads\<close>

lemma initial_frame_words:
  "initial_frame lk entry arg (replicate 25 0) =
     replicate 8 0 @ [lk_ret_from_first_entry lk, arg] @ replicate 12 0 @ [0, entry, 0x10]"
  by (simp add: initial_frame_def upt_rec numeral_eq_Suc)

definition first_ctx :: "u32 \<Rightarrow> u32 \<Rightarrow> exception_context" where
  "first_ctx entry arg = \<lparr>ec_spsr = 0x10, ec_r = arg # replicate 12 0, ec_lr = entry\<rparr>"

lemma frame_cont_initial: "frame_cont (initial_frame lk entry arg (replicate 25 0)) = ToUser (first_ctx entry arg)"
  unfolding initial_frame_words frame_cont_def first_ctx_def by (simp add: numeral_eq_Suc)

lemma user_first_ctx: "user_ctx (first_ctx entry arg)"
  by (simp add: user_ctx_def first_ctx_def)

text \<open>The control block \<open>thread_init\<close> makes of thread \<open>t\<close>.\<close>

definition made_thread :: "link_map \<Rightarrow> u32 \<Rightarrow> nat \<Rightarrow> thread \<Rightarrow> thread" where
  "made_thread lk entry t th =
     th\<lparr>t_proc := t div 2, tid := of_nat t, t_index := of_nat (t mod 2), t_state := TASK_READY,
       kstack_base := lk_thread_kstack lk + of_nat t * 8192, kstack_size := 8192,
       user_stack_top := 0x40100000 - of_nat (t mod 2) * 0x10000,
       ctx := (ctx th)\<lparr>ctx_sp_svc := 8092 + (lk_thread_kstack lk + of_nat t * 8192), ctx_lr_svc := 0,
         ctx_spsr := 0x10, ctx_sp_usr := 0x40100000 - of_nat (t mod 2) * 0x10000, ctx_lr_usr := 0\<rparr>,
       resume_at := ToUser (first_ctx entry (of_nat (t mod 2)))\<rparr>"

lemma thread_init_made:
  "thread_init lk t s =
     s\<lparr>threads := (threads s)[t := made_thread lk (user_entry (processes s ! (t div 2))) t (threads s ! t)],
       processes := (processes s)[t div 2 := (processes s ! (t div 2))
         \<lparr>p_threads := (p_threads (processes s ! (t div 2)))[t mod 2 := Some t]\<rparr>]\<rparr>"
  by (simp add: thread_init_def Let_def thread_build_initial_frame_def frame_cont_initial made_thread_def
      kernel_const)

lemma thread_init_all_spec:
  assumes t: "length (threads s) = 6" and p: "processes s = [p0, p1, p2]"
    and "user_entry p0 = e" "user_entry p1 = e" "user_entry p2 = e"
    and "p_threads p0 = [None, None]" "p_threads p1 = [None, None]" "p_threads p2 = [None, None]"
  shows "thread_init_all lk s =
    s\<lparr>threads := map (\<lambda>t. made_thread lk e t (threads s ! t)) [0, 1, 2, 3, 4, 5],
      processes := [p0\<lparr>p_threads := [Some 0, Some 1]\<rparr>, p1\<lparr>p_threads := [Some 2, Some 3]\<rparr>,
        p2\<lparr>p_threads := [Some 4, Some 5]\<rparr>],
      current := Some 0\<rparr>"
proof -
  obtain t0 t1 t2 t3 t4 t5 where th: "threads s = [t0, t1, t2, t3, t4, t5]"
    using t by (auto simp: numeral_eq_Suc length_Suc_conv)
  have "[0..<num_threads] = [0, 1, 2, 3, 4, 5]" by (simp add: kernel_const upt_rec)
  then show ?thesis using assms by (simp add: thread_init_all_def thread_init_made th)
qed

end
