(* ===== verification/Boot.thy ===== *)
theory Boot
  imports Process_Init
begin

text \<open>
  Boot: \<open>mmu_init\<close>, \<open>mmu_print_status\<close> and \<open>mmu_drop_identity\<close> of \<open>kernel/arch/arm/mm/mmu.c\<close>,
  \<open>exception_init\<close>, the interrupt table of \<open>intc_core.c\<close> and \<open>kmain\<close> of \<open>kernel/main.c\<close>, from the state
  \<open>start.S\<close> leaves (BSS cleared, see \<open>Start\<close>) to the first instruction of the first thread. What the register
  reads return and the text of \<open>__DATE__\<close> and \<open>__TIME__\<close> are arguments.
  The theorem \<open>boot_establishes_invariant\<close> connects it to the running system.
\<close>

section \<open>Model\<close>

definition bss_state :: "(u32 \<Rightarrow> char) \<Rightarrow> kstate" where
  "bss_state ram = \<lparr>
     threads = replicate num_threads zero_thread,
     processes = replicate num_processes zero_process,
     current = None, need_reschedule = False, switch_count = 0,
     waitq = waitq_init, wake_hint = None, rx = uart_rx_init, console_out = [],
     tick_count = 0, user_handler = None, irq_table = replicate (unat MAX_IRQS) None, eois = [],
     ttbr0 = 0, sp_usr = 0, lr_usr = 0, pmem = ram, tables = (\<lambda>_ _. 0),
     cpu = Halted, undefined_behaviour = False\<rparr>"

definition mmu_enable :: "u32 \<Rightarrow> kstate \<Rightarrow> kstate" where
  "mmu_enable pa s = s\<lparr>ttbr0 := pa OR 0x4A\<rparr>"

definition mmu_init :: "platform \<Rightarrow> link_map \<Rightarrow> u32 \<Rightarrow> kstate \<Rightarrow> kstate" where
  "mmu_init p lk phys_offset s =
     (let pa = lk_boot_pgd lk - phys_offset
      in mmu_enable pa (s\<lparr>tables := (tables s)
           (pa := mmu_build_boot_pgd (board_of p) (platform_map_peripherals p) (tables s pa))\<rparr>))"

definition mmu_print_status :: "board \<Rightarrow> link_map \<Rightarrow> u32 \<Rightarrow> kstate \<Rightarrow> kstate" where
  "mmu_print_status b lk sctlr s =
     kprintf ''[MMU]  SCTLR=0x%08x TTBR0=0x%08x\<newline>'' [ArgInt sctlr, ArgInt (ttbr0 s)]
    (kprintf ''[MMU]  null gu. : 0x00000000 .. 0x000FFFFF (FAULT)\<newline>'' []
    (kprintf ''[MMU]  high VA  : 0x%08x .. 0x%08x -> 0x%08x\<newline>''
       [ArgInt VA_KERNEL_BASE, ArgInt (VA_KERNEL_BASE + RAM_SIZE b - 1), ArgInt (RAM_BASE b)]
    (kprintf ''[MMU]  identity : 0x%08x .. 0x%08x (drop after boot)\<newline>''
       [ArgInt (RAM_BASE b), ArgInt (RAM_BASE b + RAM_SIZE b - 1)]
    (kprintf ''[MMU]  boot_pgd @ VA 0x%08x (%u entries, 16 KB aligned)\<newline>''
       [ArgInt (lk_boot_pgd lk), ArgInt PGD_ENTRIES] s))))"

definition exception_init :: "link_map \<Rightarrow> kstate \<Rightarrow> kstate" where
  "exception_init lk s =
     kprintf ''[EXCP] vector table installed @ 0x%08x\<newline>'' [ArgInt (lk_vectors_start lk)] s"

definition irq_init :: "kstate \<Rightarrow> kstate" where
  "irq_init s = s\<lparr>irq_table := fold (\<lambda>i t. t[i := None]) [0..<unat MAX_IRQS] (irq_table s)\<rparr>"

definition timer_set_handler :: "timer_handler \<Rightarrow> kstate \<Rightarrow> kstate" where
  "timer_set_handler fn s = s\<lparr>user_handler := Some fn\<rparr>"

definition drop_identity :: "board \<Rightarrow> link_map \<Rightarrow> kstate \<Rightarrow> kstate" where
  "drop_identity b lk s =
     (let pa = lk_boot_pgd lk - PHYS_OFFSET b
      in kprintf (''[MMU]  identity dropped '' @ em_dash @ '' PA 0x%08x..0x%08x now faults\<newline>'')
           [ArgInt (RAM_BASE b), ArgInt (RAM_BASE b + RAM_SIZE b - 1)]
           (s\<lparr>tables := (tables s)(pa := mmu_drop_identity b (tables s pa))\<rparr>))"

definition boot_banner :: "board \<Rightarrow> link_map \<Rightarrow> string \<Rightarrow> string \<Rightarrow> u32 \<Rightarrow> kstate \<Rightarrow> kstate" where
  "boot_banner b lk date time cpsr s =
     kprintf ''[BOOT] CPSR     : %p (mode=%x, IRQ=%s, FIQ=%s)\<newline>''
       [ArgInt cpsr, ArgInt (cpsr AND 0x1F),
        ArgStr (Some (if cpsr AND push_bit 7 1 \<noteq> 0 then ''masked'' else ''on'')),
        ArgStr (Some (if cpsr AND push_bit 6 1 \<noteq> 0 then ''masked'' else ''on''))]
    (kprintf ''[BOOT] &kmain   : %p  (expect 0xC01xxxxx)\<newline>'' [ArgInt (lk_kmain lk)]
    (kprintf ''[BOOT] SVC stack: %p\<newline>'' [ArgInt (lk_svc_stack_top lk)]
    (kprintf (''[BOOT] .bss     : %p '' @ em_dash @ '' %p\<newline>'') [ArgInt (fst (lk_bss lk)), ArgInt (snd (lk_bss lk))]
    (kprintf (''[BOOT] .data    : %p '' @ em_dash @ '' %p\<newline>'') [ArgInt (fst (lk_data lk)), ArgInt (snd (lk_data lk))]
    (kprintf (''[BOOT] .text    : %p '' @ em_dash @ '' %p\<newline>'') [ArgInt (fst (lk_text lk)), ArgInt (snd (lk_text lk))]
    (kprintf ''[BOOT] platform : %s\<newline>'' [ArgStr (Some (PLATFORM_NAME b))]
    (kprintf ''[UART] init done @ %p\<newline>'' [ArgInt (UART0_BASE b)]
    (kprintf ''================================================\<newline>'' []
    (kprintf ''  Built %s %s\<newline>'' [ArgStr (Some date), ArgStr (Some time)]
    (kprintf (''  Cortex-A-OS '' @ em_dash @ '' ARMv7-A bare-metal kernel\<newline>'') []
    (kprintf ''================================================\<newline>'' []
    (kprintf ''\<newline>'' [] s))))))))))))"

definition irq_setup :: "board \<Rightarrow> kstate \<Rightarrow> kstate" where
  "irq_setup b s =
     irq_register (IRQ_UART0 b) H_uart_rx_irq (irq_register (IRQ_TIMER b) H_timer_irq (irq_init s))"

text \<open>\<open>thread_first_run\<close> of \<open>thread.h\<close>; the switch does not come back to the loop behind it.\<close>

definition thread_first_run :: "tptr \<Rightarrow> kstate \<Rightarrow> kstate" where
  "thread_first_run first s = context_switch None first Halted s"

text \<open>\<open>kmain\<close>: up to the address spaces, and from the threads to the first switch.\<close>

definition kmain_early :: "platform \<Rightarrow> link_map \<Rightarrow> string \<Rightarrow> string \<Rightarrow> u32 \<Rightarrow> u32 \<Rightarrow> kstate \<Rightarrow> kstate" where
  "kmain_early p lk date time cpsr sctlr s =
     irq_setup (board_of p) (exception_init lk (mmu_print_status (board_of p) lk sctlr
       (boot_banner (board_of p) lk date time cpsr s)))"

definition kmain_late :: "platform \<Rightarrow> link_map \<Rightarrow> kstate \<Rightarrow> kstate" where
  "kmain_late p lk s =
     (let s1 = thread_init_all lk s;
          s2 = fold process_dump [0..<num_processes] s1;
          s3 = timer_set_handler H_scheduler_tick (drop_identity (board_of p) lk s2);
          s4 = kprintf (''[BOOT] boot complete '' @ em_dash @ '' entering user mode pid=%u (USR @ 0x%08x)\<newline>'')
                 [ArgInt (pid (processes s3 ! 0)), ArgInt (user_entry (processes s3 ! 0))] s3
      in thread_first_run 0 s4)"

definition kmain :: "platform \<Rightarrow> link_map \<Rightarrow> char list list \<Rightarrow> string \<Rightarrow> string \<Rightarrow> u32 \<Rightarrow> u32 \<Rightarrow> kstate \<Rightarrow> kstate option" where
  "kmain p lk imgs date time cpsr sctlr s =
     map_option (kmain_late p lk)
       (process_init_all (board_of p) lk imgs (kmain_early p lk date time cpsr sctlr s))"

text \<open>From reset: \<open>start.S\<close> computes the offset between the link and the load address, clears BSS,
  calls \<open>mmu_init\<close> and then \<open>kmain\<close>.\<close>

definition boot :: "platform \<Rightarrow> link_map \<Rightarrow> char list list \<Rightarrow> string \<Rightarrow> string \<Rightarrow> u32 \<Rightarrow> u32 \<Rightarrow> (u32 \<Rightarrow> char) \<Rightarrow> kstate option" where
  "boot p lk imgs date time cpsr sctlr ram =
     kmain p lk imgs date time cpsr sctlr (mmu_init p lk (PHYS_OFFSET (board_of p)) (bss_state ram))"

section \<open>Boot messages\<close>

text \<open>A function that only prints changes nothing but the console.\<close>

definition prints_at :: "kstate \<Rightarrow> kstate \<Rightarrow> bool" where
  "prints_at s s' \<longleftrightarrow> (\<exists>co. s' = s\<lparr>console_out := co\<rparr>)"

lemma prints_refl: "prints_at s s"
  unfolding prints_at_def by (intro exI [of _ "console_out s"]) simp

lemma prints_kprintf: "prints_at s s' \<Longrightarrow> uart_printf f a \<noteq> None \<Longrightarrow> prints_at s (kprintf f a s')"
  by (auto simp: prints_at_def kprintf_def kputs_def)

lemmas print_eval = printf_eval em_dash_def

lemma prints_banner: "prints_at s (boot_banner b lk date time cpsr s)"
  unfolding boot_banner_def by (intro prints_kprintf prints_refl) (simp_all add: print_eval)

lemma prints_mmu_status: "prints_at s (mmu_print_status b lk sctlr s)"
  unfolding mmu_print_status_def by (intro prints_kprintf prints_refl) (simp_all add: print_eval)

lemma prints_exception_init: "prints_at s (exception_init lk s)"
  unfolding exception_init_def by (intro prints_kprintf prints_refl) (simp_all add: print_eval)

lemma prints_thread_dump: "prints_at s s' \<Longrightarrow> prints_at s (thread_dump t s')"
  unfolding thread_dump_def Let_def by (intro prints_kprintf) (simp_all add: print_eval)

lemma prints_process_dump: "prints_at s s' \<Longrightarrow> prints_at s (process_dump i s')"
proof -
  assume s: "prints_at s s'"
  have "prints_at s (fold (\<lambda>x s. case x of Some t \<Rightarrow> thread_dump t s | None \<Rightarrow> s) ts s1)"
    if "prints_at s s1" for ts s1
    using that by (induction ts arbitrary: s1) (auto simp: prints_thread_dump split: option.split)
  then show ?thesis
    unfolding process_dump_def Let_def using s by (simp add: prints_kprintf print_eval)
qed

lemma prints_dumps: "prints_at s s' \<Longrightarrow> prints_at s (fold process_dump is s')"
  by (induction "is" arbitrary: s') (auto simp: prints_process_dump)

lemma prints_atE:
  assumes "prints_at s s'"
  obtains co where "s' = s\<lparr>console_out := co\<rparr>"
  using assms by (auto simp: prints_at_def)

lemma prints_drop_identity:
  "prints_at (s\<lparr>tables := (tables s)(lk_boot_pgd lk - PHYS_OFFSET b :=
       mmu_drop_identity b (tables s (lk_boot_pgd lk - PHYS_OFFSET b)))\<rparr>) (drop_identity b lk s)"
  unfolding drop_identity_def Let_def by (intro prints_kprintf prints_refl) (simp add: print_eval)

lemma prints_trans: "prints_at s s' \<Longrightarrow> prints_at s' s'' \<Longrightarrow> prints_at s s''"
  by (auto simp: prints_at_def)

lemma fill_none: "n \<le> length t \<Longrightarrow> fold (\<lambda>i t. t[i := v]) [0..<n] t = replicate n v @ drop n t"
proof (induction n)
  case 0
  then show ?case by simp
next
  case (Suc n)
  then show ?case
    by (simp add: list_update_append replicate_append_same [symmetric] Cons_nth_drop_Suc [symmetric]
        del: replicate_append_same)
qed

definition irq_lines :: "board \<Rightarrow> irq_handler option list" where
  "irq_lines b = (replicate 128 None)[unat (IRQ_TIMER b) := Some H_timer_irq, unat (IRQ_UART0 b) := Some H_uart_rx_irq]"

lemma kmain_early_state:
  assumes "length (irq_table s) = 128"
  shows "\<exists>co. kmain_early p lk date time cpsr sctlr s = s\<lparr>console_out := co, irq_table := irq_lines (board_of p)\<rparr>"
proof -
  have "prints_at s (exception_init lk (mmu_print_status (board_of p) lk sctlr
      (boot_banner (board_of p) lk date time cpsr s)))"
    by (rule prints_trans [OF prints_banner prints_trans [OF prints_mmu_status prints_exception_init]])
  then obtain co where "exception_init lk (mmu_print_status (board_of p) lk sctlr
      (boot_banner (board_of p) lk date time cpsr s)) = s\<lparr>console_out := co\<rparr>"
    by (rule prints_atE)
  moreover have "IRQ_TIMER (board_of p) < MAX_IRQS" "IRQ_UART0 (board_of p) < MAX_IRQS"
    by (cases p; simp add: board_defs kernel_const)+
  moreover have "unat MAX_IRQS = 128" by (simp add: kernel_const)
  ultimately show ?thesis
    using assms fill_none [of 128 "irq_table s" None]
    by (auto simp: kmain_early_def irq_setup_def irq_register_def irq_init_def irq_lines_def)
qed

section \<open>Boot establishes the invariant\<close>

lemma proc_rec_fields:
  "user_entry (make_process b lk img i) = USER_VIRT_BASE"
  "p_threads (make_process b lk img i) = [None, None]"
proof -
  show "user_entry (make_process b lk img i) = USER_VIRT_BASE" by (simp add: make_process_def)
  have "threads_per_proc = 2" by (simp add: kernel_const)
  then have "replicate threads_per_proc (None :: tptr option) = [None, None]" by (simp only:) code_simp
  then show "p_threads (make_process b lk img i) = [None, None]"
    by (simp add: make_process_def zero_process_def)
qed

lemma kmain_late_state:
  assumes b: "spaces_built p lk imgs s0 3 s" and ok: "link_ok lk"
    and s0: "length (threads s0) = 6" "length (processes s0) = 3"
  shows "\<exists>co tb. kmain_late p lk s =
    (let ps = map (\<lambda>i. (proc_rec p lk imgs i)\<lparr>p_threads := [Some (2 * i), Some (2 * i + 1)]\<rparr>) [0, 1, 2];
         th = map (\<lambda>t. made_thread lk USER_VIRT_BASE t (threads s0 ! t)) [0, 1, 2, 3, 4, 5]
     in s0\<lparr>threads := th, processes := ps, current := Some 0, console_out := co, pmem := pmem s, tables := tb,
           user_handler := Some H_scheduler_tick, ttbr0 := pgd_pa (ps ! 0) OR 0x4A,
           sp_usr := ctx_sp_usr (ctx (th ! 0)), lr_usr := 0, cpu := ToUser (first_ctx USER_VIRT_BASE 0)\<rparr>) \<and>
    (\<forall>i < 3. \<exists>old. tb (pgd_pa (proc_rec p lk imgs i)) = proc_table p i old)"
proof -
  let ?b = "board_of p" and ?r = "proc_rec p lk imgs"
  from b obtain ps mem tb where s: "s = s0\<lparr>processes := ps, pmem := mem, tables := tb\<rparr>" "length ps = 3"
    and r: "\<And>i. i < 3 \<Longrightarrow> ps ! i = ?r i" "\<And>i. i < 3 \<Longrightarrow> \<exists>old. tb (pgd_pa (?r i)) = proc_table p i old"
    unfolding spaces_built_def using s0(2) by auto
  obtain r0 r1 r2 where r012: "ps = [r0, r1, r2]"
    using s(2) by (auto simp: numeral_3_eq_3 length_Suc_conv)
  have ps: "ps = [?r 0, ?r 1, ?r 2]"
    using r(1) [of 0] r(1) [of 1] r(1) [of 2] unfolding r012 by simp
  let ?ps = "map (\<lambda>i. (?r i)\<lparr>p_threads := [Some (2 * i), Some (2 * i + 1)]\<rparr>) [0, 1, 2]"
  let ?th = "map (\<lambda>t. made_thread lk USER_VIRT_BASE t (threads s0 ! t)) [0, 1, 2, 3, 4, 5]"
  have ti: "thread_init_all lk s = s\<lparr>threads := ?th, processes := ?ps, current := Some 0\<rparr>"
    by (subst thread_init_all_spec [where e = USER_VIRT_BASE])
      (use s0 in \<open>simp_all add: s(1) ps proc_rec_fields\<close>)
  let ?s1 = "s\<lparr>threads := ?th, processes := ?ps, current := Some 0\<rparr>"
  obtain co where d: "fold process_dump [0..<num_processes] ?s1 = ?s1\<lparr>console_out := co\<rparr>"
    using prints_dumps [OF prints_refl] by (rule prints_atE)
  define tb' where "tb' = tb(lk_boot_pgd lk - PHYS_OFFSET ?b := mmu_drop_identity ?b (tb (lk_boot_pgd lk - PHYS_OFFSET ?b)))"
  obtain co' where di: "drop_identity ?b lk (?s1\<lparr>console_out := co\<rparr>) = ?s1\<lparr>tables := tb', console_out := co'\<rparr>"
    using prints_drop_identity [of "?s1\<lparr>console_out := co\<rparr>" lk ?b]
    by (elim prints_atE) (simp add: tb'_def s(1) del: fun_upd_apply)
  let ?s3 = "?s1\<lparr>tables := tb', console_out := co', user_handler := Some H_scheduler_tick\<rparr>"
  obtain co2 where pr: "kprintf (''[BOOT] boot complete '' @ em_dash @ '' entering user mode pid=%u (USR @ 0x%08x)\<newline>'')
        [ArgInt (pid (processes ?s3 ! 0)), ArgInt (user_entry (processes ?s3 ! 0))] ?s3 = ?s3\<lparr>console_out := co2\<rparr>"
    using prints_kprintf [OF prints_refl, of "''[BOOT] boot complete '' @ em_dash @ '' entering user mode pid=%u (USR @ 0x%08x)\<newline>''"
        "[ArgInt (pid (processes ?s3 ! 0)), ArgInt (user_entry (processes ?s3 ! 0))]" ?s3]
    by (auto simp: print_eval elim: prints_atE)
  have "\<exists>old. tb' (pgd_pa (?r i)) = proc_table p i old" if "i < 3" for i
    using r(2) [OF that] pgd_pa_boot [OF ok that, of p imgs] by (simp add: tb'_def)
  moreover have "kmain_late p lk s = context_switch None 0 Halted (?s3\<lparr>console_out := co2\<rparr>)"
    unfolding kmain_late_def Let_def ti d di timer_set_handler_def pr thread_first_run_def ..
  ultimately show ?thesis
    by (intro exI [of _ co2] exI [of _ tb'])
       (simp add: context_switch_def load_next_def switch_mm_def s(1) made_thread_def Let_def)
qed

text \<open>The state at the first instruction of user code.\<close>

definition booted :: "platform \<Rightarrow> link_map \<Rightarrow> char list list \<Rightarrow> string \<Rightarrow> (u32 \<Rightarrow> char) \<Rightarrow> (u32 \<Rightarrow> pgd) \<Rightarrow> kstate" where
  "booted p lk imgs co mem tb = \<lparr>
     threads = map (\<lambda>t. made_thread lk USER_VIRT_BASE t zero_thread) [0, 1, 2, 3, 4, 5],
     processes = map (\<lambda>i. (proc_rec p lk imgs i)\<lparr>p_threads := [Some (2 * i), Some (2 * i + 1)]\<rparr>) [0, 1, 2],
     current = Some 0, need_reschedule = False, switch_count = 0,
     waitq = waitq_init, wake_hint = None, rx = uart_rx_init, console_out = co,
     tick_count = 0, user_handler = Some H_scheduler_tick, irq_table = irq_lines (board_of p), eois = [],
     ttbr0 = pgd_pa (proc_rec p lk imgs 0) OR 0x4A, sp_usr = 0x40100000, lr_usr = 0,
     pmem = mem, tables = tb,
     cpu = ToUser (first_ctx USER_VIRT_BASE 0), undefined_behaviour = False\<rparr>"

definition slots_loaded :: "platform \<Rightarrow> char list list \<Rightarrow> (u32 \<Rightarrow> char) \<Rightarrow> bool" where
  "slots_loaded p imgs mem \<longleftrightarrow>
     (\<forall>i < 3. \<forall>k < 0x100000. mem (user_slot (board_of p) i + of_nat k) = slot_image (imgs ! i) ! k)"

definition tables_built :: "platform \<Rightarrow> link_map \<Rightarrow> char list list \<Rightarrow> (u32 \<Rightarrow> pgd) \<Rightarrow> bool" where
  "tables_built p lk imgs tb \<longleftrightarrow> (\<forall>i < 3. \<exists>old. tb (pgd_pa (proc_rec p lk imgs i)) = proc_table p i old)"

lemma boot_reaches:
  assumes ok: "link_ok lk" "images_ok imgs"
  shows "\<exists>co mem tb. boot p lk imgs date time cpsr sctlr ram = Some (booted p lk imgs co mem tb) \<and>
    slots_loaded p imgs mem \<and> tables_built p lk imgs tb \<and> (\<forall>pa. (\<forall>i < 3. pa \<notin> slot_range p i) \<longrightarrow> mem pa = ram pa)"
proof -
  let ?b = "board_of p" and ?pa = "lk_boot_pgd lk - PHYS_OFFSET (board_of p)"
  let ?s0 = "mmu_init p lk (PHYS_OFFSET ?b) (bss_state ram)"
  have n: "num_threads = 6" "num_processes = 3" "unat MAX_IRQS = 128" by (simp_all add: kernel_const)
  have "length (irq_table ?s0) = 128" by (simp add: mmu_init_def mmu_enable_def bss_state_def n Let_def)
  then obtain co0 where e: "kmain_early p lk date time cpsr sctlr ?s0 =
      ?s0\<lparr>console_out := co0, irq_table := irq_lines ?b\<rparr>" (is "_ = ?s1")
    using kmain_early_state by blast
  have tab: "tables ?s1 ?pa = boot_table p"
    by (simp add: mmu_init_def mmu_enable_def bss_state_def boot_table_def Let_def)
  have tt: "ttbr0 ?s1 AND 0xFFFFC000 = ?pa"
    using boot_pa_aligned [OF ok(1), of p] by (simp add: mmu_init_def mmu_enable_def ttbr0_base Let_def)
  have len: "length (processes ?s1) = 3" "length (threads ?s1) = 6"
    by (simp_all add: mmu_init_def mmu_enable_def bss_state_def n Let_def)
  obtain s2 where s2: "process_init_all ?b lk imgs ?s1 = Some s2" "spaces_built p lk imgs ?s1 3 s2"
    using process_init_all_spec [OF tab tt ok len(1)] by blast
  have mem: "slots_loaded p imgs (pmem s2)"
    using s2(2) unfolding spaces_built_def slots_loaded_def by auto
  have "pmem ?s1 = ram" by (simp add: mmu_init_def mmu_enable_def bss_state_def Let_def)
  then have out: "\<forall>pa. (\<forall>i < 3. pa \<notin> slot_range p i) \<longrightarrow> pmem s2 pa = ram pa"
    using s2(2) unfolding spaces_built_def by auto
  obtain co tb where late: "kmain_late p lk s2 = booted p lk imgs co (pmem s2) tb" "tables_built p lk imgs tb"
    using kmain_late_state [OF s2(2) ok(1) len(2,1)]
    by (auto simp: booted_def tables_built_def mmu_init_def mmu_enable_def bss_state_def n Let_def
        made_thread_def numeral_eq_Suc)
  show ?thesis
    using e s2(1) late mem out by (auto simp: boot_def kmain_def)
qed

lemma booted_thread: "t < 6 \<Longrightarrow> threads (booted p lk imgs co mem tb) ! t = made_thread lk USER_VIRT_BASE t zero_thread"
  using less_6_cases [of t] by (auto simp: booted_def)

lemma booted_process: "i < 3 \<Longrightarrow> processes (booted p lk imgs co mem tb) ! i =
    (proc_rec p lk imgs i)\<lparr>p_threads := [Some (2 * i), Some (2 * i + 1)]\<rparr>"
  using less_3_cases [of i] by (auto simp: booted_def)

lemma booted_fields [simp]:
  "current (booted p lk imgs co mem tb) = Some 0" "need_reschedule (booted p lk imgs co mem tb) = False"
  "waitq (booted p lk imgs co mem tb) = waitq_init" "wake_hint (booted p lk imgs co mem tb) = None"
  "rx (booted p lk imgs co mem tb) = uart_rx_init" "tables (booted p lk imgs co mem tb) = tb"
  "pmem (booted p lk imgs co mem tb) = mem" "console_out (booted p lk imgs co mem tb) = co"
  "user_handler (booted p lk imgs co mem tb) = Some H_scheduler_tick"
  "irq_table (booted p lk imgs co mem tb) = irq_lines (board_of p)"
  "cpu (booted p lk imgs co mem tb) = ToUser (first_ctx USER_VIRT_BASE 0)"
  "ttbr0 (booted p lk imgs co mem tb) = pgd_pa (proc_rec p lk imgs 0) OR 0x4A"
  "undefined_behaviour (booted p lk imgs co mem tb) = False"
  "length (threads (booted p lk imgs co mem tb)) = 6" "length (processes (booted p lk imgs co mem tb)) = 3"
  by (simp_all add: booted_def)

lemma made_thread_fields [simp]:
  "t_proc (made_thread lk e t th) = t div 2" "tid (made_thread lk e t th) = of_nat t"
  "t_index (made_thread lk e t th) = of_nat (t mod 2)" "t_state (made_thread lk e t th) = TASK_READY"
  "resume_at (made_thread lk e t th) = ToUser (first_ctx e (of_nat (t mod 2)))"
  by (simp_all add: made_thread_def)

lemma booted_kinv:
  assumes "link_ok lk" "tables_built p lk imgs tb"
  shows "kinv p (booted p lk imgs co mem tb)" (is "kinv p ?s")
proof (rule kinvI)
  have "process_at p tb i (processes ?s ! i)" if "i < 3" for i
    using that assms(2) pgd_pa_aligned [OF assms(1) that, of p imgs]
    by (simp add: booted_process process_at_def tables_built_def) (simp add: make_process_def)
  then show "kernel_layout p ?s"
    by (simp add: kernel_layout_def thread_at_def booted_thread)
  have "threads_inv ?s 0"
    by (simp add: threads_inv_def booted_thread user_first_ctx)
  then show "core_inv ?s"
    by (intro core_invI [where c = 0])
      (simp_all add: booted_thread booted_process waitq_init_invar rx_init_invar)
  show "current ?s = Some 0" by simp
  show "fits_cpu ?s 0 (cpu ?s)"
    by (simp add: fits_cpu_def booted_thread user_first_ctx)
qed

end
