(* ===== verification/Sample_State.thy ===== *)
theory Sample_State
  imports Boot
begin

text \<open>
  One concrete booted kernel, to evaluate definitions on and to discharge hypotheses at: a link map
  as the linker script lays it out, empty program images, zeroed RAM.
\<close>

definition sample_link :: link_map where
  "sample_link = \<lparr>lk_boot_pgd = 0xC010C000, lk_proc_pgd = 0xC0110000, lk_thread_kstack = 0xC0120000,
     lk_ret_from_first_entry = 0xC0100400, lk_vectors_start = 0xC0100020, lk_kmain = 0xC0101000,
     lk_text = (0xC0100000, 0xC0106000), lk_data = (0xC0108000, 0xC0108100),
     lk_bss = (0xC010C000, 0xC0130000), lk_svc_stack_top = 0xC0134000\<rparr>"

definition sample_images :: "char list list" where
  "sample_images = [[], [], []]"

definition sample_tables :: "u32 \<Rightarrow> pgd" where
  "sample_tables pa =
     (if pa = 0x70110000 then proc_table Qemu 0 (\<lambda>_. 0)
      else if pa = 0x70114000 then proc_table Qemu 1 (\<lambda>_. 0)
      else proc_table Qemu 2 (\<lambda>_. 0))"

definition sample :: kstate where
  "sample = booted Qemu sample_link sample_images [] (\<lambda>_. CHR 0x00) sample_tables"

lemma sample_link_ok: "link_ok sample_link"
  by (auto simp: link_ok_def kernel_placed_def sample_link_def dest: less_3_cases)

lemma sample_images_ok: "images_ok sample_images"
  by (simp add: images_ok_def sample_images_def)

lemma sample_pgd_pa: "i < 3 \<Longrightarrow> pgd_pa (proc_rec Qemu sample_link imgs i) = 0x70110000 + of_nat i * 0x4000"
  unfolding pgd_pa_rec by (simp add: sample_link_def board_defs)

lemma sample_tables_built: "tables_built Qemu sample_link imgs sample_tables"
  unfolding tables_built_def
proof (intro allI impI)
  fix i :: nat assume i: "i < 3"
  then have "i = 0 \<or> i = 1 \<or> i = 2" by (rule less_3_cases)
  then show "\<exists>old. sample_tables (pgd_pa (proc_rec Qemu sample_link imgs i)) = proc_table Qemu i old"
    unfolding sample_pgd_pa [OF i] by (elim disjE) (auto simp: sample_tables_def)
qed

lemma sample_kinv: "kinv Qemu sample"
  unfolding sample_def by (rule booted_kinv [OF sample_link_ok sample_tables_built])

lemma sample_layout: "kernel_layout Qemu sample" and sample_core: "core_inv sample"
  using sample_kinv by (simp_all add: kinv_def)

lemma sample_fields [simp]:
  "current sample = Some 0" "need_reschedule sample = False" "waitq sample = waitq_init"
  "wake_hint sample = None" "rx sample = uart_rx_init" "tables sample = sample_tables"
  "console_out sample = []" "user_handler sample = Some H_scheduler_tick"
  "irq_table sample = irq_lines qemu_board" "cpu sample = ToUser (first_ctx USER_VIRT_BASE 0)"
  "undefined_behaviour sample = False" "length (threads sample) = 6" "length (processes sample) = 3"
  by (simp_all add: sample_def)

lemma sample_thread: "t < 6 \<Longrightarrow> threads sample ! t = made_thread sample_link USER_VIRT_BASE t zero_thread"
  by (simp add: sample_def booted_thread)

lemma sample_ready: "t < 6 \<Longrightarrow> state_of sample t = TASK_READY"
  by (simp add: sample_thread)

end
