(* ===== verification/Scheduler_Properties.thy ===== *)
theory Scheduler_Properties
  imports Sample_State
begin

text \<open>
  The properties of the scheduler: the choice it makes and what a switch saves and restores,
  round-robin fairness, and the order in which blocked readers are woken.
\<close>

section \<open>The choice and the switch\<close>

text \<open>When a reschedule is pending, \<open>schedule\<close> runs the thread \<open>next_thread\<close> specifies: the
  woken reader if there is one, and otherwise the next runnable thread in circular order. That
  thread is never blocked or dead; it becomes RUNNING, goes on exactly where it was switched
  out, with its own banked registers and its own process's page table, while the leaving
  thread keeps the caller's continuation. Without another runnable thread nothing is switched.\<close>

theorem schedule_choice:
  assumes "kernel_layout p s" "core_inv s" "current s = Some c" "need_reschedule s"
  shows "case next_thread s c of
      Some t \<Rightarrow>
        t \<noteq> c \<and> runnable s t \<and> current (schedule k s) = Some t \<and>
        state_of (schedule k s) t = TASK_RUNNING \<and>
        cpu (schedule k s) = resume_at (threads s ! t) \<and>
        sp_usr (schedule k s) = ctx_sp_usr (ctx (threads s ! t)) \<and>
        lr_usr (schedule k s) = ctx_lr_usr (ctx (threads s ! t)) \<and>
        ttbr0 (schedule k s) = pgd_pa (proc_of s t) OR 0x4A \<and>
        resume_at (threads (schedule k s) ! c) = k \<and>
        ctx_sp_usr (ctx (threads (schedule k s) ! c)) = sp_usr s \<and>
        ctx_lr_usr (ctx (threads (schedule k s) ! c)) = lr_usr s
    | None \<Rightarrow>
        (\<forall>t < 6. t \<noteq> c \<longrightarrow> \<not> runnable s t) \<and>
        schedule k s = s\<lparr>need_reschedule := False, wake_hint := None, cpu := k\<rparr>"
  using assms(1-3)
proof (cases rule: schedule_cases [where k = k])
  case (switch t)
  let ?s = "s\<lparr>need_reschedule := False, wake_hint := None\<rparr>"
  have c: "c < length (threads ?s)" "t < length (threads ?s)" "c \<noteq> t"
    using switch core_invD(1) [OF assms(2,3)] layout_lengths [OF assms(1)] by auto
  have same: "t_proc (threads s ! c) = t_proc (threads s ! t) \<Longrightarrow> ttbr0 s = pgd_pa (proc_of s t) OR 0x4A"
    using core_invD(3) [OF assms(2,3)] by simp
  show ?thesis
    using switch same perform_switch_machine [OF c, of k] perform_switch_threads [OF c, of k]
    by auto
next
  case stay
  then show ?thesis by simp
next
  case none
  with assms(4) show ?thesis by simp
qed

theorem schedule_choice_witness:
  "current (schedule (ToUser (first_ctx 0x40000000 0)) (scheduler_tick sample)) = Some 1"
proof -
  have l: "kernel_layout Qemu (scheduler_tick sample)" and i: "core_inv (scheduler_tick sample)"
    using sample_layout sample_core by (simp_all add: scheduler_tick_def)
  have "next_thread (scheduler_tick sample) 0 = Some 1"
    by (simp add: next_thread_def scheduler_tick_def runnable_def sample_ready upt_rec)
  then show ?thesis
    using schedule_choice [OF l i, of 0 "ToUser (first_ctx 0x40000000 0)"] by (simp add: scheduler_tick_def)
qed

section \<open>Round-robin fairness\<close>

text \<open>How far thread \<open>t\<close> is from the current thread \<open>c\<close> in circular order.\<close>

definition distance :: "nat \<Rightarrow> nat \<Rightarrow> nat" where
  "distance t c = (t + 6 - c) mod 6"

lemma distance_zero: "t < 6 \<Longrightarrow> c < 6 \<Longrightarrow> distance t c = 0 \<longleftrightarrow> t = c"
  using less_6_cases [of t] less_6_cases [of c] by (auto simp: distance_def)

lemma distance_step:
  assumes "c < 6" "t < 6" "1 \<le> i" "i \<le> distance t c"
  shows "distance t ((c + i) mod 6) = distance t c - i"
proof -
  have "i < 6" using assms(4) by (simp add: distance_def)
  then show ?thesis
    using assms less_6_cases [of t] less_6_cases [of c] less_6_cases [of i] by (auto simp: distance_def)
qed

lemma at_distance: "c < 6 \<Longrightarrow> t < 6 \<Longrightarrow> (c + distance t c) mod 6 = t"
  using less_6_cases [of t] less_6_cases [of c] by (auto simp: distance_def)

lemma find_first_index:
  assumes "find P (map f [1..<6]) = Some y" "1 \<le> d" "d < (6::nat)" "P (f d)"
  shows "\<exists>i. 1 \<le> i \<and> i \<le> d \<and> y = f i"
proof -
  from assms(1) obtain j where j: "j < 5" "y = f (Suc j)" "\<forall>l < j. \<not> P (f (Suc l))"
    by (auto simp: find_Some_iff)
  have "j \<le> d - 1"
  proof (rule ccontr)
    assume "\<not> j \<le> d - 1"
    then have "\<not> P (f (Suc (d - 1)))" using j(3) by simp
    with assms(2,4) show False by simp
  qed
  with j assms(2) show ?thesis by (intro exI [of _ "Suc j"]) auto
qed

lemma next_thread_closer:
  assumes "c < 6" "t < 6" "c \<noteq> t" "wake_hint s = None" "runnable s t"
  shows "\<exists>c'. next_thread s c = Some c' \<and> c' < 6 \<and> distance t c' < distance t c"
proof -
  let ?P = "\<lambda>u. u \<noteq> c \<and> runnable s u" and ?f = "\<lambda>i. (c + i) mod 6"
  have d: "1 \<le> distance t c" "distance t c < 6"
    using assms distance_zero [of t c] by (auto simp: distance_def Suc_le_eq)
  have P: "?P (?f (distance t c))" using at_distance [OF assms(1,2)] assms(3,5) by simp
  obtain c' where c': "next_thread s c = Some c'"
    using next_thread_None [OF _ assms(1,2)] assms(3,5) by (cases "next_thread s c") auto
  then have "find ?P (map ?f [1..<6]) = Some c'" using assms(4) by (simp add: next_thread_def)
  from find_first_index [OF this d P] obtain i where i: "1 \<le> i" "i \<le> distance t c" "c' = ?f i" by auto
  then have "distance t c' = distance t c - i" using distance_step [OF assms(1,2) i(1,2)] by simp
  then show ?thesis using c' i d by simp
qed

text \<open>C15: round-robin is fair. Take any run that alternates \<open>schedule\<close> with anything else
  (\<open>e n\<close> is the state in which \<open>schedule\<close> is called for the \<open>n\<close>-th time with a pending
  reschedule, for instance after a timer tick); as long as thread \<open>t\<close> stays runnable and no
  reader is woken, \<open>t\<close> has the CPU after at most five calls.\<close>

theorem round_robin_fair:
  assumes "\<And>n. kernel_layout p (e n)" "\<And>n. core_inv (e n)" "\<And>n. current (e n) = current (s n)"
    and "\<And>n. need_reschedule (e n)" "\<And>n. wake_hint (e n) = None" "\<And>n. runnable (e n) t"
    and "\<And>n. s (Suc n) = schedule (k n) (e n)" "t < 6"
  shows "\<exists>n \<le> 5. current (s n) = Some t"
proof (rule ccontr)
  assume no: "\<not> (\<exists>n \<le> 5. current (s n) = Some t)"
  have "\<exists>c < 6. current (s n) = Some c \<and> distance t c + n \<le> 5" if "n \<le> 5" for n
    using that
  proof (induction n)
    case 0
    obtain c where "current (s 0) = Some c" "c < 6"
      using assms(2,3) by (metis core_inv_def)
    moreover have "distance t c \<le> 5" using mod_less_divisor [of 6 "t + 6 - c"] by (simp add: distance_def)
    ultimately show ?case by auto
  next
    case (Suc n)
    then obtain c where c: "c < 6" "current (s n) = Some c" "distance t c + n \<le> 5" by auto
    then have ne: "c \<noteq> t" using no Suc.prems by (metis Suc_leD)
    from next_thread_closer [OF c(1) assms(8) ne assms(5,6)] obtain c' where
      c': "next_thread (e n) c = Some c'" "c' < 6" "distance t c' < distance t c" by auto
    have cur: "current (e n) = Some c" using assms(3) c(2) by simp
    have "tid (threads (e n) ! c) = of_nat c" using layout_thread [OF assms(1) c(1)] by simp
    from schedule_next [OF cur assms(4) c(1) this, of "k n"] c' have "current (s (Suc n)) = Some c'"
      by (simp add: assms(7) Let_def)
    with c' c(3) show ?case by auto
  qed
  from this [of 5] obtain c where "c < 6" "current (s 5) = Some c" "distance t c = 0" by auto
  then have "current (s 5) = Some t" using distance_zero [OF assms(8), of c] by simp
  with no show False by auto
qed

definition sample_round :: "kstate \<Rightarrow> kstate" where
  "sample_round s = schedule (ToUser (first_ctx 0x40000000 0)) (scheduler_tick s)"

definition all_runnable :: "kstate \<Rightarrow> bool" where
  "all_runnable s \<longleftrightarrow> kinv Qemu s \<and> wake_hint s = None \<and> (\<forall>t < 6. runnable s t)"

lemma sample_round_runnable:
  assumes "all_runnable s"
  shows "all_runnable (sample_round s)"
proof -
  obtain c where c: "current s = Some c" "c < 6" "kernel_layout Qemu s" "core_inv s"
    using assms unfolding all_runnable_def by (metis kinvD)
  have l: "kernel_layout Qemu (scheduler_tick s)" and i: "core_inv (scheduler_tick s)"
    and cur: "current (scheduler_tick s) = Some c"
    using c by (simp_all add: scheduler_tick_def)
  have r: "\<forall>t < 6. runnable (scheduler_tick s) t"
    using assms by (simp add: all_runnable_def scheduler_tick_def)
  have "fits_cpu (scheduler_tick s) c (ToUser (first_ctx 0x40000000 0))"
    using r c(2) by (auto simp: fits_cpu_def user_first_ctx runnable_def)
  then have "kinv Qemu (sample_round s)"
    unfolding sample_round_def by (intro schedule_inv [OF l i cur]) auto
  moreover from l i cur have "wake_hint (sample_round s) = None \<and> (\<forall>t < 6. runnable (sample_round s) t)"
  proof (cases rule: schedule_cases [where k = "ToUser (first_ctx 0x40000000 0)"])
    case (switch u)
    then show ?thesis
      using r c(2) layout_lengths [OF l]
      by (auto simp: sample_round_def runnable_def perform_switch_threads)
  next
    case stay
    then show ?thesis using r by (simp add: sample_round_def runnable_def)
  next
    case none
    then show ?thesis by (simp add: scheduler_tick_def)
  qed
  ultimately show ?thesis by (simp add: all_runnable_def)
qed

theorem round_robin_fair_witness: "\<exists>n \<le> 5. current ((sample_round ^^ n) sample) = Some 3"
proof -
  have base: "all_runnable sample"
    by (simp add: all_runnable_def sample_kinv runnable_def sample_ready)
  have all: "all_runnable ((sample_round ^^ n) sample)" for n
    by (induction n) (simp_all add: base sample_round_runnable)
  then show ?thesis
    by (intro round_robin_fair [where p = Qemu and e = "\<lambda>n. scheduler_tick ((sample_round ^^ n) sample)"
          and k = "\<lambda>_. ToUser (first_ctx 0x40000000 0)"])
       (auto simp: all_runnable_def kinv_def scheduler_tick_def sample_round_def)
qed

section \<open>Waking readers\<close>

lemma dropWhile_first: "\<forall>d \<in> set ds. P d \<Longrightarrow> \<not> P t \<Longrightarrow> dropWhile P (ds @ t # ts) = t # ts"
  by (induction ds) auto

text \<open>Input wakes readers in the order in which they blocked: entries of the queue that are
  no longer blocked (threads killed while they waited) are dropped, the first blocked
  thread becomes READY and is preferred by the next \<open>schedule\<close>, the threads behind it keep their
  place, and no other thread changes.\<close>

theorem wake_reader_fifo:
  assumes "waitq_invar (waitq s)" "length (threads s) = 6"
    and "waitq_list (waitq s) = ds @ t # ts" "\<forall>d \<in> set ds. state_of s d \<noteq> TASK_BLOCKED"
    and "state_of s t = TASK_BLOCKED"
  shows "waitq_list (waitq (scheduler_wake_reader s)) = ts \<and>
    state_of (scheduler_wake_reader s) t = TASK_READY \<and>
    wake_hint (scheduler_wake_reader s) = Some t \<and> need_reschedule (scheduler_wake_reader s) \<and>
    (\<forall>u. u \<noteq> t \<longrightarrow> threads (scheduler_wake_reader s) ! u = threads s ! u)"
proof -
  have "t < 6" using waitq_list_valid [OF assms(1)] assms(3) by simp
  then have t: "t < length (threads s)" using assms(2) by simp
  have "dropWhile (\<lambda>t. state_of s t \<noteq> TASK_BLOCKED) (waitq_list (waitq s)) = t # ts"
    unfolding assms(3) using assms(4,5) by (intro dropWhile_first) auto
  then obtain q where "waitq_list q = ts" "scheduler_wake_reader s =
      (set_state t TASK_READY s)\<lparr>waitq := q, wake_hint := Some t, need_reschedule := True\<rparr>"
    using wake_reader_spec [OF assms(1)] by auto
  then show ?thesis by (auto simp: nth_set_state [OF t])
qed

text \<open>Three readers queued, the first of them killed while it waited.\<close>

definition sample_waiting :: kstate where
  "sample_waiting = (set_state 4 TASK_DEAD (set_state 5 TASK_BLOCKED (set_state 2 TASK_BLOCKED sample)))
     \<lparr>waitq := waitq_push 2 (waitq_push 5 (waitq_push 4 waitq_init))\<rparr>"

lemma sample_waiting_queue:
  "waitq_invar (waitq sample_waiting)" "waitq_list (waitq sample_waiting) = [4, 5, 2]"
  by (simp_all add: sample_waiting_def wq.push_invar wq.push_contents waitq_init_invar)

theorem wake_reader_fifo_witness:
  "waitq_list (waitq (scheduler_wake_reader sample_waiting)) = [2] \<and>
   wake_hint (scheduler_wake_reader sample_waiting) = Some 5"
  using wake_reader_fifo [OF sample_waiting_queue(1), where ds = "[4]" and t = 5 and ts = "[2]"] sample_waiting_queue(2)
  by (simp add: sample_waiting_def nth_set_state)

end
