(* ===== verification/Syscall_Properties.thy ===== *)
theory Syscall_Properties
  imports Sample_State
begin

text \<open>
  The properties of the system calls, each stated for thread \<open>c\<close> running in process \<open>c div 2\<close>
  under the invariant: the complete effect of the call on every branch.
\<close>

text \<open>\<open>sys_write\<close> passes exactly the bytes of the caller's buffer to the console, in order, and
  returns their number; a buffer that is not wholly inside the caller's window gives \<open>E_FAULT\<close>
  and no output. The kernel never aborts on the buffer.\<close>

theorem sys_write_correct:
  assumes "kernel_layout p s" "core_inv s" "current s = Some c"
  shows "sys_write fd buf len u s =
    (if valid_user_ptr buf len
     then (Ret len, s\<lparr>console_out := console_out s @ console_bytes (user_bytes p (c div 2) s buf (unat len))\<rparr>)
     else (Ret E_FAULT, s))"
  using sys_write_spec [OF user_access_current [OF assms]] by (simp add: sys_write_def kputs_def)

theorem sys_write_correct_witness:
  "sys_write 1 0x40000010 2 0 sample = (Ret 2, sample\<lparr>console_out := [CHR 0x00, CHR 0x00]\<rparr>)"
proof -
  have "valid_user_ptr 0x40000010 2" by (simp add: valid_user_ptr_nat)
  moreover have "user_bytes Qemu 0 sample 0x40000010 2 = [CHR 0x00, CHR 0x00]"
    by (simp add: user_bytes_def sample_def numeral_2_eq_2)
  ultimately show ?thesis
    using sys_write_correct [OF sample_layout sample_core, of 0 1 "0x40000010" 2 0]
    by (simp add: console_bytes_def uart_putc_def)
qed

text \<open>C24: \<open>sys_read\<close> on a ring that holds bytes moves the oldest bytes into the caller's buffer, as many
  as both have room for: they come out of the ring in arrival order, the return value is
  their number, and no memory outside those bytes of the buffer changes. On an empty ring
  the caller has to wait and nothing changes; a bad buffer gives \<open>E_FAULT\<close>, a zero length 0.\<close>

theorem sys_read_correct:
  fixes len :: u32
  assumes "kernel_layout p s" "core_inv s" "current s = Some c"
  defines "m \<equiv> min (unat len) (length (rx_contents (rx s)))"
  shows "if len = 0 then sys_read fd buf len u s = (Ret 0, s)
    else if \<not> valid_user_ptr buf len then sys_read fd buf len u s = (Ret E_FAULT, s)
    else if rx_contents (rx s) = [] then sys_read fd buf len u s = (Wait, s)
    else \<exists>r mem. sys_read fd buf len u s = (Ret (of_nat m), s\<lparr>rx := r, pmem := mem\<rparr>) \<and>
      rx_contents r = drop m (rx_contents (rx s)) \<and>
      user_bytes p (c div 2) (s\<lparr>rx := r, pmem := mem\<rparr>) buf m = take m (rx_contents (rx s)) \<and>
      (\<forall>pa. pa \<notin> (\<lambda>k. upa p (c div 2) (buf + of_nat k)) ` {0..<m} \<longrightarrow> mem pa = pmem s pa)"
  using sys_read_spec [OF user_access_current [OF assms(1-3)] core_invD(5) [OF assms(2,3)], of buf len fd u]
    sys_read_waits [of buf len s fd u] rx_empty_iff [of "rx s"] core_invD(5) [OF assms(2,3)]
  unfolding m_def by (auto simp: sys_read_def)

theorem sys_read_correct_witness:
  "\<exists>s'. sys_read 0 0x40000010 8 0 (sample\<lparr>rx := uart_rx_push CHR ''b'' (uart_rx_push CHR ''a'' uart_rx_init)\<rparr>) = (Ret 2, s') \<and>
    user_bytes Qemu 0 s' 0x40000010 2 = ''ab''"
proof -
  let ?r = "uart_rx_push CHR ''b'' (uart_rx_push CHR ''a'' uart_rx_init)" and ?s = "sample\<lparr>rx := uart_rx_push CHR ''b'' (uart_rx_push CHR ''a'' uart_rx_init)\<rparr>"
  have r: "rx_invar ?r" "rx_contents ?r = ''ab''"
    by (simp_all add: rxq.push_invar rxq.push_contents rx_init_invar)
  have "kernel_layout Qemu ?s" "core_inv ?s" "current ?s = Some 0"
    using sample_layout sample_core core_inv_rx [OF sample_core r(1)] by simp_all
  from sys_read_correct [OF this, where len = 8 and fd = 0 and buf = "0x40000010" and u = 0] r(2) show ?thesis
    by (auto simp: valid_user_ptr_nat) (simp add: numeral_2_eq_2)
qed

text \<open>C25: \<open>sys_ps\<close> writes the listing of all six threads (one line per thread with the padded process
  name, the index and the state) into the caller's buffer, cut after \<open>size - 1\<close> bytes; it
  returns the number of bytes written and changes no other memory. The nine hand-written
  bound checks amount to taking a prefix.\<close>

theorem sys_ps_correct:
  fixes sz :: u32
  assumes "kernel_layout p s" "core_inv s" "current s = Some c"
  defines "m \<equiv> min (length (ps_listing s)) (unat sz - 1)"
  shows "if \<not> valid_user_ptr buf sz then sys_ps buf sz u0 u1 s = (Ret E_FAULT, s)
    else \<exists>mem. sys_ps buf sz u0 u1 s = (Ret (of_nat m), s\<lparr>pmem := mem\<rparr>) \<and>
      user_bytes p (c div 2) (s\<lparr>pmem := mem\<rparr>) buf m = take m (ps_listing s) \<and>
      (\<forall>pa. pa \<notin> (\<lambda>k. upa p (c div 2) (buf + of_nat k)) ` {0..<m} \<longrightarrow> mem pa = pmem s pa)"
  using sys_ps_spec [OF user_access_current [OF assms(1-3)], of buf sz u0 u1] unfolding m_def
  by (auto simp: sys_ps_def)

lemma sample_first_line: "take 19 (ps_listing sample) = ''counter t0  READY  ''"
proof -
  have "(char_of (48 :: nat) :: char) = CHR ''0''" by code_simp
  then have "ps_line sample 0 = ''counter t0  READY  \<newline>''"
    by (simp add: ps_line_def ps_name_def sample_thread)
      (simp add: sample_def booted_def make_process_def user_images_def pad_right_def PS_NAME_W_def
        ps_state_def ps_state_name_def)
  moreover have "[0..<6] = 0 # [1..<6]" by (simp add: upt_conv_Cons)
  ultimately show ?thesis by (simp add: ps_listing_def)
qed

theorem sys_ps_correct_witness:
  "\<exists>s'. sys_ps 0x40001000 20 0 0 sample = (Ret 19, s') \<and> user_bytes Qemu 0 s' 0x40001000 19 = ''counter t0  READY  ''"
proof -
  have "19 \<le> length (ps_listing sample)"
    using arg_cong [OF sample_first_line, of length] by simp
  then have "min (length (ps_listing sample)) (unat (20 :: u32) - 1) = 19" by simp
  with sys_ps_correct [OF sample_layout sample_core sample_fields(1), where sz = 20 and buf = "0x40001000" and ?u0.0 = 0 and ?u1.0 = 0] sample_first_line
  show ?thesis by (auto simp: valid_user_ptr_nat)
qed

text \<open>C26: \<open>sys_kill\<close> retires a whole process: both threads of the process become DEAD, no other thread
  changes, and a reschedule is requested, so that a caller that killed itself is switched
  away. A process that is dead already is left alone (the call is idempotent) and a process
  number out of range gives \<open>E_BADCALL\<close>.\<close>

theorem sys_kill_correct:
  assumes "kernel_layout p s" "core_inv s" "current s = Some c"
  shows "let i = unat kpid; dead = (\<lambda>t. state_of s t = TASK_DEAD); s' = snd (sys_kill kpid u0 u1 u2 s)
    in if kpid \<ge> 3 then sys_kill kpid u0 u1 u2 s = (Ret E_BADCALL, s)
       else if dead (2 * i) \<and> dead (2 * i + 1) then sys_kill kpid u0 u1 u2 s = (Ret 0, s)
       else fst (sys_kill kpid u0 u1 u2 s) = Ret 0 \<and> need_reschedule s' \<and>
         threads s' = map (\<lambda>t. if t div 2 = i then (threads s ! t)\<lparr>t_state := TASK_DEAD\<rparr> else threads s ! t) [0..<6]"
proof (cases "kpid \<ge> 3")
  case True
  then show ?thesis by (simp add: sys_kill_def kernel_const)
next
  case False
  then have k: "kpid < 3" by simp
  have i: "unat kpid < 3" using k by (simp add: word_less_nat_alt)
  have len: "length (threads s) = 6" using layout_lengths [OF assms(1)] by simp
  let ?i = "unat kpid"
  let ?s = "set_state (2 * ?i + 1) TASK_DEAD (set_state (2 * ?i) TASK_DEAD s)"
  have th: "threads ?s = map (\<lambda>t. if t div 2 = ?i then (threads s ! t)\<lparr>t_state := TASK_DEAD\<rparr> else threads s ! t) [0..<6]"
  proof (rule nth_equalityI)
    fix t assume "t < length (threads ?s)"
    then have t: "t < 6" using len by simp
    have "t div 2 = ?i \<longleftrightarrow> t = 2 * ?i \<or> t = 2 * ?i + 1" by auto
    then show "threads ?s ! t = map (\<lambda>t. if t div 2 = ?i then (threads s ! t)\<lparr>t_state := TASK_DEAD\<rparr> else threads s ! t) [0..<6] ! t"
      using i len t by (auto simp: nth_set_state)
  qed (simp add: len)
  have c: "c < 6" using core_invD(1) [OF assms(2,3)] .
  show ?thesis
    using sys_kill_spec [OF assms(1,3) c k, of u0 u1 u2] False th
    by (auto simp: Let_def scheduler_request_resched_def split: if_splits)
qed

theorem sys_kill_correct_witness:
  "map t_state (threads (snd (sys_kill 1 0 0 0 sample))) =
     [TASK_READY, TASK_READY, TASK_DEAD, TASK_DEAD, TASK_READY, TASK_READY]"
proof -
  have "\<not> (3 :: u32) \<le> 1" by code_simp
  then show ?thesis
    using sys_kill_correct [OF sample_layout sample_core sample_fields(1), of 1 0 0 0]
    by (simp add: sample_ready Let_def upt_rec)
qed

text \<open>C27: the system-call convention. The dispatcher passes r0 to r3 to the handler numbered by r7
  and puts its result into r0; every other register, the return address and the saved status
  come back to the caller unchanged. A number that is not in the table gives \<open>E_BADCALL\<close> and has no
  effect. A call never aborts in the kernel, and the only call that waits is \<open>sys_read\<close>, on an empty
  ring.\<close>

theorem syscall_dispatch_abi:
  assumes "kernel_layout p s" "core_inv s" "current s = Some c" "user_ctx x"
  shows "let (r, s') = syscall_dispatch x s
    in (case r of
          Done x' \<Rightarrow> (\<exists>v. x' = x\<lparr>ec_r := (ec_r x)[0 := v]\<rparr> \<and>
            (if ec_r x ! 7 < 8
             then (Ret v, s') = ([sys_write, sys_getpid, sys_yield, sys_exit, sys_read, sys_ps, sys_kill, sys_ticks]
                    ! unat (ec_r x ! 7)) (ec_r x ! 0) (ec_r x ! 1) (ec_r x ! 2) (ec_r x ! 3) s
             else v = - 1 \<and> s' = s))
        | Waiting \<Rightarrow> ec_r x ! 7 = 4 \<and> rx_contents (rx s) = [] \<and> s' = s
        | Aborted \<Rightarrow> False)"
proof (cases "ec_r x ! 7 < 8")
  case False
  then show ?thesis by (simp add: dispatch_handler set_r0_def E_BADCALL_def)
next
  case True
  then have n: "unat (ec_r x ! 7) < 8" by (simp add: word_less_nat_alt)
  obtain v t where h: "handler_result x s = (v, t)" by (cases "handler_result x s")
  have hr: "(v, t) = ([sys_write, sys_getpid, sys_yield, sys_exit, sys_read, sys_ps, sys_kill, sys_ticks]
      ! unat (ec_r x ! 7)) (ec_r x ! 0) (ec_r x ! 1) (ec_r x ! 2) (ec_r x ! 3) s"
    using h less_8_cases [OF n] unfolding handler_result_def syscall_table_eq by (elim disjE) simp_all
  have ok: "sys_ok p c s (ec_r x ! 1) (ec_r x ! 2) (v, t)"
    using handler_result_ok [OF assms(1-3) True] h by simp
  show ?thesis
  proof (cases v)
    case (Ret w)
    then have "syscall_dispatch x s = (Done (set_r0 w x), t)" using True h by (simp add: dispatch_handler)
    then show ?thesis using True hr Ret by (auto simp: set_r0_def intro!: exI [of _ w])
  next
    case Wait
    have "unat (ec_r x ! 7) = 4"
      using hr less_8_cases [OF n] unfolding Wait
      by (elim disjE)
        (auto simp: sys_write_def sys_getpid_def sys_yield_def sys_exit_def sys_ps_def sys_kill_def sys_ticks_def
          Let_def split: if_splits prod.splits bool.splits ps_progress.splits)
    then have "unat (ec_r x ! 7) = unat (4 :: u32)" by simp
    then have "ec_r x ! 7 = 4" by (simp only: word_unat_eq_iff)
    moreover have "syscall_dispatch x s = (Waiting, t)" using Wait True h by (simp add: dispatch_handler)
    ultimately show ?thesis using Wait ok rx_empty_iff [of "rx s"] core_invD(5) [OF assms(2,3)]
      by (simp add: sys_ok_def)
  next
    case Abort
    with ok show ?thesis by (simp add: sys_ok_def)
  qed
qed

theorem syscall_dispatch_abi_witness:
  "\<exists>x'. syscall_dispatch \<lparr>ec_spsr = 0x10, ec_r = [5, 1, 1, 1, 1, 1, 1, 9, 1, 1, 1, 1, 1], ec_lr = 0x40000020\<rparr> sample =
     (Done x', sample) \<and> ec_r x' = [- 1, 1, 1, 1, 1, 1, 1, 9, 1, 1, 1, 1, 1]"
proof -
  let ?x = "\<lparr>ec_spsr = 0x10, ec_r = [5, 1, 1, 1, 1, 1, 1, 9, 1, 1, 1, 1, 1], ec_lr = 0x40000020\<rparr>"
  have "user_ctx ?x" by (simp add: user_ctx_def)
  from syscall_dispatch_abi [OF sample_layout sample_core sample_fields(1) this] show ?thesis
    by (auto split: prod.splits dispatch_result.splits)
qed

end
