(* ===== verification/System.thy ===== *)
theory System
  imports Exceptions
begin

text \<open>
  Facts about every step of the running system, shared by the properties of the root theory.
  A step of kernel code on behalf of the current thread is a stretch that \<open>keeps\<close> everything that
  belongs to others, followed by one call of \<open>schedule\<close> (\<open>kstep_shape\<close>); what can happen to
  memory and to the threads that are switched out follows from that alone.
\<close>

lemma keeps_refl: "kernel_layout p s \<Longrightarrow> core_inv s \<Longrightarrow> current s = Some c \<Longrightarrow> keeps p c s s"
  by (simp add: keeps_def others_kept_def)

lemma keeps_upd [simp]:
  "keeps p c s (s'\<lparr>eois := es\<rparr>) = keeps p c s s'"
  "keeps p c s (s'\<lparr>need_reschedule := b\<rparr>) = keeps p c s s'"
  "keeps p c s (s'\<lparr>tick_count := tc\<rparr>) = keeps p c s s'"
  "keeps p c s (kputs cs s') = keeps p c s s'"
  by (simp_all add: keeps_def others_kept_def kputs_inv)

lemma wake_reader_others:
  assumes l: "kernel_layout p s" and inv: "core_inv s" and cur: "current s = Some c"
  shows "others_kept c s (scheduler_wake_reader s)"
proof -
  note D = core_invD [OF inv cur]
  have len: "length (threads s) = 6" using layout_lengths [OF l] by simp
  show ?thesis
  proof (cases "dropWhile (\<lambda>t. state_of s t \<noteq> TASK_BLOCKED) (waitq_list (waitq s))")
    case Nil
    then show ?thesis using wake_reader_spec [OF D(4)] unfolding Nil by (auto simp: others_kept_def)
  next
    case (Cons t ts)
    have b: "state_of s t = TASK_BLOCKED"
      using hd_dropWhile [of "\<lambda>t. state_of s t \<noteq> TASK_BLOCKED" "waitq_list (waitq s)"] Cons by simp
    have "t \<in> set (waitq_list (waitq s))" using Cons by (metis list.set_intros(1) set_dropWhileD)
    then have t: "t < length (threads s)" using waitq_list_valid [OF D(4)] len by simp
    show ?thesis
      using wake_reader_spec [OF D(4)] b unfolding Cons by (auto simp: others_kept_def nth_set_state [OF t])
  qed
qed

lemma irq_dispatch_keeps:
  assumes "kernel_layout p s" "core_inv s" "current s = Some c" "state_of s c \<noteq> TASK_BLOCKED"
  shows "keeps p c s (irq_dispatch n bs s)"
proof -
  have t: "keeps p c s (timer_irq s)"
    using keeps_refl [OF assms(1-3)]
    by (simp add: timer_irq_def timer_tick_def scheduler_tick_def Let_def split: option.split timer_handler.split)
  let ?s = "s\<lparr>rx := fold uart_rx_push bs (rx s)\<rparr>"
  have "core_inv ?s"
    using assms(2) core_invD(5) [OF assms(2,3)] by (intro core_inv_rx uart_burst_inv)
  then have "others_kept c ?s (scheduler_wake_reader ?s)"
    using assms by (intro wake_reader_others) auto
  then have u: "keeps p c s (uart_rx_irq bs s)"
    using uart_rx_irq_inv [OF assms, of bs] by (simp add: keeps_def uart_rx_irq_def others_kept_def)
  show ?thesis
    using t u keeps_refl [OF assms(1-3)]
    by (simp add: irq_dispatch_def run_handler_def Let_def split: option.split irq_handler.split)
qed

lemma block_keeps:
  assumes "kernel_layout p s" "core_inv s" "current s = Some c"
  shows "keeps p c s ((set_state c TASK_BLOCKED s)\<lparr>waitq := waitq_push c (waitq s), need_reschedule := True\<rparr>)"
proof -
  have c: "c < 6" using core_invD(1) [OF assms(2,3)] .
  then have cl: "c < length (threads s)" using layout_lengths [OF assms(1)] by simp
  show ?thesis
    using assms c block_core_inv [OF assms]
    by (simp add: keeps_def others_kept_def nth_set_state [OF cl] layout_set_state)
qed

text \<open>With which continuation \<open>schedule\<close> is called: never with \<open>Halted\<close>, and with \<open>AfterFault\<close> only for a dead
  thread with a pending reschedule.\<close>

definition sched_arg :: "tptr \<Rightarrow> kcont \<Rightarrow> kstate \<Rightarrow> bool" where
  "sched_arg c k s \<longleftrightarrow> k \<noteq> Halted \<and> (k = AfterFault \<longrightarrow> need_reschedule s \<and> state_of s c = TASK_DEAD)"

lemma sched_arg_simps [simp]: "sched_arg c (ToUser x) s" "sched_arg c (InSysRead x) s"
  by (simp_all add: sched_arg_def)

lemma block_shape:
  assumes "kernel_layout p s" "core_inv s" "current s = Some c"
  shows "\<exists>k s1. scheduler_block_on_input (InSysRead x) s = schedule k s1 \<and> keeps p c s s1 \<and> sched_arg c k s1"
  using block_keeps [OF assms] assms(3) unfolding scheduler_block_on_input_def
  by (intro exI [of _ "InSysRead x"] exI conjI) (simp_all only: option.simps sched_arg_simps)

lemma keeps_kputs_from: "keeps p c (kputs cs s) s' = keeps p c s s'"
  by (simp add: keeps_def others_kept_def)

text \<open>A fault of user code: every thread of the faulting process is retired, then \<open>schedule\<close>.\<close>

definition retired :: "tptr \<Rightarrow> kstate \<Rightarrow> kstate \<Rightarrow> bool" where
  "retired c s s' \<longleftrightarrow>
     (\<forall>t < 6. threads s' ! t = (if t div 2 = c div 2 then (threads s ! t)\<lparr>t_state := TASK_DEAD\<rparr> else threads s ! t))"

lemma retired_kputs_from: "retired c (kputs cs s) s' = retired c s s'"
  by (simp add: retired_def)

lemma user_fault_effect:
  assumes "kernel_layout p s" "core_inv s" "current s = Some c"
  shows "\<exists>s1. user_fault_kill kd s = schedule AfterFault s1 \<and> keeps p c s s1 \<and> sched_arg c AfterFault s1 \<and> retired c s s1"
proof -
  have c: "c < 6" using core_invD(1) [OF assms(2,3)] .
  obtain nm where nm: "p_name (proc_of s c) = Some nm" using layout_name_of [OF assms(1) c] by auto
  obtain out where out: "kprintf ''[KILL] %s killed by %s (faulting t%u, whole process retired)\<newline>''
      [ArgStr (Some nm), ArgStr (Some kd), ArgInt (t_index (threads s ! c))] s = kputs out s"
    using kprintf_some [OF fault_messages(4)] by blast
  let ?i = "c div 2"
  let ?s = "set_state (2 * ?i + 1) TASK_DEAD (set_state (2 * ?i) TASK_DEAD s)"
  have i: "2 * ?i < 6" "2 * ?i + 1 < 6" using c by presburger+
  have th: "p_threads (proc_of s c) = [Some (2 * ?i), Some (2 * ?i + 1)]"
    using layout_proc_of(2) [OF assms(1) c] by (simp add: process_at_def)
  have "sys_keeps p c s ?s"
    using sys_keeps_refl [OF assms] i by (intro sys_keeps_dead) auto
  then have "keeps p c s (scheduler_request_resched (kputs out ?s))"
    by (simp add: sys_keeps_def scheduler_request_resched_def)
  moreover have "user_fault_kill kd s = schedule AfterFault (scheduler_request_resched (kputs out ?s))"
    using assms(3) nm out th
    by (simp add: user_fault_kill_def retire_two set_state_kputs del: kprintf_frame)
  moreover have r: "retired c s (scheduler_request_resched (kputs out ?s))"
    unfolding retired_def
  proof (intro allI impI)
    fix t :: nat assume "t < 6"
    have "t div 2 = ?i \<longleftrightarrow> t = 2 * ?i \<or> t = 2 * ?i + 1" by auto
    then show "threads (scheduler_request_resched (kputs out ?s)) ! t =
        (if t div 2 = ?i then (threads s ! t)\<lparr>t_state := TASK_DEAD\<rparr> else threads s ! t)"
      using i layout_lengths [OF assms(1)] by (auto simp: nth_set_state scheduler_request_resched_def)
  qed
  moreover have "sched_arg c AfterFault (scheduler_request_resched (kputs out ?s))"
    using r c by (simp add: sched_arg_def retired_def scheduler_request_resched_def)
  ultimately show ?thesis by blast
qed

lemma user_fault_print:
  assumes "kernel_layout p s" "core_inv s" "current s = Some c" "uart_printf f a \<noteq> None"
  shows "\<exists>s1. user_fault_kill kd (kprintf f a s) = schedule AfterFault s1 \<and> keeps p c s s1 \<and>
    sched_arg c AfterFault s1 \<and> retired c s s1"
proof -
  obtain out where o: "kprintf f a s = kputs out s" using kprintf_some [OF assms(4)] by blast
  show ?thesis
    using user_fault_effect [of p "kputs out s" c kd] assms(1-3)
    unfolding o by (simp add: kputs_inv keeps_kputs_from retired_kputs_from)
qed

fun is_fault :: "event \<Rightarrow> bool" where
  "is_fault (DataAbort fs fa) = True"
| "is_fault (PrefetchAbort fs fa) = True"
| "is_fault UndefinedInstr = True"
| "is_fault _ = False"

lemma fault_shape:
  assumes k: "kinv p s" and st: "kstep s e s'" "is_fault e" and cur: "current s = Some c"
  shows "\<exists>s1. s' = schedule AfterFault s1 \<and> keeps p c s s1 \<and> sched_arg c AfterFault s1 \<and> retired c s s1"
proof -
  have l: "kernel_layout p s" and i: "core_inv s" and f: "fits_cpu s c (cpu s)"
    using k cur by (auto simp: kinv_def)
  have u: "fault_from_user x" if "cpu s = ToUser x" for x
    using f that by (simp add: fits_cpu_def user_ctx_def fault_from_user_def)
  note prints = user_fault_print [OF l i cur fault_messages(1)] user_fault_print [OF l i cur fault_messages(2)]
    user_fault_print [OF l i cur fault_messages(3)]
  from st(1) show ?thesis
    using st(2) prints u
    by cases (simp_all add: handle_data_abort_def handle_prefetch_abort_def handle_undefined_def)
qed

text \<open>The shape of every step.\<close>

lemma svc_shape:
  assumes l: "kernel_layout p s" and i: "core_inv s" and cur: "current s = Some c" and x: "user_ctx x"
  shows "\<exists>k s1. handle_svc x s = schedule k s1 \<and> keeps p c s s1 \<and> sched_arg c k s1"
proof -
  obtain r s' where d: "syscall_dispatch x s = (r, s')" by (cases "syscall_dispatch x s")
  note ok = dispatch_ok [OF l i cur x d]
  show ?thesis
  proof (cases r)
    case (Done x')
    then have "handle_svc x s = schedule (ToUser x') s'" "keeps p c s s'"
      using d ok(1) by (simp_all add: handle_svc_def sys_keeps_def)
    then show ?thesis using sched_arg_simps by blast
  next
    case Waiting
    then show ?thesis
      using d ok(4) block_shape [OF l i cur] by (simp add: handle_svc_def)
  next
    case Aborted
    with ok(2) show ?thesis by simp
  qed
qed

lemma resume_read_shape:
  assumes l: "kernel_layout p s" and i: "core_inv s" and cur: "current s = Some c" and x: "read_ctx x"
  shows "\<exists>k s1. resume_read x s = schedule k s1 \<and> keeps p c s s1 \<and> sched_arg c k s1"
proof -
  obtain r s' where d: "sys_read 0 (ec_r x ! 1) (ec_r x ! 2) 0 s = (r, s')" by (meson surj_pair)
  have ok: "sys_ok p c s (ec_r x ! 1) (ec_r x ! 2) (r, s')"
    using sys_read_ok [OF l i cur, of "ec_r x ! 1" "ec_r x ! 2" 0 0] d by simp
  have eq: "resume_read x s = (case r of
      Ret v \<Rightarrow> schedule (ToUser (set_r0 v x)) s'
    | Wait \<Rightarrow> scheduler_block_on_input (InSysRead x) s'
    | Abort \<Rightarrow> kernel_abort s')"
    unfolding resume_read_def read_ctx_sys_read [OF x, where fd = 0 and u = 0] d by (cases r) simp_all
  show ?thesis
  proof (cases r)
    case (Ret v)
    then have "resume_read x s = schedule (ToUser (set_r0 v x)) s'" "keeps p c s s'"
      using ok by (simp_all add: eq sys_ok_def sys_keeps_def)
    then show ?thesis using sched_arg_simps by blast
  qed (use ok block_shape [OF l i cur] in \<open>auto simp: eq sys_ok_def\<close>)
qed

lemma kstep_shape:
  assumes st: "kstep s e s'" and k: "kinv p s" and cur: "current s = Some c"
  shows "(\<exists>k s1. s' = schedule k s1 \<and> keeps p c s s1 \<and> sched_arg c k s1) \<or>
    (threads s' = threads s \<and> current s' = Some c \<and>
     (\<forall>pa. pa \<notin> slot_range p (c div 2) \<longrightarrow> pmem s' pa = pmem s pa) \<and>
     ((\<exists>x. cpu s' = ToUser x) \<or> (cpu s = AfterFault \<and> cpu s' = Halted)))"
proof -
  have l: "kernel_layout p s" and i: "core_inv s" and f: "fits_cpu s c (cpu s)"
    using k cur by (auto simp: kinv_def)
  note ua = user_access_current [OF l i cur]
  from st show ?thesis
  proof cases
    case (user x x' ws s1 sp lr)
    then show ?thesis using user_stores_mem [OF _ ua] cur by fastforce
  next
    case (svc x)
    then show ?thesis using svc_shape [OF l i cur] f by (simp add: fits_cpu_def)
  next
    case (irq x n bs)
    then have "state_of s c \<noteq> TASK_BLOCKED" using f by (simp add: fits_cpu_def)
    then have "keeps p c s (irq_dispatch n bs s)" by (rule irq_dispatch_keeps [OF l i cur])
    then show ?thesis using irq sched_arg_simps unfolding handle_irq_def by blast
  next
    case (data_abort x fs fa)
    then show ?thesis using fault_shape [OF k st _ cur] by auto
  next
    case (prefetch_abort x fs fa)
    then show ?thesis using fault_shape [OF k st _ cur] by auto
  next
    case (undefined_instr x)
    then show ?thesis using fault_shape [OF k st _ cur] by auto
  next
    case (resume_read x)
    then show ?thesis using resume_read_shape [OF l i cur] f by (simp add: fits_cpu_def)
  next
    case resume_fault
    then show ?thesis using cur by (simp add: user_fault_panic_def halt_forever_def)
  qed
qed

text \<open>What \<open>schedule\<close> does to a thread that is not current: it is left alone, or it is switched in.\<close>

lemma schedule_others:
  assumes l: "kernel_layout p s" and i: "core_inv s" and cur: "current s = Some c" and t: "t < 6" "t \<noteq> c"
  shows "(current (schedule k s) = Some t \<and> runnable s t \<and> cpu (schedule k s) = resume_at (threads s ! t) \<and>
      sp_usr (schedule k s) = ctx_sp_usr (ctx (threads s ! t)) \<and> lr_usr (schedule k s) = ctx_lr_usr (ctx (threads s ! t)))
    \<or> (current (schedule k s) \<noteq> Some t \<and> threads (schedule k s) ! t = threads s ! t)"
  using l i cur
proof (cases rule: schedule_cases [where k = k])
  case (switch u)
  let ?s = "s\<lparr>need_reschedule := False, wake_hint := None\<rparr>"
  have c: "c < length (threads ?s)" "u < length (threads ?s)" "c \<noteq> u"
    using switch core_invD(1) [OF i cur] layout_lengths [OF l] by auto
  show ?thesis
    using switch t perform_switch_machine [OF c, of k] perform_switch_threads [OF c, of k] by auto
next
  case stay
  then show ?thesis using cur t by simp
next
  case none
  then show ?thesis using cur t by simp
qed

lemma schedule_pmem [simp]: "pmem (schedule k s) = pmem s"
  by (auto simp: schedule_def Let_def split: option.split)

lemma schedule_frame [simp]:
  "rx (schedule k s) = rx s" "irq_table (schedule k s) = irq_table s" "waitq (schedule k s) = waitq s"
  by (auto simp: schedule_def Let_def split: option.split)

lemma schedule_hint: "wake_hint s = None \<Longrightarrow> wake_hint (schedule k s) = None"
  by (auto simp: schedule_def Let_def split: option.split)

section \<open>Consequences for one step\<close>

lemma kstep_memory:
  assumes "kstep s e s'" "kinv p s" "current s = Some c" "pa \<notin> slot_range p (c div 2)"
  shows "pmem s' pa = pmem s pa"
  using kstep_shape [OF assms(1-3)] assms(4) by (auto simp: keeps_def)

lemma kstep_others:
  assumes "kstep s e s'" "kinv p s" "current s = Some c" "t < 6" "t \<noteq> c"
  shows "(current s' = Some t \<and> state_of s t \<noteq> TASK_DEAD \<and> cpu s' = resume_at (threads s ! t) \<and>
      sp_usr s' = ctx_sp_usr (ctx (threads s ! t)) \<and> lr_usr s' = ctx_lr_usr (ctx (threads s ! t)))
    \<or> (current s' \<noteq> Some t \<and> resume_at (threads s' ! t) = resume_at (threads s ! t) \<and>
       ctx (threads s' ! t) = ctx (threads s ! t) \<and> (state_of s t = TASK_DEAD \<longrightarrow> state_of s' t = TASK_DEAD))"
  using kstep_shape [OF assms(1-3)]
proof
  assume "\<exists>k s1. s' = schedule k s1 \<and> keeps p c s s1 \<and> sched_arg c k s1"
  then obtain k s1 where s': "s' = schedule k s1" and kp: "keeps p c s s1" by auto
  then have l: "kernel_layout p s1" and i: "core_inv s1" and cur: "current s1 = Some c"
    and o: "resume_at (threads s1 ! t) = resume_at (threads s ! t)" "ctx (threads s1 ! t) = ctx (threads s ! t)"
      "state_of s t = TASK_DEAD \<Longrightarrow> state_of s1 t = TASK_DEAD"
    using assms(4,5) by (auto simp: keeps_def others_kept_def)
  show ?thesis
    using schedule_others [OF l i cur assms(4,5), of k] o by (auto simp: s' runnable_def)
qed (use assms(5) in auto)

lemma kstep_dead:
  assumes "kstep s e s'" "kinv p s" "t < 6" "state_of s t = TASK_DEAD" "current s \<noteq> Some t"
  shows "state_of s' t = TASK_DEAD \<and> current s' \<noteq> Some t"
proof -
  obtain c where "current s = Some c" using assms(2) by (metis kinvD)
  then show ?thesis using kstep_others [OF assms(1,2) _ assms(3), of c] assms(4,5) by auto
qed

lemma ksteps_dead:
  assumes "ksteps s es s'" "kinv p s" "t < 6" "state_of s t = TASK_DEAD" "current s \<noteq> Some t"
  shows "state_of s' t = TASK_DEAD \<and> current s' \<noteq> Some t"
  using assms
proof (induction rule: ksteps.induct)
  case (stop s)
  then show ?case by simp
next
  case (more s e s' es s'')
  then show ?case using kstep_dead [OF more(1)] kstep_inv [OF more(1)] by blast
qed

section \<open>When the system stops\<close>

definition stops_only_dead :: "kstate \<Rightarrow> bool" where
  "stops_only_dead s \<longleftrightarrow> (cpu s = AfterFault \<or> cpu s = Halted \<longrightarrow> (\<forall>t < 6. \<not> runnable s t))"

lemma schedule_stops:
  assumes l: "kernel_layout p s" and i: "core_inv s" and cur: "current s = Some c" and k: "sched_arg c k s"
  shows "stops_only_dead (schedule k s)"
  using l i cur
proof (cases rule: schedule_cases [where k = k])
  case (switch t)
  let ?s = "s\<lparr>need_reschedule := False, wake_hint := None\<rparr>"
  have c: "c < length (threads ?s)" "t < length (threads ?s)" "c \<noteq> t"
    using switch core_invD(1) [OF i cur] layout_lengths [OF l] by auto
  have "cont_ok (state_of s t) (resume_at (threads s ! t))"
    using threads_invD(3) [OF core_invD(2) [OF i cur]] switch(1,2) by simp
  then show ?thesis
    using switch(3,6) perform_switch_machine(1) [OF c, of k]
    by (cases "resume_at (threads s ! t)") (auto simp: stops_only_dead_def runnable_def)
next
  case stay
  have "\<not> runnable s c" if "k = AfterFault" using k that by (simp add: sched_arg_def runnable_def)
  then have "k = AfterFault \<Longrightarrow> t < 6 \<Longrightarrow> \<not> runnable s t" for t using stay(3) by (cases "t = c") auto
  then show ?thesis using stay(4) k by (auto simp: stops_only_dead_def sched_arg_def runnable_def)
next
  case none
  then show ?thesis using k by (auto simp: stops_only_dead_def sched_arg_def)
qed

lemma kstep_stops:
  assumes st: "kstep s e s'" and k: "kinv p s" and d: "stops_only_dead s"
  shows "stops_only_dead s'"
proof -
  obtain c where cur: "current s = Some c" using k by (metis kinvD)
  from kstep_shape [OF st k cur] show ?thesis
  proof
    assume "\<exists>k s1. s' = schedule k s1 \<and> keeps p c s s1 \<and> sched_arg c k s1"
    then show ?thesis using schedule_stops by (auto simp: keeps_def)
  qed (use d in \<open>auto simp: stops_only_dead_def runnable_def\<close>)
qed

lemma ksteps_stops: "ksteps s es s' \<Longrightarrow> kinv p s \<Longrightarrow> stops_only_dead s \<Longrightarrow> stops_only_dead s'"
  by (induction rule: ksteps.induct) (auto dest: kstep_inv kstep_stops)

section \<open>Input\<close>

text \<open>A UART interrupt while readers wait: the bytes are queued, and the first blocked reader has the
  CPU, inside its read loop, with no reschedule pending.\<close>

lemma uart_irq_switches:
  assumes k: "kinv p s" and x: "cpu s = ToUser x" and cur: "current s = Some c"
    and n: "n < 128" "irq_table s ! unat n = Some H_uart_rx_irq"
    and q: "waitq_list (waitq s) = ds @ t # ts" "\<forall>d \<in> set ds. state_of s d \<noteq> TASK_BLOCKED" "state_of s t = TASK_BLOCKED"
  shows "\<exists>wq. waitq_list wq = ts \<and> handle_irq n bs x s =
    perform_switch c t (ToUser x)
      ((set_state t TASK_READY s)\<lparr>rx := fold uart_rx_push bs (rx s), waitq := wq,
         wake_hint := None, need_reschedule := False, eois := eois s @ [n]\<rparr>)" and "t \<noteq> c" "t < 6"
proof -
  have l: "kernel_layout p s" and i: "core_inv s" and f: "fits_cpu s c (cpu s)"
    using k cur by (auto simp: kinv_def)
  note D = core_invD [OF i cur]
  show tc: "t \<noteq> c" using f x q(3) by (auto simp: fits_cpu_def)
  show t6: "t < 6" using waitq_list_valid [OF D(4)] q(1) by simp
  let ?s = "s\<lparr>rx := fold uart_rx_push bs (rx s)\<rparr>"
  have tl: "t < length (threads ?s)" using t6 layout_lengths [OF l] by simp
  have dw: "dropWhile (\<lambda>t. state_of ?s t \<noteq> TASK_BLOCKED) (waitq_list (waitq ?s)) = t # ts"
    using q by (induction ds) (auto simp: dropWhile_append3)
  obtain wq where wq: "waitq_invar wq" "waitq_list wq = ts" "scheduler_wake_reader ?s =
      (set_state t TASK_READY ?s)\<lparr>waitq := wq, wake_hint := Some t, need_reschedule := True\<rparr>"
    using wake_reader_spec [of ?s] D(4) unfolding dw by auto
  let ?w = "(set_state t TASK_READY ?s)\<lparr>waitq := wq, wake_hint := Some t, need_reschedule := True, eois := eois s @ [n]\<rparr>"
  have w: "irq_dispatch n bs s = ?w"
    using n wq(3) by (simp add: irq_dispatch_def run_handler_def uart_rx_irq_def kernel_const)
  have cw: "current ?w = Some c" "need_reschedule ?w" "tid (threads ?w ! c) = of_nat c"
    using cur tc layout_thread [OF l D(1)] by (simp_all add: nth_set_state [OF tl])
  have "next_thread ?w c = Some t"
    using tc by (simp add: next_thread_def runnable_def nth_set_state [OF tl])
  then have "schedule (ToUser x) ?w = perform_switch c t (ToUser x) (?w\<lparr>need_reschedule := False, wake_hint := None\<rparr>)"
    using schedule_next [OF cw(1,2) D(1) cw(3), of "ToUser x"] by (simp add: Let_def)
  moreover have "?w\<lparr>need_reschedule := False, wake_hint := None\<rparr> =
      (set_state t TASK_READY s)\<lparr>rx := fold uart_rx_push bs (rx s), waitq := wq,
        wake_hint := None, need_reschedule := False, eois := eois s @ [n]\<rparr>"
    by (simp add: set_state_def upd_thread_def)
  ultimately show "\<exists>wq. waitq_list wq = ts \<and> handle_irq n bs x s =
    perform_switch c t (ToUser x)
      ((set_state t TASK_READY s)\<lparr>rx := fold uart_rx_push bs (rx s), waitq := wq,
         wake_hint := None, need_reschedule := False, eois := eois s @ [n]\<rparr>)"
    using wq(2) by (auto simp: handle_irq_def w)
qed

lemma schedule_idle: "\<not> need_reschedule s \<Longrightarrow> schedule k s = s\<lparr>cpu := k\<rparr>"
  by (cases "current s") (simp_all add: schedule_def)

text \<open>The read that was waiting then completes.\<close>

lemma resume_read_delivers:
  assumes k: "kinv p s" and y: "cpu s = InSysRead y" and cur: "current s = Some t"
    and r: "rx_contents (rx s) \<noteq> []" "\<not> need_reschedule s"
  defines "m \<equiv> min (unat (ec_r y ! 2)) (length (rx_contents (rx s)))"
  shows "\<exists>r mem. resume_read y s = s\<lparr>rx := r, pmem := mem, cpu := ToUser (set_r0 (of_nat m) y)\<rparr> \<and>
    rx_contents r = drop m (rx_contents (rx s)) \<and>
    user_bytes p (t div 2) (s\<lparr>pmem := mem\<rparr>) (ec_r y ! 1) m = take m (rx_contents (rx s))"
proof -
  have l: "kernel_layout p s" and i: "core_inv s" and f: "read_ctx y"
    using k cur y by (auto simp: kinv_def fits_cpu_def)
  then have v: "valid_user_ptr (ec_r y ! 1) (ec_r y ! 2)" "ec_r y ! 2 \<noteq> 0" by (simp_all add: read_ctx_def)
  obtain ri mem where sr: "sys_read 0 (ec_r y ! 1) (ec_r y ! 2) 0 s = (Ret (of_nat m), s\<lparr>rx := ri, pmem := mem\<rparr>)"
    "rx_contents ri = drop m (rx_contents (rx s))"
    "user_bytes p (t div 2) (s\<lparr>rx := ri, pmem := mem\<rparr>) (ec_r y ! 1) m = take m (rx_contents (rx s))"
    using sys_read_spec [OF user_access_current [OF l i cur] core_invD(5) [OF i cur] v r(1), of 0 0]
    unfolding m_def by auto
  have "resume_read y s = schedule (ToUser (set_r0 (of_nat m) y)) (s\<lparr>rx := ri, pmem := mem\<rparr>)"
    unfolding resume_read_def read_ctx_sys_read [OF f, where fd = 0 and u = 0] sr(1) by simp
  then have "resume_read y s = s\<lparr>rx := ri, pmem := mem, cpu := ToUser (set_r0 (of_nat m) y)\<rparr>"
    using r(2) by (simp add: schedule_idle)
  then show ?thesis using sr(2,3) by (auto simp: user_bytes_def)
qed

text \<open>Both parts of a delivery: the interrupt that brings input wakes the first blocked reader and
  switches to it, and the reader then finishes its system call. No other thread but the interrupted one is touched.\<close>

lemma input_delivery:
  assumes k: "kinv p s" and x: "cpu s = ToUser x" and cur: "current s = Some c"
    and n: "n < 128" "irq_table s ! unat n = Some H_uart_rx_irq" and bs: "bs \<noteq> []"
    and q: "waitq_list (waitq s) = ds @ t # ts" "\<forall>d \<in> set ds. state_of s d \<noteq> TASK_BLOCKED" "state_of s t = TASK_BLOCKED"
  defines "s1 \<equiv> handle_irq n bs x s"
    and "inp \<equiv> rx_contents (rx s) @ take (127 - length (rx_contents (rx s))) bs"
  obtains y m s2 where "resume_at (threads s ! t) = InSysRead y" "current s1 = Some t" "cpu s1 = InSysRead y"
    "m = min (unat (ec_r y ! 2)) (length inp)" "s2 = resume_read y s1"
    "cpu s2 = ToUser (set_r0 (of_nat m) y)" "current s2 = Some t"
    "user_bytes p (t div 2) s2 (ec_r y ! 1) m = take m inp" "rx_contents (rx s2) = drop m inp"
    "waitq_list (waitq s2) = ts" "wake_hint s2 = None" "\<not> need_reschedule s2"
    "\<And>u. u \<noteq> c \<Longrightarrow> u \<noteq> t \<Longrightarrow> threads s2 ! u = threads s ! u"
proof -
  have i: "core_inv s" using k by (simp add: kinv_def)
  note D = core_invD [OF i cur]
  note sw = uart_irq_switches [OF k x cur n q]
  obtain wq where wq: "waitq_list wq = ts" "s1 = perform_switch c t (ToUser x)
      ((set_state t TASK_READY s)\<lparr>rx := fold uart_rx_push bs (rx s), waitq := wq,
         wake_hint := None, need_reschedule := False, eois := eois s @ [n]\<rparr>)" (is "_ = perform_switch c t _ ?s")
    using sw(1) [of bs] unfolding s1_def by blast
  have len: "length (threads s) = 6" using k by (simp add: kinv_def kernel_layout_def)
  have ct: "c < length (threads ?s)" "t < length (threads ?s)" "c \<noteq> t" "t < length (threads s)"
    using D(1) sw(2,3) len by auto
  have k1: "kinv p s1" unfolding s1_def by (rule handle_irq_inv [OF k x])
  have cont: "cont_ok TASK_BLOCKED (resume_at (threads s ! t))"
    using threads_invD(3) [OF D(2) sw(3,2)] q(3) by simp
  then obtain y where y: "resume_at (threads s ! t) = InSysRead y"
    by (cases "resume_at (threads s ! t)") auto
  have s1: "current s1 = Some t" "cpu s1 = InSysRead y" "\<not> need_reschedule s1" "rx s1 = fold uart_rx_push bs (rx s)"
      "waitq_list (waitq s1) = ts" "wake_hint s1 = None"
    unfolding wq(2) using wq(1) y perform_switch_machine(1) [OF ct(1-3), of "ToUser x"]
    by (simp_all add: nth_set_state [OF ct(4)])
  have th: "threads s1 ! u = threads s ! u" if "u \<noteq> c" "u \<noteq> t" for u
    using perform_switch_threads [OF ct(1-3), of "ToUser x" u] that by (simp add: wq(2) nth_set_state [OF ct(4)])
  have inp: "rx_contents (rx s1) = inp"
    using rxq.burst [OF D(5), of bs] rx_contents_bound [OF D(5)] by (simp add: s1(4) inp_def)
  have ne: "rx_contents (rx s1) \<noteq> []"
    using bs rx_contents_bound [OF D(5)] unfolding inp inp_def by (cases "rx_contents (rx s)") auto
  from resume_read_delivers [OF k1 s1(2,1) ne s1(3)] obtain r mem where
    e: "resume_read y s1 = s1\<lparr>rx := r, pmem := mem, cpu := ToUser (set_r0 (of_nat (min (unat (ec_r y ! 2)) (length inp))) y)\<rparr>"
      "rx_contents r = drop (min (unat (ec_r y ! 2)) (length inp)) inp"
      "user_bytes p (t div 2) (s1\<lparr>pmem := mem\<rparr>) (ec_r y ! 1) (min (unat (ec_r y ! 2)) (length inp)) =
        take (min (unat (ec_r y ! 2)) (length inp)) inp"
    unfolding inp by blast
  show ?thesis
    by (rule that [OF y s1(1,2) refl refl]) (use e s1 th in \<open>simp_all add: user_bytes_def\<close>)
qed

end
