(* ===== verification/Sample_Runs.thy ===== *)
theory Sample_Runs
  imports Sample_State System
begin

text \<open>
  The reachable states of the system, and a few concrete runs from boot: all processes crash one
  after the other; all threads but one are gone; one thread after the other blocks in \<open>sys_read\<close>.
\<close>

section \<open>Reachable states\<close>

text \<open>A state of the running kernel: any sequence of events after a boot of either platform, with any
  link map and program images that satisfy what the code relies on.\<close>

definition reachable :: "platform \<Rightarrow> kstate \<Rightarrow> bool" where
  "reachable p s \<longleftrightarrow>
     (\<exists>lk imgs date time cpsr sctlr ram s0 es.
        link_ok lk \<and> images_ok imgs \<and> boot p lk imgs date time cpsr sctlr ram = Some s0 \<and> ksteps s0 es s)"

lemma ksteps_append: "ksteps s es s' \<Longrightarrow> ksteps s' fs s'' \<Longrightarrow> ksteps s (es @ fs) s''"
  by (induction rule: ksteps.induct) (auto intro: ksteps.intros)

lemma reachable_inv:
  assumes "reachable p s"
  shows "kinv p s" "stops_only_dead s"
proof -
  from assms obtain lk imgs date time cpsr sctlr ram s0 es where b: "link_ok lk" "images_ok imgs"
    "boot p lk imgs date time cpsr sctlr ram = Some s0" "ksteps s0 es s" unfolding reachable_def by blast
  from boot_reaches [OF b(1,2), of p date time cpsr sctlr ram] b(3) obtain co mem tb where
    s0: "s0 = booted p lk imgs co mem tb" "tables_built p lk imgs tb" by auto
  have "kinv p s0" unfolding s0(1) by (rule booted_kinv [OF b(1) s0(2)])
  moreover have "stops_only_dead s0" by (simp add: s0(1) stops_only_dead_def)
  ultimately show "kinv p s" "stops_only_dead s"
    using ksteps_inv [OF b(4)] ksteps_stops [OF b(4)] by blast+
qed

lemma reachable_steps: "reachable p s \<Longrightarrow> ksteps s es s' \<Longrightarrow> reachable p s'"
  unfolding reachable_def using ksteps_append by blast

lemma reachable_step: "reachable p s \<Longrightarrow> kstep s e s' \<Longrightarrow> reachable p s'"
  by (meson ksteps.intros reachable_steps)

lemma booted_reachable:
  "\<exists>co mem tb. reachable Qemu (booted Qemu sample_link sample_images co mem tb) \<and>
     tables_built Qemu sample_link sample_images tb"
  using boot_reaches [OF sample_link_ok sample_images_ok, of Qemu "[]" "[]" 0 0 "\<lambda>_. CHR 0x00"]
    sample_link_ok sample_images_ok ksteps.stop
  unfolding reachable_def by blast

section \<open>Crashing processes\<close>

text \<open>A run in which all three processes crash one after the other.\<close>

definition crashing :: "nat set \<Rightarrow> kstate \<Rightarrow> bool" where
  "crashing D s \<longleftrightarrow> kinv Qemu s \<and> rx s = uart_rx_init \<and> \<not> need_reschedule s \<and>
     (\<exists>c x. current s = Some c \<and> c div 2 \<notin> D \<and> cpu s = ToUser x \<and>
       (\<forall>t < 6. (t div 2 \<in> D \<longrightarrow> state_of s t = TASK_DEAD) \<and>
          (t div 2 \<notin> D \<longrightarrow> runnable s t \<and> (t \<noteq> c \<longrightarrow> (\<exists>y. resume_at (threads s ! t) = ToUser y)))))"

lemma retire_frame [simp]: "rx (retire_threads ts s) = rx s"
  unfolding retire_threads_def by (induction ts arbitrary: s) (auto split: option.split)

lemma handle_undefined_rx [simp]: "rx (handle_undefined x s) = rx s"
  by (auto simp: handle_undefined_def user_fault_kill_def halt_forever_def dump_context_def
      scheduler_request_resched_def Let_def split: option.split)

lemma crashed_schedule:
  assumes cr: "crashing D s" "current s = Some c"
    and s1: "keeps Qemu c s s1" "sched_arg c AfterFault s1" "retired c s s1"
    and after: "kinv Qemu (schedule AfterFault s1)" "rx (schedule AfterFault s1) = uart_rx_init"
  shows "if \<exists>j < 3. j \<notin> insert (c div 2) D then crashing (insert (c div 2) D) (schedule AfterFault s1)
    else cpu (schedule AfterFault s1) = AfterFault"
proof -
  let ?D = "insert (c div 2) D"
  have l: "kernel_layout Qemu s1" and i: "core_inv s1" and c1: "current s1 = Some c" and nr: "need_reschedule s1"
    using s1(1,2) by (simp_all add: keeps_def sched_arg_def)
  have c: "c < 6" using core_invD(1) [OF i c1] .
  have al: "\<And>t. t < 6 \<Longrightarrow> t div 2 \<in> D \<Longrightarrow> state_of s t = TASK_DEAD"
    "\<And>t. t < 6 \<Longrightarrow> t div 2 \<notin> D \<Longrightarrow> runnable s t \<and> (t \<noteq> c \<longrightarrow> (\<exists>y. resume_at (threads s ! t) = ToUser y))"
    using cr unfolding crashing_def by auto
  have th: "threads s1 ! t = (if t div 2 = c div 2 then (threads s ! t)\<lparr>t_state := TASK_DEAD\<rparr> else threads s ! t)" if "t < 6" for t
    using s1(3) that by (simp add: retired_def)
  have run: "runnable s1 t \<longleftrightarrow> t div 2 \<notin> ?D" if "t < 6" for t
    using al th that by (auto simp: runnable_def)
  from l i c1 show ?thesis
  proof (cases rule: schedule_cases [where k = AfterFault])
    case (switch t)
    let ?s = "s1\<lparr>need_reschedule := False, wake_hint := None\<rparr>"
    have ct: "c < length (threads ?s)" "t < length (threads ?s)" "c \<noteq> t"
      using switch c layout_lengths [OF l] by auto
    have tD: "t div 2 \<notin> ?D" "t div 2 < 3" using run switch by (simp_all add: less_mult_imp_div_less)
    then obtain y where y: "resume_at (threads s1 ! t) = ToUser y"
      using al(2) [of t] th [of t] switch by auto
    have sw: "schedule AfterFault s1 = perform_switch c t AfterFault ?s" using switch by simp
    have "(u div 2 \<in> ?D \<longrightarrow> state_of (schedule AfterFault s1) u = TASK_DEAD) \<and>
        (u div 2 \<notin> ?D \<longrightarrow> runnable (schedule AfterFault s1) u \<and> (u \<noteq> t \<longrightarrow> (\<exists>y. resume_at (threads (schedule AfterFault s1) ! u) = ToUser y)))"
      if u: "u < 6" for u
      using perform_switch_threads [OF ct, of AfterFault u] run [OF u] al [OF u] th [OF u] th [OF c] tD
      by (auto simp: sw runnable_def)
    then have "crashing ?D (schedule AfterFault s1)"
      using after tD y perform_switch_machine(1) [OF ct, of AfterFault] by (auto simp: crashing_def sw)
    then show ?thesis using tD by auto
  next
    case stay
    have False if "j < 3" "j \<notin> ?D" for j
    proof -
      have "2 * j \<noteq> c" using that(2) by auto
      then show False using stay(3) [of "2 * j"] run [of "2 * j"] that by simp
    qed
    then show ?thesis using stay(4) by auto
  qed (use nr in simp)
qed

lemma crashing_step:
  assumes "crashing D s" "current s = Some c"
  shows "c div 2 < 3" "c div 2 \<notin> D" and "\<exists>s'. kstep s UndefinedInstr s' \<and>
    (if \<exists>j < 3. j \<notin> insert (c div 2) D then crashing (insert (c div 2) D) s' else cpu s' = AfterFault)"
proof -
  from assms obtain x where k: "kinv Qemu s" "rx s = uart_rx_init" "c div 2 \<notin> D" "cpu s = ToUser x"
    unfolding crashing_def by auto
  then show "c div 2 \<notin> D" by simp
  have "c < 6" using k assms(2) by (metis kinvD option.inject)
  then show "c div 2 < 3" by (simp add: less_mult_imp_div_less)
  have st: "kstep s UndefinedInstr (handle_undefined x s)" using k(4) by (rule kstep.undefined_instr)
  from fault_shape [OF k(1) st _ assms(2)] obtain s1 where s1: "handle_undefined x s = schedule AfterFault s1"
    "keeps Qemu c s s1" "sched_arg c AfterFault s1" "retired c s s1" by auto
  have "kinv Qemu (schedule AfterFault s1)" "rx (schedule AfterFault s1) = uart_rx_init"
    using kstep_inv [OF st k(1)] handle_undefined_rx [of x s] k(2) s1(1) by simp_all
  from crashed_schedule [OF assms s1(2-4) this] st show "\<exists>s'. kstep s UndefinedInstr s' \<and>
      (if \<exists>j < 3. j \<notin> insert (c div 2) D then crashing (insert (c div 2) D) s' else cpu s' = AfterFault)"
    unfolding s1(1) by blast
qed

lemma crashing_current: "crashing D s \<Longrightarrow> \<exists>c. current s = Some c"
  by (auto simp: crashing_def)

lemma crashing_booted:
  "tables_built Qemu sample_link sample_images tb \<Longrightarrow> crashing {} (booted Qemu sample_link sample_images co mem tb)"
  using booted_kinv [OF sample_link_ok] by (simp add: crashing_def booted_thread runnable_def)

lemma all_three: "i < 3 \<Longrightarrow> j < 3 \<Longrightarrow> k < 3 \<Longrightarrow> j \<noteq> i \<Longrightarrow> k \<noteq> i \<Longrightarrow> k \<noteq> j \<Longrightarrow> \<not> (\<exists>l < 3. l \<notin> {k, j, i :: nat})"
  by auto

lemma two_of_three: "i < 3 \<Longrightarrow> j < 3 \<Longrightarrow> \<exists>l < 3. l \<notin> {j, i :: nat}"
  using less_3_cases [of i] less_3_cases [of j] by (auto simp: numeral_3_eq_3 less_Suc_eq)

lemma crashed_one: "\<exists>s. reachable Qemu s \<and> crashing {0} s"
proof -
  obtain co mem tb where r: "reachable Qemu (booted Qemu sample_link sample_images co mem tb)"
      "tables_built Qemu sample_link sample_images tb"
    using booted_reachable by blast
  have "\<exists>j < 3. j \<notin> insert ((0::nat) div 2) {}" by (intro exI [of _ 1]) simp
  with crashing_step(3) [OF crashing_booted [OF r(2)] booted_fields(1)] show ?thesis
    using reachable_step [OF r(1)] by (metis div_0)
qed

lemma crashed_two:
  "\<exists>s i. reachable Qemu s \<and> i < 3 \<and> i \<noteq> 0 \<and> crashing {i, 0} s"
proof -
  obtain s c where s: "reachable Qemu s" "crashing {0} s" "current s = Some c" using crashed_one crashing_current by blast
  note st = crashing_step [OF s(2,3)]
  have "\<exists>j < 3. j \<notin> {c div 2, 0}" using two_of_three [OF _ st(1), of 0] by simp
  with st(3) obtain s' where "kstep s UndefinedInstr s'" "crashing {c div 2, 0} s'" by auto
  then show ?thesis using st(1,2) reachable_step [OF s(1)] by blast
qed

lemma crashed_three: "\<exists>s. reachable Qemu s \<and> cpu s = AfterFault"
proof -
  obtain s i c where s: "reachable Qemu s" "i < 3" "i \<noteq> 0" "crashing {i, 0} s" "current s = Some c"
    using crashed_two crashing_current by blast
  note st = crashing_step [OF s(4,5)]
  have "\<not> (\<exists>l < 3. l \<notin> {c div 2, i, 0})" using all_three [of 0 i "c div 2"] s(2,3) st(1,2) by auto
  with st(3) obtain s' where "kstep s UndefinedInstr s'" "cpu s' = AfterFault" by auto
  then show ?thesis using reachable_step [OF s(1)] by blast
qed

section \<open>A single thread left\<close>

definition call_ctx :: "u32 \<Rightarrow> u32 \<Rightarrow> u32 \<Rightarrow> exception_context" where
  "call_ctx num a1 a2 = \<lparr>ec_spsr = 0x10, ec_r = [0, a1, a2, 0, 0, 0, 0, num, 0, 0, 0, 0, 0], ec_lr = 0x40000100\<rparr>"

lemma call_ctx_simps [simp]:
  "user_ctx (call_ctx num a1 a2)" "ec_r (call_ctx num a1 a2) ! 7 = num" "ec_r (call_ctx num a1 a2) ! Suc 0 = a1"
  "ec_r (call_ctx num a1 a2) ! 2 = a2"
  by (simp_all add: call_ctx_def user_ctx_def)

lemma user_call:
  assumes "reachable p s" "cpu s = ToUser x" "user_ctx y"
  shows "reachable p (s\<lparr>cpu := ToUser y\<rparr>)"
proof -
  have "kstep s (UserRun [] y (sp_usr s) (lr_usr s)) (s\<lparr>cpu := ToUser y, sp_usr := sp_usr s, lr_usr := lr_usr s\<rparr>)"
    using assms by (intro kstep.user) auto
  then show ?thesis using reachable_step [OF assms(1)] by simp
qed

definition lonely :: "kstate \<Rightarrow> tptr \<Rightarrow> bool" where
  "lonely s c \<longleftrightarrow> reachable Qemu s \<and> current s = Some c \<and> (\<exists>x. cpu s = ToUser x) \<and> rx s = uart_rx_init \<and>
     (\<forall>t < 6. t \<noteq> c \<longrightarrow> \<not> runnable s t)"

lemma exit_svc:
  assumes l: "kernel_layout p s" and i: "core_inv s" and cur: "current s = Some c" and x: "ec_r x ! 7 = 3"
  shows "\<exists>msg. handle_svc x s = schedule (ToUser (set_r0 0 x)) (scheduler_request_resched (kputs msg (set_state c TASK_DEAD s))) \<and>
    sys_keeps p c s (scheduler_request_resched (kputs msg (set_state c TASK_DEAD s)))"
proof -
  have c: "c < 6" using core_invD(1) [OF i cur] .
  obtain msg where e: "sys_exit (ec_r x ! 0) (ec_r x ! 1) (ec_r x ! 2) (ec_r x ! 3) s =
      (Ret 0, scheduler_request_resched (kputs msg (set_state c TASK_DEAD s)))"
    using sys_exit_spec [OF l cur c] by blast
  then have "handle_svc x s = schedule (ToUser (set_r0 0 x)) (scheduler_request_resched (kputs msg (set_state c TASK_DEAD s)))"
    using x by (simp add: handle_svc_def dispatch_handler handler_result_def syscall_table_eq)
  moreover have "sys_keeps p c s (scheduler_request_resched (kputs msg (set_state c TASK_DEAD s)))"
    using sys_keeps_refl [OF l i cur] c by (simp add: sys_keeps_resched sys_keeps_kputs sys_keeps_dead)
  ultimately show ?thesis by blast
qed

lemma siblings:
  assumes "c < 6" "t < 6" "t \<noteq> c" "i < 3" "j < 3" "i \<noteq> j" "c div 2 \<notin> {j, i}" "t div 2 \<notin> {j, i}" "u < 6" "u div 2 \<notin> {j, i :: nat}"
  shows "u = c \<or> u = t"
proof -
  have "c div 2 < 3" "t div 2 < 3" "u div 2 < 3" using assms by (simp_all add: less_mult_imp_div_less)
  then have "c div 2 = t div 2" "u div 2 = c div 2" using assms by auto
  with assms(3) show ?thesis by (metis (no_types, opaque_lifting) div_mult_mod_eq mod2_eq_if)
qed

text \<open>When the thread \<open>c\<close> has died and the CPU goes to its sibling \<open>t\<close>, nothing else can run: all other threads were dead before.\<close>

lemma only_sibling_runs:
  assumes ids: "c < 6" "t < 6" "t \<noteq> c" "i < 3" "j < 3" "i \<noteq> j" "c div 2 \<notin> {j, i}" "t div 2 \<notin> {j, i}"
    and dead: "\<And>u. u < 6 \<Longrightarrow> u div 2 \<in> {j, i} \<Longrightarrow> \<not> runnable s u" "state_of s c = TASK_DEAD"
    and len: "c < length (threads s)" "t < length (threads s)" and u: "u < 6" "u \<noteq> t"
  shows "\<not> runnable (perform_switch c t k s) u"
proof (cases "u div 2 \<in> {j, i}")
  case True
  then have "u \<noteq> c" using ids(7) by auto
  then show ?thesis using dead(1) [OF u(1) True] u(2) perform_switch_threads [OF len ids(3) [symmetric], of k u]
    by (auto simp: runnable_def)
next
  case False
  then have "u = c" using siblings [OF ids u(1) False] u(2) by simp
  then show ?thesis using dead(2) perform_switch_threads [OF len ids(3) [symmetric], of k u] by (auto simp: runnable_def)
qed

lemma lonely_exists: "\<exists>s c. lonely s c"
proof -
  obtain s0 i j where s0: "reachable Qemu s0" "i < 3" "j < 3" "j \<noteq> i" "crashing {j, i} s0"
    using crashed_two zero_less_numeral by blast
  then obtain c x where cx: "current s0 = Some c" "c div 2 \<notin> {j, i}" "cpu s0 = ToUser x" "rx s0 = uart_rx_init"
    and dd: "\<forall>t < 6. t div 2 \<in> {j, i} \<longrightarrow> state_of s0 t = TASK_DEAD"
    and al2: "\<And>t. t < 6 \<Longrightarrow> t div 2 \<notin> {j, i} \<Longrightarrow> runnable s0 t \<and> (t \<noteq> c \<longrightarrow> (\<exists>y. resume_at (threads s0 ! t) = ToUser y))"
    unfolding crashing_def by auto
  have al1: "\<not> runnable s0 t" if "t < 6" "t div 2 \<in> {j, i}" for t
    using dd that by (auto simp: runnable_def)
  let ?x = "call_ctx 3 0 0"
  define s where "s = s0\<lparr>cpu := ToUser ?x\<rparr>"
  have r: "reachable Qemu s" unfolding s_def by (rule user_call [OF s0(1) cx(3)]) simp
  have k: "kinv Qemu s" by (rule reachable_inv(1) [OF r])
  then have l: "kernel_layout Qemu s" and ci: "core_inv s" by (simp_all add: kinv_def)
  have cur: "current s = Some c" using cx by (simp add: s_def)
  have c: "c < 6" using core_invD(1) [OF ci cur] .
  have cl: "c < length (threads s)" using c layout_lengths [OF l] by simp
  obtain msg where h: "handle_svc ?x s = schedule (ToUser (set_r0 0 ?x)) (scheduler_request_resched (kputs msg (set_state c TASK_DEAD s)))"
    and kp: "sys_keeps Qemu c s (scheduler_request_resched (kputs msg (set_state c TASK_DEAD s)))"
    using exit_svc [OF l ci cur, of ?x] by auto
  let ?s1 = "scheduler_request_resched (kputs msg (set_state c TASK_DEAD s))"
  have P: "kernel_layout Qemu ?s1" "core_inv ?s1" "current ?s1 = Some c" using kp by (simp_all add: sys_keeps_defs)
  have th: "threads ?s1 ! u = (if u = c then (threads s0 ! c)\<lparr>t_state := TASK_DEAD\<rparr> else threads s0 ! u)" for u
    using nth_set_state [OF cl] by (simp add: scheduler_request_resched_def s_def)
  have st: "kstep s Svc (handle_svc ?x s)" by (rule kstep.svc) (simp add: s_def)
  have sib: "\<exists>u < 6. u \<noteq> c \<and> u div 2 \<notin> {j, i}"
    using cx(2) c by (intro exI [of _ "if even c then c + 1 else c - 1"]) (auto elim!: oddE evenE)
  from P show ?thesis
  proof (cases rule: schedule_cases [where k = "ToUser (set_r0 0 ?x)"])
    case (switch t)
    let ?s2 = "?s1\<lparr>need_reschedule := False, wake_hint := None\<rparr>"
    have ct: "c < length (threads ?s2)" "t < length (threads ?s2)" "c \<noteq> t"
      using switch c layout_lengths [OF P(1)] by auto
    have tD: "t div 2 \<notin> {j, i}" "runnable s0 t" using al1 [OF switch(1)] switch(2,3) th by (auto simp: runnable_def)
    obtain y where y: "resume_at (threads s0 ! t) = ToUser y" using al2 [OF switch(1) tD(1)] switch(2) by auto
    have "\<not> runnable ?s2 u" if "u < 6" "u div 2 \<in> {j, i}" for u using al1 [OF that] th by (auto simp: runnable_def)
    from only_sibling_runs [OF c switch(1,2) s0(2,3) s0(4) [symmetric] cx(2) tD(1) this _ ct(1,2)]
    have "\<not> runnable (handle_svc ?x s) u" if "u < 6" "u \<noteq> t" for u
      unfolding h switch(6) using that th by simp
    moreover have "cpu (handle_svc ?x s) = ToUser y" "current (handle_svc ?x s) = Some t"
      using perform_switch_machine(1) [OF ct] switch th y by (simp_all add: h)
    moreover have "rx (handle_svc ?x s) = uart_rx_init"
      unfolding h schedule_frame by (simp add: scheduler_request_resched_def) (simp add: s_def cx(4))
    ultimately show ?thesis using reachable_step [OF r st] by (auto simp: lonely_def)
  next
    case stay
    from sib obtain u where u: "u < 6" "u \<noteq> c" "u div 2 \<notin> {j, i}" by blast
    then show ?thesis using stay(3) [OF u(1,2)] al2 [OF u(1,3)] th by (simp add: runnable_def)
  next
    case none
    then show ?thesis by (simp add: scheduler_request_resched_def)
  qed
qed

section \<open>Threads that wait for input\<close>

text \<open>A read of one byte to the start of the caller's memory.\<close>

abbreviation read_ctx1 :: exception_context where
  "read_ctx1 \<equiv> call_ctx 4 0x40000000 1"

lemma read_svc:
  assumes "ec_r x ! 7 = 4" "valid_user_ptr (ec_r x ! 1) (ec_r x ! 2)" "ec_r x ! 2 \<noteq> 0" "uart_rx_empty (rx s)"
  shows "handle_svc x s = scheduler_block_on_input (InSysRead x) s"
  using assms sys_read_waits [OF assms(2-4)]
  by (simp add: handle_svc_def dispatch_handler handler_result_def syscall_table_eq)

lemma read_ctx1_svc:
  assumes "rx s = uart_rx_init" "current s = Some c"
  shows "handle_svc read_ctx1 s = schedule (InSysRead read_ctx1)
    ((set_state c TASK_BLOCKED s)\<lparr>waitq := waitq_push c (waitq s), need_reschedule := True\<rparr>)"
proof -
  have "valid_user_ptr 0x40000000 1" by (simp add: valid_user_ptr_nat)
  then show ?thesis
    using assms read_svc [of read_ctx1 s] by (simp add: uart_rx_empty_def uart_rx_init_def scheduler_block_on_input_def)
qed

text \<open>The state in which threads 0 to \<open>c - 1\<close> have blocked in \<open>sys_read\<close>, in this order, and
  thread \<open>c\<close> is about to run in user mode.\<close>

definition readers :: "nat \<Rightarrow> kstate \<Rightarrow> bool" where
  "readers c s \<longleftrightarrow> reachable Qemu s \<and> current s = Some c \<and> (\<exists>x. cpu s = ToUser x) \<and> rx s = uart_rx_init \<and>
     irq_table s = irq_lines qemu_board \<and> wake_hint s = None \<and> waitq_list (waitq s) = [0..<c] \<and>
     (\<forall>t < 6. if t < c then state_of s t = TASK_BLOCKED \<and> resume_at (threads s ! t) = InSysRead read_ctx1
        else runnable s t \<and> (t \<noteq> c \<longrightarrow> (\<exists>y. resume_at (threads s ! t) = ToUser y)))"

lemma readers_booted: "\<exists>s. readers 0 s"
proof -
  obtain co mem tb where "reachable Qemu (booted Qemu sample_link sample_images co mem tb)"
    using booted_reachable by blast
  then have "readers 0 (booted Qemu sample_link sample_images co mem tb)"
    by (simp add: readers_def booted_thread runnable_def)
  then show ?thesis by blast
qed

lemma next_thread_succ:
  assumes "c < 5" "wake_hint s = None" "runnable s (Suc c)"
  shows "next_thread s c = Some (Suc c)"
  using assms by (simp add: next_thread_def upt_rec)

lemma readers_step:
  assumes "readers c s" "c < 5"
  shows "\<exists>s'. readers (Suc c) s'"
proof -
  from assms(1) obtain x where r: "reachable Qemu s" "current s = Some c" "cpu s = ToUser x" "rx s = uart_rx_init"
      "irq_table s = irq_lines qemu_board" "wake_hint s = None" "waitq_list (waitq s) = [0..<c]"
    and th: "\<And>t. t < 6 \<Longrightarrow> t < c \<Longrightarrow> state_of s t = TASK_BLOCKED \<and> resume_at (threads s ! t) = InSysRead read_ctx1"
      "\<And>t. t < 6 \<Longrightarrow> \<not> t < c \<Longrightarrow> runnable s t \<and> (t \<noteq> c \<longrightarrow> (\<exists>y. resume_at (threads s ! t) = ToUser y))"
    unfolding readers_def by metis
  define s0 where "s0 = s\<lparr>cpu := ToUser read_ctx1\<rparr>"
  have r0: "reachable Qemu s0" unfolding s0_def by (rule user_call [OF r(1,3)]) simp
  have f: "current s0 = Some c" "rx s0 = uart_rx_init" "threads s0 = threads s" "waitq s0 = waitq s" "wake_hint s0 = None"
      "irq_table s0 = irq_lines qemu_board"
    using r by (simp_all add: s0_def)
  have l: "kernel_layout Qemu s0" and i: "core_inv s0" using reachable_inv(1) [OF r0] by (simp_all add: kinv_def)
  have cl: "c < length (threads s0)" "Suc c < length (threads s0)" using assms(2) layout_lengths [OF l] by auto
  let ?s = "(set_state c TASK_BLOCKED s0)\<lparr>waitq := waitq_push c (waitq s0), need_reschedule := True\<rparr>"
  let ?s2 = "?s\<lparr>need_reschedule := False, wake_hint := None\<rparr>"
  have kp: "keeps Qemu c s0 ?s" by (rule block_keeps [OF l i f(1)])
  have "runnable ?s (Suc c)"
    using th(2) [of "Suc c"] assms(2) by (simp add: runnable_def nth_set_state [OF cl(1)] f)
  then have nx: "next_thread ?s c = Some (Suc c)" using assms(2) f by (intro next_thread_succ) auto
  have tc: "tid (threads ?s ! c) = of_nat c"
    using layout_thread [of Qemu ?s c] kp assms(2) by (simp add: keeps_def)
  have sw: "handle_svc read_ctx1 s0 = perform_switch c (Suc c) (InSysRead read_ctx1) ?s2"
    using schedule_next [OF _ _ _ tc, of "InSysRead read_ctx1"] assms(2) nx f
    by (simp add: read_ctx1_svc [OF f(2,1)])
  have ct: "c < length (threads ?s2)" "Suc c < length (threads ?s2)" "c \<noteq> Suc c" using cl by auto
  have "readers (Suc c) (handle_svc read_ctx1 s0)"
    unfolding readers_def
  proof (intro conjI allI impI)
    show "reachable Qemu (handle_svc read_ctx1 s0)"
      by (rule reachable_step [OF r0 kstep.svc]) (simp add: s0_def)
    show "current (handle_svc read_ctx1 s0) = Some (Suc c)" "rx (handle_svc read_ctx1 s0) = uart_rx_init"
      "irq_table (handle_svc read_ctx1 s0) = irq_lines qemu_board" "wake_hint (handle_svc read_ctx1 s0) = None"
      by (simp_all add: sw f)
    show "\<exists>x. cpu (handle_svc read_ctx1 s0) = ToUser x"
      using th(2) [of "Suc c"] assms(2) perform_switch_machine(1) [OF ct, of "InSysRead read_ctx1"]
      by (simp add: sw nth_set_state [OF cl(1)] f)
    show "waitq_list (waitq (handle_svc read_ctx1 s0)) = [0..<Suc c]"
      using waitq_push_list [OF core_invD(4) [OF i f(1)], of c] assms(2) r(7) by (simp add: sw f)
  next
    fix t :: nat assume t: "t < 6"
    show "if t < Suc c then state_of (handle_svc read_ctx1 s0) t = TASK_BLOCKED \<and>
        resume_at (threads (handle_svc read_ctx1 s0) ! t) = InSysRead read_ctx1
      else runnable (handle_svc read_ctx1 s0) t \<and>
        (t \<noteq> Suc c \<longrightarrow> (\<exists>y. resume_at (threads (handle_svc read_ctx1 s0) ! t) = ToUser y))"
      using th [OF t] perform_switch_threads [OF ct, of "InSysRead read_ctx1" t]
      by (auto simp: sw runnable_def nth_set_state [OF cl(1)] f less_Suc_eq)
  qed
  then show ?thesis by blast
qed

lemma readers_exist: "c < 6 \<Longrightarrow> \<exists>s. readers c s"
proof (induction c)
  case 0
  then show ?case using readers_booted by simp
next
  case (Suc c)
  then show ?case using readers_step [of c] by auto
qed

text \<open>The last runnable thread calls \<open>sys_read\<close>.\<close>

lemma lonely_read:
  assumes "lonely s c"
  shows "\<exists>s'. reachable Qemu s' \<and> current s' = Some c \<and> cpu s' = InSysRead read_ctx1 \<and> uart_rx_empty (rx s') \<and>
    (\<forall>t < 6. t \<noteq> c \<longrightarrow> \<not> runnable s' t)"
proof -
  from assms obtain x where s: "reachable Qemu s" "current s = Some c" "cpu s = ToUser x" "rx s = uart_rx_init"
      "\<And>t. t < 6 \<Longrightarrow> t \<noteq> c \<Longrightarrow> \<not> runnable s t"
    unfolding lonely_def by auto
  define s0 where "s0 = s\<lparr>cpu := ToUser read_ctx1\<rparr>"
  have r0: "reachable Qemu s0" unfolding s0_def by (rule user_call [OF s(1,3)]) simp
  have f: "current s0 = Some c" "rx s0 = uart_rx_init" "threads s0 = threads s" using s by (simp_all add: s0_def)
  have l: "kernel_layout Qemu s0" and i: "core_inv s0" using reachable_inv(1) [OF r0] by (simp_all add: kinv_def)
  have cl: "c < length (threads s0)" using core_invD(1) [OF i f(1)] layout_lengths [OF l] by simp
  let ?s = "(set_state c TASK_BLOCKED s0)\<lparr>waitq := waitq_push c (waitq s0), need_reschedule := True\<rparr>"
  have P: "kernel_layout Qemu ?s" "core_inv ?s" "current ?s = Some c"
    using block_keeps [OF l i f(1)] by (simp_all add: keeps_def)
  have run: "\<not> runnable ?s t" if "t < 6" for t
    using s(5) [OF that] by (auto simp: runnable_def nth_set_state [OF cl] f)
  from P have "schedule (InSysRead read_ctx1) ?s = ?s\<lparr>need_reschedule := False, wake_hint := None, cpu := InSysRead read_ctx1\<rparr>"
  proof (cases rule: schedule_cases [where k = "InSysRead read_ctx1"])
    case (switch t)
    with run show ?thesis by blast
  qed simp_all
  then have h: "handle_svc read_ctx1 s0 = ?s\<lparr>need_reschedule := False, wake_hint := None, cpu := InSysRead read_ctx1\<rparr>"
    by (simp add: read_ctx1_svc [OF f(2,1)])
  have "reachable Qemu (handle_svc read_ctx1 s0)" by (rule reachable_step [OF r0 kstep.svc]) (simp add: s0_def)
  moreover have "\<not> runnable (handle_svc read_ctx1 s0) t" if "t < 6" for t using run [OF that] by (simp add: h runnable_def)
  ultimately show ?thesis using f(1,2) by (intro exI [of _ "handle_svc read_ctx1 s0"]) (simp add: h uart_rx_empty_def uart_rx_init_def)
qed

end
