(* ===== verification/Kernel_Frame.thy ===== *)
theory Kernel_Frame
  imports System
begin

text \<open>
  What the kernel leaves alone, as an interface. The handlers change the state through a few kinds of
  updates only: the state and the saved context of a thread, the scheduling variables, the registers, user memory, the end of the
  console output. A predicate that these updates keep is kept by every handler; the locale \<open>kernel_frame\<close> proves it once, for
  all of them. It leaves out the receive ring and the tick counter, which \<open>kernel_frame_rx\<close> and \<open>kernel_frame_all\<close> add; the last one
  covers every step of the system.
\<close>

text \<open>What identifies a thread.\<close>

type_synonym thread_id = "nat \<times> u32 \<times> u32 \<times> u32 \<times> u32 \<times> u32"

definition thread_static :: "thread \<Rightarrow> thread_id" where
  "thread_static th = (t_proc th, tid th, t_index th, kstack_base th, kstack_size th, user_stack_top th)"

lemma thread_static_upd [simp]:
  "thread_static (th\<lparr>t_state := st\<rparr>) = thread_static th"
  "thread_static (th\<lparr>ctx := cx\<rparr>) = thread_static th"
  "thread_static (th\<lparr>resume_at := k\<rparr>) = thread_static th"
  by (simp_all add: thread_static_def)

text \<open>The state inside the progress of \<open>sys_ps\<close>.\<close>

primrec ps_state_of :: "ps_progress \<Rightarrow> kstate" where
  "ps_state_of (Go n s) = s"
| "ps_state_of (Brk n s) = s"
| "ps_state_of (PsAbort s) = s"

text \<open>A system call that is in the table.\<close>

lemma dispatch_uses_table:
  assumes "\<And>f. Some f \<in> set syscall_table \<Longrightarrow> I (snd (f (ec_r x ! 0) (ec_r x ! 1) (ec_r x ! 2) (ec_r x ! 3) s))" "I s"
  shows "I (snd (syscall_dispatch x s))"
proof -
  have "syscall_table ! unat (ec_r x ! 7) \<in> set syscall_table" if "ec_r x ! 7 < NR_SYSCALLS"
    using that by (intro nth_mem) (simp add: syscall_table_def word_less_nat_alt)
  then have "I s'" if "ec_r x ! 7 < NR_SYSCALLS" "syscall_table ! unat (ec_r x ! 7) = Some f"
      "f (ec_r x ! 0) (ec_r x ! 1) (ec_r x ! 2) (ec_r x ! 3) s = (r, s')" for f r s'
    using assms(1) [of f] that by (metis snd_conv)
  then show ?thesis
    using assms(2) by (auto simp: syscall_dispatch_def Let_def split: option.split prod.split sys_result.split)
qed

section \<open>Everything but input and time\<close>

locale kernel_frame =
  fixes I :: "kstate \<Rightarrow> bool"
  assumes upd_thread_I: "I s \<Longrightarrow> (\<And>th. thread_static (f th) = thread_static th) \<Longrightarrow> I (upd_thread t f s)"
    and sched_I: "I s \<Longrightarrow> I (s\<lparr>current := c\<rparr>)" "I s \<Longrightarrow> I (s\<lparr>need_reschedule := b\<rparr>)" "I s \<Longrightarrow> I (s\<lparr>switch_count := n\<rparr>)"
      "I s \<Longrightarrow> I (s\<lparr>waitq := q\<rparr>)" "I s \<Longrightarrow> I (s\<lparr>wake_hint := h\<rparr>)"
    and machine_I: "I s \<Longrightarrow> I (s\<lparr>eois := es\<rparr>)" "I s \<Longrightarrow> I (s\<lparr>ttbr0 := tt\<rparr>)" "I s \<Longrightarrow> I (s\<lparr>sp_usr := sp\<rparr>)"
      "I s \<Longrightarrow> I (s\<lparr>lr_usr := lr\<rparr>)" "I s \<Longrightarrow> I (s\<lparr>pmem := mem\<rparr>)" "I s \<Longrightarrow> I (s\<lparr>cpu := k\<rparr>)"
      "I s \<Longrightarrow> I (s\<lparr>undefined_behaviour := ub\<rparr>)"
    and console_I: "I s \<Longrightarrow> I (s\<lparr>console_out := console_out s @ out\<rparr>)"
begin

lemmas upd_I = sched_I machine_I console_I

lemma print_I: "I s \<Longrightarrow> I (kputs cs s)" "I s \<Longrightarrow> I (kprintf f a s)"
  by (auto simp: kputs_def kprintf_def intro: upd_I split: option.split)

lemma set_state_I: "I s \<Longrightarrow> I (set_state t st s)"
  unfolding set_state_def by (rule upd_thread_I) simp_all

lemma resched_I: "I s \<Longrightarrow> I (scheduler_request_resched s)" "I s \<Longrightarrow> I (scheduler_tick s)"
  by (simp_all add: scheduler_request_resched_def scheduler_tick_def upd_I)

lemma context_switch_I: "I s \<Longrightarrow> I (context_switch p n k s)"
proof -
  have "I s \<Longrightarrow> I (save_prev t k s)" for t s unfolding save_prev_def by (rule upd_thread_I) simp_all
  then show "I s \<Longrightarrow> I (context_switch p n k s)"
    by (auto simp: context_switch_def load_next_def switch_mm_def Let_def intro!: upd_I split: option.split)
qed

lemma schedule_I: "I s \<Longrightarrow> I (schedule k s)"
  by (auto simp: schedule_def perform_switch_def Let_def intro!: upd_I set_state_I context_switch_I split: option.split)

lemma block_I: "I s \<Longrightarrow> I (scheduler_block_on_input k s)"
  by (auto simp: scheduler_block_on_input_def intro!: upd_I set_state_I schedule_I split: option.split)

lemma wake_reader_I: "I s \<Longrightarrow> I (scheduler_wake_reader s)"
proof (induction s rule: scheduler_wake_reader.induct)
  case (1 s)
  have "I (s\<lparr>waitq := q\<rparr>)" for q using "1.prems" by (rule sched_I)
  with "1.IH" show ?case
    by (subst scheduler_wake_reader.simps) (auto simp: Let_def intro!: sched_I(2,5) set_state_I split: prod.split option.split)
qed

lemma retire_I: "I s \<Longrightarrow> I (retire_threads ts s)"
  unfolding retire_threads_def by (induction ts arbitrary: s) (auto intro: set_state_I split: option.split)

lemma kstore_I: "I s \<Longrightarrow> kstore va c s = Some s' \<Longrightarrow> I s'"
  by (auto simp: kstore_def intro: upd_I)

lemma write_loop_I: "I s \<Longrightarrow> I (snd (write_loop n a s))"
  by (induction n arbitrary: a s) (auto intro: print_I split: option.split)

lemma ps_then_I: "I (ps_state_of r) \<Longrightarrow> (\<And>n s. I s \<Longrightarrow> I (ps_state_of (f n s))) \<Longrightarrow> I (ps_state_of (ps_then r f))"
  by (cases r) auto

lemma ps_store_I: "I s \<Longrightarrow> I (ps_state_of (ps_store out c n s))" "I s \<Longrightarrow> I (ps_state_of (ps_checked out sz c n s))"
  by (auto simp: ps_checked_def ps_store_def intro: kstore_I split: option.split)

lemma ps_chars_I: "I s \<Longrightarrow> I (ps_state_of (ps_chars out sz cs n s))"
  by (induction out sz cs n s rule: ps_chars.induct) (auto intro!: ps_then_I ps_store_I)

lemma ps_loop_I: "I s \<Longrightarrow> I (ps_state_of (ps_loop out sz is n s))"
proof (induction out sz "is" n s rule: ps_loop.induct)
  case (2 out sz i "is" n s)
  then show ?case by (auto simp: ps_thread_def Let_def intro!: ps_then_I ps_chars_I ps_store_I)
qed simp

lemma syscalls_I:
  assumes "I s"
  shows "I (snd (sys_write a b c d s))" "I (snd (sys_getpid a b c d s))" "I (snd (sys_yield a b c d s))"
    "I (snd (sys_exit a b c d s))" "I (snd (sys_ps a b c d s))" "I (snd (sys_kill a b c d s))" "I (snd (sys_ticks a b c d s))"
proof -
  show "I (snd (sys_write a b c d s))"
    using assms write_loop_I [OF assms, of "unat c" b] by (auto simp: sys_write_def split: prod.split bool.split)
  show "I (snd (sys_ps a b c d s))"
    using assms ps_loop_I [OF assms, of a b "[0..<num_threads]" 0]
    by (cases "ps_loop a b [0..<num_threads] 0 s") (simp_all add: sys_ps_def)
qed (use assms in \<open>auto simp: sys_getpid_def sys_yield_def sys_exit_def sys_kill_def sys_ticks_def Let_def
      intro!: print_I set_state_I resched_I retire_I split: option.split\<close>)

lemma fault_I: "I s \<Longrightarrow> I (halt_forever s)" "I s \<Longrightarrow> I (dump_context x s)" "I s \<Longrightarrow> I (kernel_abort s)"
  "I s \<Longrightarrow> I (user_fault_panic s)" "I s \<Longrightarrow> I (user_fault_kill kd s)"
  by (auto simp: halt_forever_def dump_context_def kernel_abort_def user_fault_panic_def user_fault_kill_def Let_def
      intro!: upd_I print_I schedule_I resched_I retire_I split: option.split)

lemma handle_fault_I: "I s \<Longrightarrow> I (handle_data_abort fs fa x s)" "I s \<Longrightarrow> I (handle_prefetch_abort fs fa x s)"
  "I s \<Longrightarrow> I (handle_undefined x s)"
  by (auto simp: handle_data_abort_def handle_prefetch_abort_def handle_undefined_def intro!: fault_I print_I)

lemma user_stores_I: "I s \<Longrightarrow> user_stores ws s = Some s' \<Longrightarrow> I s'"
  by (induction ws arbitrary: s) (auto intro: upd_I split: option.splits)

lemma dispatch_not_read_I:
  assumes "I s" "ec_r x ! 7 \<noteq> 4"
  shows "I (snd (syscall_dispatch x s))"
proof -
  have "I (snd (handler_result x s))" if n: "ec_r x ! 7 < 8"
  proof -
    have u: "unat (ec_r x ! 7) < 8" "unat (ec_r x ! 7) \<noteq> 4" using n assms(2) by (simp_all add: word_less_nat_alt word_unat_eq_iff)
    from less_8_cases [OF u(1)] u(2) show ?thesis
      unfolding handler_result_def syscall_table_eq by (elim disjE) (simp_all add: syscalls_I [OF assms(1)])
  qed
  then show ?thesis using assms(1)
    by (cases "handler_result x s"; cases "fst (handler_result x s)") (auto simp: dispatch_handler)
qed

text \<open>How a handler ends.\<close>

lemma svc_ends_I: "I (snd (syscall_dispatch x s)) \<Longrightarrow> I (handle_svc x s)"
  unfolding handle_svc_def
  by (cases "syscall_dispatch x s"; cases "fst (syscall_dispatch x s)") (auto intro: schedule_I block_I fault_I)

lemma read_ends_I: "I (snd (read_loop (unat (ec_r x ! 2)) (ec_r x ! 1) 0 s)) \<Longrightarrow> I (resume_read x s)"
  unfolding resume_read_def
  by (cases "read_loop (unat (ec_r x ! 2)) (ec_r x ! 1) 0 s";
      cases "fst (read_loop (unat (ec_r x ! 2)) (ec_r x ! 1) 0 s)") (auto intro: schedule_I block_I fault_I)

end

section \<open>Input\<close>

locale kernel_frame_rx = kernel_frame +
  assumes rx_I: "I s \<Longrightarrow> I (s\<lparr>rx := r\<rparr>)"
begin

lemma read_loop_I: "I s \<Longrightarrow> I (snd (read_loop n buf m s))"
proof (induction n arbitrary: m s)
  case (Suc n)
  then show ?case by (auto simp: Let_def intro: rx_I kstore_I [OF rx_I] split: prod.split option.split)
qed simp

lemma dispatch_I: "I s \<Longrightarrow> I (snd (syscall_dispatch x s))"
proof -
  assume s: "I s"
  then have "I (snd (sys_read a b c d s))" for a b c d by (simp add: sys_read_def read_loop_I)
  with s syscalls_I [OF s] show ?thesis
    by (intro dispatch_uses_table [where I = I]) (auto simp: syscall_table_eq)
qed

lemma svc_I: "I s \<Longrightarrow> I (handle_svc x s)"
  by (rule svc_ends_I [OF dispatch_I])

lemma resume_read_I: "I s \<Longrightarrow> I (resume_read x s)"
  by (rule read_ends_I [OF read_loop_I])

lemma uart_rx_irq_I: "I s \<Longrightarrow> I (uart_rx_irq bs s)"
  by (simp add: uart_rx_irq_def wake_reader_I rx_I)

end

section \<open>Every step\<close>

locale kernel_frame_all = kernel_frame_rx +
  assumes tick_I: "I s \<Longrightarrow> I (s\<lparr>tick_count := tc\<rparr>)"
begin

lemma irq_dispatch_I: "I s \<Longrightarrow> I (irq_dispatch n bs s)"
  by (auto simp: irq_dispatch_def run_handler_def timer_irq_def timer_tick_def Let_def
      intro!: upd_I uart_rx_irq_I tick_I resched_I split: option.split irq_handler.split timer_handler.split)

lemma kstep_I: "kstep s e s' \<Longrightarrow> I s \<Longrightarrow> I s'"
  by (induction rule: kstep.induct)
    (auto simp: handle_irq_def intro!: upd_I intro: user_stores_I svc_I resume_read_I schedule_I irq_dispatch_I handle_fault_I fault_I)

lemma ksteps_I: "ksteps s es s' \<Longrightarrow> I s \<Longrightarrow> I s'"
  by (induction rule: ksteps.induct) (auto intro: kstep_I)

end

end
