(* ===== verification/Kernel_Static.thy ===== *)
theory Kernel_Static
  imports Kernel_Frame
begin

text \<open>
  What is fixed once the kernel runs. The process table, the translation tables, the interrupt
  table, the timer handler and the identity of every thread are set up by \<open>kmain\<close>, and no system call,
  interrupt, fault or switch writes them. \<open>context_switch.S\<close> relies on it: a switch between two threads of one
  process leaves the translation caches alone because page tables are immutable after
  \<open>process_init_all\<close>. And what only ever grows: the console output.

  Both are predicates that fit the interface \<open>kernel_frame_all\<close>.
\<close>

section \<open>The fixed part of the state\<close>

definition static_part ::
  "kstate \<Rightarrow> process list \<times> (u32 \<Rightarrow> pgd) \<times> irq_handler option list \<times> timer_handler option \<times> thread_id list" where
  "static_part s = (processes s, tables s, irq_table s, user_handler s, map thread_static (threads s))"

lemma static_upd_thread:
  assumes "\<And>th. thread_static (f th) = thread_static th"
  shows "static_part (upd_thread t f s) = static_part s"
proof -
  have "map thread_static ((threads s)[t := f (threads s ! t)]) = map thread_static (threads s)"
    by (cases "t < length (threads s)") (auto intro!: nth_equalityI simp: assms nth_list_update)
  then show ?thesis by (simp add: static_part_def upd_thread_def)
qed

interpretation fixed: kernel_frame_all "\<lambda>s. static_part s = v" for v
  by unfold_locales (auto simp: static_upd_thread, simp_all add: static_part_def)

lemma kstep_static: "kstep s e s' \<Longrightarrow> static_part s' = static_part s"
  by (rule fixed.kstep_I) simp_all

lemma ksteps_static: "ksteps s es s' \<Longrightarrow> static_part s' = static_part s"
  by (rule fixed.ksteps_I) simp_all

lemma static_partD:
  assumes "static_part s' = static_part s"
  shows "processes s' = processes s" "tables s' = tables s" "irq_table s' = irq_table s"
    "user_handler s' = user_handler s" "length (threads s') = length (threads s)"
    and "t < length (threads s) \<Longrightarrow> thread_static (threads s' ! t) = thread_static (threads s ! t)"
proof -
  have e: "processes s' = processes s \<and> tables s' = tables s \<and> irq_table s' = irq_table s \<and>
      user_handler s' = user_handler s \<and> map thread_static (threads s') = map thread_static (threads s)"
    using assms by (simp add: static_part_def)
  then show "processes s' = processes s" "tables s' = tables s" "irq_table s' = irq_table s" "user_handler s' = user_handler s"
    by simp_all
  show l: "length (threads s') = length (threads s)" using e map_eq_imp_length_eq by blast
  show "thread_static (threads s' ! t) = thread_static (threads s ! t)" if "t < length (threads s)"
    using e l that by (metis nth_map)
qed

section \<open>The console only grows\<close>

text \<open>\<open>grew co s\<close>: the output of \<open>s\<close> extends \<open>co\<close>. No operation takes anything back or inserts anything in what is printed.\<close>

definition grew :: "string \<Rightarrow> kstate \<Rightarrow> bool" where
  "grew co s \<longleftrightarrow> (\<exists>out. console_out s = co @ out)"

lemma grew_refl [simp]: "grew (console_out s) s"
  by (simp add: grew_def)

interpretation console: kernel_frame_all "grew co" for co
  by unfold_locales (auto simp: grew_def)

lemma kstep_grew: "kstep s e s' \<Longrightarrow> grew co s \<Longrightarrow> grew co s'"
  by (rule console.kstep_I)

end
