(* ===== verification/Mmu_Cache.thy ===== *)
theory Mmu_Cache
  imports Sample_Runs Kernel_Static
begin

text \<open>
  The caches behind the MMU, and the maintenance the kernel does for them: the TLB and the
  instruction cache of the processor, which may be filled and emptied at any moment, also in the middle of a switch; the
  operations of \<open>mmu_enable.S\<close>, \<open>mmu_drop_identity\<close> (\<open>mmu.c\<close>) and \<open>context_switch.S\<close>, those of the switch one by one; and the running
  system together with them. The kernel uses no address space identifiers and marks no entry non-global, so an entry of the TLB
  or a line of the instruction cache found by its virtual address is used whatever the process. All
  other theories let the processor walk the table TTBR0 points at on every access; \<open>translations_coherent\<close> shows
  that this is what the hardware with its caches does, in every reachable state, if it applies the operations of a switch in program
  order. The code needs that: it has no \<open>isb\<close> between the write of TTBR0 and the invalidations, and \<open>stale_entry_without_order\<close> shows what
  happens on hardware that takes the liberty the architecture gives.
\<close>

section \<open>Model\<close>

text \<open>The five instructions of \<open>ctxsw_switch_mm\<close> that concern the MMU.\<close>

datatype mm_op = Write_TTBR0 u32 | Op_TLBIALL | Op_ICIALLU | Op_DSB | Op_ISB

text \<open>\<open>tlb i\<close> is the descriptor held for the \<open>i\<close>-th megabyte; \<open>icache va\<close> the physical address from which
  the instruction byte held for \<open>va\<close> was fetched; \<open>walk_ttbr0\<close> the value of TTBR0 that table walks use. An operation that the processor has
  executed is \<open>issued\<close> until it takes effect; \<open>todo\<close> are the instructions of the running switch that are still to be executed.\<close>

record mmu_cache =
  tlb :: "nat \<Rightarrow> u32 option"
  icache :: "u32 \<Rightarrow> u32 option"
  walk_ttbr0 :: u32
  issued :: "mm_op list"
  todo :: "mm_op list"

definition TLBIALL :: "mmu_cache \<Rightarrow> mmu_cache" where
  "TLBIALL mc = mc\<lparr>tlb := (\<lambda>_. None)\<rparr>"

definition ICIALLU :: "mmu_cache \<Rightarrow> mmu_cache" where
  "ICIALLU mc = mc\<lparr>icache := (\<lambda>_. None)\<rparr>"

text \<open>What the processor takes for the table: an entry of the TLB where it holds one, the table in memory otherwise.\<close>

definition tlb_view :: "pgd \<Rightarrow> mmu_cache \<Rightarrow> pgd" where
  "tlb_view pgd mc i = (case tlb mc i of Some d \<Rightarrow> d | None \<Rightarrow> pgd i)"

text \<open>The maintenance of \<open>mmu_enable\<close>, of \<open>mmu_drop_identity\<close>, and of the part of \<open>context_switch\<close> that
  reprograms the MMU: always on the first entry (\<open>prev\<close> null), otherwise only across processes.\<close>

definition mmu_enable_mm :: "mmu_cache \<Rightarrow> mmu_cache" where
  "mmu_enable_mm mc = TLBIALL (ICIALLU mc)"

definition drop_identity_mm :: "mmu_cache \<Rightarrow> mmu_cache" where
  "drop_identity_mm mc = TLBIALL mc"

definition ctxsw_ops :: "u32 \<Rightarrow> mm_op list" where
  "ctxsw_ops b = [Write_TTBR0 b, Op_TLBIALL, Op_ICIALLU, Op_DSB, Op_ISB]"

definition context_switch_ops :: "tptr option \<Rightarrow> tptr \<Rightarrow> kstate \<Rightarrow> mm_op list" where
  "context_switch_ops prev next s =
     (let reprogram = ctxsw_ops (pgd_pa (proc_of s next) OR 0x4A)
      in case prev of
           None \<Rightarrow> reprogram
         | Some q \<Rightarrow> if t_proc (threads s ! q) = t_proc (threads s ! next) then [] else reprogram)"

text \<open>A step of the kernel contains a switch when another thread is current afterwards.\<close>

definition kstep_ops :: "kstate \<Rightarrow> kstate \<Rightarrow> mm_op list" where
  "kstep_ops s s' =
     (case current s' of
        Some n \<Rightarrow> if current s = Some n then [] else context_switch_ops (current s) n s
      | None \<Rightarrow> [])"

section \<open>The hardware\<close>

definition walk_table :: "kstate \<Rightarrow> mmu_cache \<Rightarrow> pgd" where
  "walk_table s mc = tables s (walk_ttbr0 mc AND 0xFFFFC000)"

primrec mm_effect :: "mm_op \<Rightarrow> mmu_cache \<Rightarrow> mmu_cache" where
  "mm_effect (Write_TTBR0 b) mc = mc\<lparr>walk_ttbr0 := b\<rparr>"
| "mm_effect Op_TLBIALL mc = TLBIALL mc"
| "mm_effect Op_ICIALLU mc = ICIALLU mc"
| "mm_effect Op_DSB mc = mc"
| "mm_effect Op_ISB mc = mc"

text \<open>\<open>dsb\<close> waits for the invalidations that were issued before it, \<open>isb\<close> for the write of TTBR0; neither is itself an operation that takes
  effect later.\<close>

primrec mm_waits :: "mm_op \<Rightarrow> mm_op list \<Rightarrow> bool" where
  "mm_waits (Write_TTBR0 b) q = False"
| "mm_waits Op_TLBIALL q = False"
| "mm_waits Op_ICIALLU q = False"
| "mm_waits Op_DSB q = (Op_TLBIALL \<in> set q \<or> Op_ICIALLU \<in> set q)"
| "mm_waits Op_ISB q = (\<exists>b. Write_TTBR0 b \<in> set q)"

definition mm_barrier :: "mm_op \<Rightarrow> bool" where
  "mm_barrier op \<longleftrightarrow> op = Op_DSB \<or> op = Op_ISB"

text \<open>The running system with its caches. At any time, between any two instructions of a switch too, the hardware loads an entry into the TLB from
  the table at \<open>walk_ttbr0\<close>, drops one, fetches an instruction into the instruction cache or drops one. The processor executes the next instruction of a switch;
  an issued operation takes effect, the oldest one first if the hardware keeps them in order (\<open>ordered\<close>), any of them otherwise. Programs and the rest
  of the kernel take steps only when no switch is going on, for \<open>context_switch\<close> has not returned before, and interrupts are masked.\<close>

inductive mstep :: "bool \<Rightarrow> kstate \<times> mmu_cache \<Rightarrow> kstate \<times> mmu_cache \<Rightarrow> bool" for ordered where
  refill: "mstep ordered (s, mc) (s, mc\<lparr>tlb := (tlb mc)(i \<mapsto> walk_table s mc i)\<rparr>)"
| evict: "mstep ordered (s, mc) (s, mc\<lparr>tlb := (tlb mc)(i := None)\<rparr>)"
| fetch: "translate (tlb_view (walk_table s mc) mc) m False va = Some pa \<Longrightarrow>
    mstep ordered (s, mc) (s, mc\<lparr>icache := (icache mc)(va \<mapsto> pa)\<rparr>)"
| drop: "mstep ordered (s, mc) (s, mc\<lparr>icache := (icache mc)(va := None)\<rparr>)"
| execute: "todo mc = op # ops \<Longrightarrow> \<not> mm_waits op (issued mc) \<Longrightarrow>
    mstep ordered (s, mc) (s, mc\<lparr>issued := issued mc @ (if mm_barrier op then [] else [op]), todo := ops\<rparr>)"
| complete: "issued mc = q1 @ op # q2 \<Longrightarrow> (ordered \<longrightarrow> q1 = []) \<Longrightarrow>
    mstep ordered (s, mc) (s, mm_effect op (mc\<lparr>issued := q1 @ q2\<rparr>))"
| kernel: "kstep s e s' \<Longrightarrow> todo mc = [] \<Longrightarrow> mstep ordered (s, mc) (s', mc\<lparr>todo := kstep_ops s s'\<rparr>)"

text \<open>The first switch of \<open>kmain\<close> happens with whatever the caches have collected during boot.\<close>

inductive mreachable :: "bool \<Rightarrow> platform \<Rightarrow> kstate \<times> mmu_cache \<Rightarrow> bool" for ordered p where
  start: "link_ok lk \<Longrightarrow> images_ok imgs \<Longrightarrow> boot p lk imgs date time cpsr sctlr ram = Some s \<Longrightarrow>
    issued mc = [] \<Longrightarrow> todo mc = context_switch_ops None 0 s \<Longrightarrow> mreachable ordered p (s, mc)"
| step: "mreachable ordered p x \<Longrightarrow> mstep ordered x y \<Longrightarrow> mreachable ordered p y"

section \<open>Coherence\<close>

text \<open>How far a switch has come: \<open>k\<close> of its five operations are done, the rest is issued or still to be executed, and what the operations that are
  done were for holds.\<close>

definition tlb_coherent :: "kstate \<Rightarrow> mmu_cache \<Rightarrow> bool" where
  "tlb_coherent s mc \<longleftrightarrow> (\<forall>i d. tlb mc i = Some d \<longrightarrow> d = active_table s i)"

definition icache_coherent :: "kstate \<Rightarrow> mmu_cache \<Rightarrow> bool" where
  "icache_coherent s mc \<longleftrightarrow> (\<forall>va pa. icache mc va = Some pa \<longrightarrow> (\<exists>m. translate (active_table s) m False va = Some pa))"

definition coherent_from :: "nat \<Rightarrow> kstate \<Rightarrow> mmu_cache \<Rightarrow> bool" where
  "coherent_from k s mc \<longleftrightarrow>
     issued mc @ todo mc = List.drop k (ctxsw_ops (ttbr0 s)) \<and> (\<forall>op \<in> set (issued mc). \<not> mm_barrier op) \<and>
     (1 \<le> k \<longrightarrow> walk_table s mc = active_table s) \<and> (2 \<le> k \<longrightarrow> tlb_coherent s mc) \<and> (3 \<le> k \<longrightarrow> icache_coherent s mc)"

abbreviation coherent :: "kstate \<Rightarrow> mmu_cache \<Rightarrow> bool" where
  "coherent s mc \<equiv> \<exists>k. coherent_from k s mc"

lemma coherent_view: "tlb_coherent s mc \<Longrightarrow> tlb_view (active_table s) mc = active_table s"
  by (auto simp: tlb_coherent_def tlb_view_def fun_eq_iff split: option.split)

lemma drop_ctxsw_cases:
  assumes "q = List.drop k (ctxsw_ops b)"
  shows "k = 0 \<and> q = [Write_TTBR0 b, Op_TLBIALL, Op_ICIALLU, Op_DSB, Op_ISB] \<or> k = 1 \<and> q = [Op_TLBIALL, Op_ICIALLU, Op_DSB, Op_ISB] \<or>
    k = 2 \<and> q = [Op_ICIALLU, Op_DSB, Op_ISB] \<or> k = 3 \<and> q = [Op_DSB, Op_ISB] \<or> k = 4 \<and> q = [Op_ISB] \<or> 5 \<le> k \<and> q = []"
proof -
  have "k = 0 \<or> k = 1 \<or> k = 2 \<or> k = 3 \<or> k = 4 \<or> 5 \<le> k" by linarith
  then show ?thesis using assms by (elim disjE) (simp_all add: ctxsw_ops_def)
qed

text \<open>A switch is over only when all of its operations are done.\<close>

lemma coherent_idle:
  assumes "coherent_from k s mc" "todo mc = []"
  shows "issued mc = []" "5 \<le> k"
proof -
  note q = drop_ctxsw_cases [OF conjunct1 [OF assms(1) [unfolded coherent_from_def]]]
  have "\<forall>op \<in> set (issued mc). \<not> mm_barrier op" using assms(1) by (simp add: coherent_from_def)
  then show "issued mc = []" "5 \<le> k" using q assms(2) by (auto simp: mm_barrier_def)
qed

text \<open>The operations of a switch advance its progress.\<close>

lemma execute_coherent:
  assumes h: "coherent_from k s mc" and t: "todo mc = op # ops" and w: "\<not> mm_waits op (issued mc)"
  shows "coherent s (mc\<lparr>issued := issued mc @ (if mm_barrier op then [] else [op]), todo := ops\<rparr>)"
proof (cases "mm_barrier op")
  case False
  have "coherent_from k s (mc\<lparr>issued := issued mc @ [op], todo := ops\<rparr>)"
    using h t False by (auto simp: coherent_from_def walk_table_def tlb_coherent_def icache_coherent_def)
  with False show ?thesis by auto
next
  case True
  have q: "issued mc @ op # ops = List.drop k (ctxsw_ops (ttbr0 s))" and b: "\<forall>op \<in> set (issued mc). \<not> mm_barrier op"
    using h t by (simp_all add: coherent_from_def)
  let ?P = "\<lambda>x. \<not> mm_barrier x" and ?d = "List.drop k (ctxsw_ops (ttbr0 s))"
  have "issued mc = takeWhile ?P ?d" "op # ops = dropWhile ?P ?d"
    unfolding q [symmetric] using b True by (simp_all add: takeWhile_append dropWhile_append)
  then have "issued mc = [] \<and> List.drop (Suc k) (ctxsw_ops (ttbr0 s)) = ops \<and> 3 \<le> k"
    using drop_ctxsw_cases [of ?d, OF refl] w by (elim disjE conjE) (auto simp: mm_barrier_def ctxsw_ops_def)
  then have "coherent_from (Suc k) s (mc\<lparr>issued := issued mc, todo := ops\<rparr>)"
    using h by (simp add: coherent_from_def walk_table_def tlb_coherent_def icache_coherent_def)
  with True show ?thesis by auto
qed

lemma complete_coherent:
  assumes h: "coherent_from k s mc" and q: "issued mc = op # ops"
  shows "coherent_from (Suc k) s (mm_effect op (mc\<lparr>issued := ops\<rparr>))"
proof -
  have d: "op # (ops @ todo mc) = List.drop k (ctxsw_ops (ttbr0 s))" and b: "\<not> mm_barrier op" "\<forall>op \<in> set ops. \<not> mm_barrier op"
    using h q by (simp_all add: coherent_from_def)
  have d': "ops @ todo mc = List.drop (Suc k) (ctxsw_ops (ttbr0 s))" using arg_cong [OF d, of tl] by (simp add: drop_Suc tl_drop)
  have "k = 0 \<and> op = Write_TTBR0 (ttbr0 s) \<or> k = 1 \<and> op = Op_TLBIALL \<or> k = 2 \<and> op = Op_ICIALLU"
    using drop_ctxsw_cases [OF d] b(1) by (auto simp: mm_barrier_def)
  then show ?thesis
    using h d' b(2)
    by (elim disjE conjE)
      (simp_all add: coherent_from_def walk_table_def active_table_def tlb_coherent_def icache_coherent_def TLBIALL_def ICIALLU_def)
qed

text \<open>Loads into the caches, at any point of the switch, keep what has been reached.\<close>

lemma refill_coherent: "coherent_from k s mc \<Longrightarrow> coherent_from k s (mc\<lparr>tlb := (tlb mc)(i \<mapsto> walk_table s mc i)\<rparr>)"
  by (auto simp: coherent_from_def walk_table_def tlb_coherent_def icache_coherent_def)

lemma fetch_coherent:
  assumes "coherent_from k s mc" "translate (tlb_view (walk_table s mc) mc) m False va = Some pa"
  shows "coherent_from k s (mc\<lparr>icache := (icache mc)(va \<mapsto> pa)\<rparr>)"
proof -
  have "translate (active_table s) m False va = Some pa" if "3 \<le> k"
    using assms that coherent_view [of s mc] by (simp add: coherent_from_def)
  then show ?thesis
    using assms(1) by (auto simp: coherent_from_def walk_table_def tlb_coherent_def icache_coherent_def)
qed

lemma drop_coherent:
  "coherent_from k s mc \<Longrightarrow> coherent_from k s (mc\<lparr>tlb := (tlb mc)(i := None)\<rparr>)"
  "coherent_from k s mc \<Longrightarrow> coherent_from k s (mc\<lparr>icache := (icache mc)(va := None)\<rparr>)"
  by (auto simp: coherent_from_def walk_table_def tlb_coherent_def icache_coherent_def)

text \<open>A switch of process leaves everything still to be done; a step without one changes neither the base register nor the tables.\<close>

lemma coherent_begin: "issued mc = [] \<Longrightarrow> todo mc = ctxsw_ops (ttbr0 s) \<Longrightarrow> coherent_from 0 s mc"
  by (simp add: coherent_from_def)

lemma coherent_stay:
  assumes "coherent_from k s mc" "todo mc = []" "active_table s' = active_table s" "tables s' = tables s"
  shows "coherent_from k s' (mc\<lparr>todo := []\<rparr>)"
  using assms coherent_idle [OF assms(1,2)]
  by (simp add: coherent_from_def walk_table_def tlb_coherent_def icache_coherent_def ctxsw_ops_def)

text \<open>The active table depends only on the process of the current thread.\<close>

lemma active_table_of_process:
  assumes "kinv p s" "current s = Some c"
  shows "active_table s = tables s (pgd_pa (processes s ! (c div 2)))" and "c < 6"
proof -
  have l: "kernel_layout p s" and i: "core_inv s" using assms(1) by (simp_all add: kinv_def)
  note D = core_invD [OF i assms(2)]
  have "c div 2 < 3" using D(1) by (simp add: less_mult_imp_div_less)
  then have "process_at p (tables s) (c div 2) (processes s ! (c div 2))" by (rule layout_process [OF l])
  then show "active_table s = tables s (pgd_pa (processes s ! (c div 2)))"
    using D(3) layout_thread [OF l D(1)] by (simp add: active_table_def ttbr0_base process_at_def)
  show "c < 6" by (rule D(1))
qed

lemma kstep_coherent:
  assumes st: "kstep s e s'" and k: "kinv p s" and h: "coherent_from j s mc" and idle: "todo mc = []"
  shows "coherent s' (mc\<lparr>todo := kstep_ops s s'\<rparr>)"
proof -
  have k': "kinv p s'" using kstep_inv [OF st k] .
  obtain c where c: "current s = Some c" using k by (metis kinvD)
  obtain d where d: "current s' = Some d" using k' by (metis kinvD)
  note fixed = static_partD [OF kstep_static [OF st]]
  note ac = active_table_of_process [OF k c] and ad = active_table_of_process [OF k' d]
  have l: "kernel_layout p s" "kernel_layout p s'" and i': "core_inv s'" using k k' by (simp_all add: kinv_def)
  have same: "coherent_from j s' (mc\<lparr>todo := []\<rparr>)" if "c div 2 = d div 2"
    by (rule coherent_stay [OF h idle]) (use that in \<open>simp_all add: ac ad fixed\<close>)
  have "ttbr0 s' = pgd_pa (proc_of s d) OR 0x4A"
    using core_invD(3) [OF i' d] layout_thread [OF l(1) ad(2)] layout_thread [OF l(2) ad(2)] by (simp add: fixed)
  then have other: "coherent_from 0 s' (mc\<lparr>todo := ctxsw_ops (pgd_pa (proc_of s d) OR 0x4A)\<rparr>)"
    using coherent_idle(1) [OF h idle] by (intro coherent_begin) simp_all
  show ?thesis
    using same other c d layout_thread [OF l(1) ac(2)] layout_thread [OF l(1) ad(2)]
    by (auto simp: kstep_ops_def context_switch_ops_def Let_def)
qed

lemma boot_coherent:
  assumes "link_ok lk" "images_ok imgs" "boot p lk imgs date time cpsr sctlr ram = Some s"
    and "issued mc = []" "todo mc = context_switch_ops None 0 s"
  shows "reachable p s \<and> coherent_from 0 s mc"
proof -
  have r: "reachable p s" unfolding reachable_def using assms(1-3) ksteps.stop by blast
  have k: "kinv p s" by (rule reachable_inv(1) [OF r])
  obtain co mem tb where "boot p lk imgs date time cpsr sctlr ram = Some (booted p lk imgs co mem tb)"
    using boot_reaches [OF assms(1,2)] by blast
  then have "current s = Some 0" using assms(3) by simp
  then have "ttbr0 s = pgd_pa (proc_of s 0) OR 0x4A" using k core_invD(3) by (simp add: kinv_def)
  then show ?thesis using r assms(4,5) coherent_begin [of mc s] by (simp add: context_switch_ops_def)
qed

lemma mreachable_coherent:
  assumes "mreachable True p x"
  shows "reachable p (fst x) \<and> coherent (fst x) (snd x)"
  using assms
proof (induction rule: mreachable.induct)
  case (start lk imgs date time cpsr sctlr ram s mc)
  then show ?case using boot_coherent by fastforce
next
  case (step x y)
  obtain s mc where x: "x = (s, mc)" by (cases x)
  obtain k where r: "reachable p s" and h: "coherent_from k s mc" using step.IH x by auto
  from step.hyps(2) show ?case
    unfolding x
  proof cases
    case (refill i)
    then show ?thesis using r refill_coherent [OF h] by auto
  next
    case (evict i)
    then show ?thesis using r drop_coherent(1) [OF h] by auto
  next
    case (fetch m va pa)
    then show ?thesis using r fetch_coherent [OF h] by auto
  next
    case (drop va)
    then show ?thesis using r drop_coherent(2) [OF h] by auto
  next
    case (execute op ops)
    then show ?thesis using r execute_coherent [OF h] by simp
  next
    case (complete q1 op q2)
    then show ?thesis using r complete_coherent [OF h] by auto
  next
    case (kernel e s')
    then show ?thesis
      using reachable_step [OF r] kstep_coherent [OF _ reachable_inv(1) [OF r] h] by simp
  qed
qed

text \<open>Every switch comes to its end: the barriers wait for no operation that cannot take effect.\<close>

lemma switch_completes: "\<exists>mc'. (mstep ordered)\<^sup>*\<^sup>* (s, mc) (s, mc') \<and> todo mc' = [] \<and> issued mc' = []"
proof (induction "2 * length (todo mc) + length (issued mc)" arbitrary: mc rule: less_induct)
  case less
  show ?case
  proof (cases "issued mc")
    case (Cons op q)
    let ?mc = "mm_effect op (mc\<lparr>issued := q\<rparr>)"
    have "mstep ordered (s, mc) (s, ?mc)" using mstep.complete [of mc "[]" op q] Cons by simp
    moreover have "todo ?mc = todo mc" "issued ?mc = q" by (cases op; simp add: TLBIALL_def ICIALLU_def)+
    ultimately show ?thesis using less [of ?mc] Cons by (metis add_less_cancel_left converse_rtranclp_into_rtranclp length_Cons lessI)
  next
    case Nil
    show ?thesis
    proof (cases "todo mc")
      case Nil
      with \<open>issued mc = []\<close> show ?thesis by blast
    next
      case (Cons op ops)
      let ?mc = "mc\<lparr>issued := issued mc @ (if mm_barrier op then [] else [op]), todo := ops\<rparr>"
      have "mstep ordered (s, mc) (s, ?mc)" by (rule mstep.execute [OF Cons]) (cases op; simp add: Nil)
      moreover have "2 * length (todo ?mc) + length (issued ?mc) < 2 * length (todo mc) + length (issued mc)" using Nil Cons by simp
      ultimately show ?thesis using less [of ?mc] by (metis converse_rtranclp_into_rtranclp)
    qed
  qed
qed

text \<open>On hardware that may apply the operations of a switch in another order, an entry of the table of the previous process can be in the TLB when the switch is over:
  the invalidation takes effect, a table walk goes through the old table, and only then the new base register is used. The \<open>dsb\<close> and the \<open>isb\<close> at the
  end do not prevent it; an \<open>isb\<close> between the write of TTBR0 and \<open>TLBIALL\<close> would.\<close>

lemma stale_entry_without_order:
  assumes "issued mc = []" "todo mc = ctxsw_ops b"
  shows "\<exists>mc'. (mstep False)\<^sup>*\<^sup>* (s, mc) (s, mc') \<and> todo mc' = [] \<and> issued mc' = [] \<and> walk_ttbr0 mc' = b \<and>
    tlb mc' i = Some (walk_table s mc i)"
proof -
  let ?R = "(mstep False)\<^sup>*\<^sup>*"
  let ?W = "Write_TTBR0 b"
  define m1 where "m1 = mc\<lparr>issued := [?W, Op_TLBIALL, Op_ICIALLU], todo := [Op_DSB, Op_ISB]\<rparr>"
  define m2 where "m2 = TLBIALL (m1\<lparr>issued := [?W, Op_ICIALLU]\<rparr>)"
  define m3 where "m3 = m2\<lparr>tlb := (tlb m2)(i \<mapsto> walk_table s m2 i)\<rparr>"
  define m4 where "m4 = ICIALLU (m3\<lparr>issued := [?W]\<rparr>)"
  define m5 where "m5 = m4\<lparr>walk_ttbr0 := b, issued := [], todo := []\<rparr>"
  let ?a = "mc\<lparr>issued := [?W], todo := [Op_TLBIALL, Op_ICIALLU, Op_DSB, Op_ISB]\<rparr>"
  let ?b = "mc\<lparr>issued := [?W, Op_TLBIALL], todo := [Op_ICIALLU, Op_DSB, Op_ISB]\<rparr>"
  have "mstep False (s, mc) (s, ?a)" "mstep False (s, ?a) (s, ?b)" "mstep False (s, ?b) (s, m1)"
    using mstep.execute [of mc ?W _ False s] mstep.execute [of ?a Op_TLBIALL _ False s] mstep.execute [of ?b Op_ICIALLU _ False s] assms
    by (simp_all add: ctxsw_ops_def mm_barrier_def m1_def)
  then have 1: "?R (s, mc) (s, m1)" by (meson r_into_rtranclp rtranclp_trans)
  have 2: "mstep False (s, m1) (s, m2)"
    using mstep.complete [of m1 "[?W]" Op_TLBIALL "[Op_ICIALLU]" False s] by (simp add: m1_def m2_def TLBIALL_def)
  have 3: "mstep False (s, m2) (s, m3)" unfolding m3_def by (rule mstep.refill)
  have 4: "mstep False (s, m3) (s, m4)"
    using mstep.complete [of m3 "[?W]" Op_ICIALLU "[]" False s] by (simp add: m2_def m3_def m4_def TLBIALL_def ICIALLU_def)
  have f: "issued m4 = [?W]" "todo m4 = [Op_DSB, Op_ISB]" by (simp_all add: m1_def m2_def m3_def m4_def TLBIALL_def ICIALLU_def)
  let ?c = "m4\<lparr>issued := [?W], todo := [Op_ISB]\<rparr>" and ?d = "m4\<lparr>todo := [Op_ISB], issued := [], walk_ttbr0 := b\<rparr>"
  have "mstep False (s, m4) (s, ?c)"
    using mstep.execute [of m4 Op_DSB "[Op_ISB]" False s] f by (simp add: mm_barrier_def)
  moreover have "mstep False (s, ?c) (s, ?d)"
    using mstep.complete [of ?c "[]" ?W "[]" False s] by simp
  moreover have "mstep False (s, ?d) (s, m5)"
    using mstep.execute [of ?d Op_ISB "[]" False s] by (simp add: m5_def mm_barrier_def)
  ultimately have "?R (s, mc) (s, m5)" using 1 2 3 4 by (meson r_into_rtranclp rtranclp_trans)
  moreover have "tlb m5 i = Some (walk_table s mc i)"
    by (simp add: m5_def m4_def m3_def m2_def m1_def walk_table_def TLBIALL_def ICIALLU_def)
  ultimately show ?thesis by (intro exI [of _ m5]) (simp add: m5_def)
qed

section \<open>Properties\<close>

text \<open>C6: the caches of the MMU never show, on hardware that applies the MMU operations of \<open>context_switch\<close> in program order. The TLB and the
  instruction cache are filled and emptied at any time, between the write of TTBR0, the two invalidations and the barriers too, and the
  operations take effect some time after they are executed. In every state the running system can reach in which no switch is going on, translation through the TLB
  is translation through the table of the current process, for every address; and an instruction byte held for an address of the user window was
  fetched from the memory of the current process, never from that of another one. This is what the order of the operations and the invalidations of
  \<open>context_switch\<close> are for, and why a switch between two threads of one process needs none.\<close>

theorem translations_coherent:
  assumes "mreachable True p (s, mc)" "todo mc = []" "current s = Some c"
  shows "(\<forall>m w va. translate (tlb_view (walk_table s mc) mc) m w va = translate (active_table s) m w va) \<and>
    (\<forall>va pa. icache mc va = Some pa \<and> 0x40000000 \<le> va \<and> va < 0x40100000 \<longrightarrow>
       pa = user_slot (board_of p) (c div 2) + (va - 0x40000000))"
proof -
  obtain n where r: "reachable p s" and n: "coherent_from n s mc" using mreachable_coherent [OF assms(1)] by auto
  have h: "walk_table s mc = active_table s" "tlb_coherent s mc" "icache_coherent s mc"
    using n coherent_idle(2) [OF n assms(2)] by (simp_all add: coherent_from_def)
  have k: "kernel_layout p s" "core_inv s" using reachable_inv(1) [OF r] by (auto simp: kinv_def)
  have "pa = user_slot (board_of p) (c div 2) + (va - USER_VIRT_BASE)"
    if a: "icache mc va = Some pa" "USER_VIRT_BASE \<le> va" "va < USER_VIRT_BASE + USER_REGION_SIZE" for va pa
  proof -
    obtain m where m: "translate (active_table s) m False va = Some pa"
      using h(3) a(1) unfolding icache_coherent_def by blast
    obtain old where "active_table s = proc_table p (c div 2) old"
      using active_table_current [OF k assms(3)] by blast
    with m a(2,3) show ?thesis by (cases m) (simp_all add: proc_table_user proc_table_priv_window)
  qed
  then show ?thesis by (simp add: h(1) coherent_view [OF h(2)] kernel_const)
qed

theorem translations_coherent_witness:
  "\<exists>s mc. mreachable True Qemu (s, mc) \<and> todo mc = [] \<and> current s = Some 0 \<and> tlb mc 0x400 \<noteq> None \<and> icache mc 0x40000004 = Some 0x70200004 \<and>
     translate (tlb_view (walk_table s mc) mc) Usr True 0x40000004 = translate (active_table s) Usr True 0x40000004"
proof -
  obtain co mem tb where b: "boot Qemu sample_link sample_images [] [] 0 0 (\<lambda>_. CHR 0x00) =
      Some (booted Qemu sample_link sample_images co mem tb)" (is "_ = Some ?s") and tb: "tables_built Qemu sample_link sample_images tb"
    using boot_reaches [OF sample_link_ok sample_images_ok] by blast
  let ?mc0 = "\<lparr>tlb = (\<lambda>_. Some 0), icache = (\<lambda>_. None), walk_ttbr0 = 0, issued = [], todo = context_switch_ops None 0 ?s\<rparr>"
  have r0: "mreachable True Qemu (?s, ?mc0)"
    by (rule mreachable.start [OF sample_link_ok sample_images_ok b]) simp_all
  obtain mc where run: "(mstep True)\<^sup>*\<^sup>* (?s, ?mc0) (?s, mc)" and t: "todo mc = []" using switch_completes by blast
  from run have r: "mreachable True Qemu (?s, mc)" by (induction rule: rtranclp_induct) (auto intro: r0 mreachable.step)
  let ?mc = "mc\<lparr>tlb := (tlb mc)(0x400 \<mapsto> walk_table ?s mc 0x400)\<rparr>"
  have r1: "mreachable True Qemu (?s, ?mc)" using r mstep.refill by (rule mreachable.step)
  have k: "kernel_layout Qemu ?s" "core_inv ?s" using booted_kinv [OF sample_link_ok tb] by (simp_all add: kinv_def)
  obtain old where a: "active_table ?s = proc_table Qemu 0 old"
    using active_table_current [OF k, of 0] by auto
  have v: "(USER_VIRT_BASE :: u32) \<le> 0x40000004" "(0x40000004 :: u32) < USER_VIRT_BASE + USER_REGION_SIZE"
    by (simp_all add: kernel_const)
  have "user_slot (board_of Qemu) 0 + (0x40000004 - USER_VIRT_BASE) = 0x70200004" by (simp add: user_slot_def board_defs kernel_const)
  then have "translate (active_table ?s) Usr False 0x40000004 = Some (0x70200004 :: u32)"
    unfolding a proc_table_user using v by simp
  then have "translate (tlb_view (walk_table ?s ?mc) ?mc) Usr False 0x40000004 = Some (0x70200004 :: u32)"
    using translations_coherent [OF r1, of 0] t by simp
  then have r2: "mreachable True Qemu (?s, ?mc\<lparr>icache := (icache ?mc)(0x40000004 \<mapsto> 0x70200004)\<rparr>)"
    by (intro mreachable.step [OF r1 mstep.fetch])
  let ?mc2 = "?mc\<lparr>icache := (icache ?mc)(0x40000004 \<mapsto> 0x70200004)\<rparr>"
  have idle: "todo ?mc2 = []" "current ?s = Some 0" using t by simp_all
  note coh = translations_coherent [OF r2 idle]
  show ?thesis
  proof (intro exI [of _ ?s] exI [of _ ?mc2] conjI)
    show "translate (tlb_view (walk_table ?s ?mc2) ?mc2) Usr True 0x40000004 = translate (active_table ?s) Usr True 0x40000004"
      using coh by blast
  qed (use r2 t in simp_all)
qed

text \<open>After \<open>mmu_drop_identity\<close> the physical addresses of RAM are gone for the processor too, whatever
  the TLB held before.\<close>

lemma identity_gone:
  assumes "pgd_index (RAM_BASE (board_of p)) \<le> pgd_index va"
    "pgd_index va < pgd_index (RAM_BASE (board_of p)) + pgd_index (RAM_SIZE (board_of p))"
  shows "translate (tlb_view (mmu_drop_identity (board_of p) (boot_table p)) (drop_identity_mm mc)) m w va = None"
proof -
  have "tlb_view pgd (drop_identity_mm mc) = pgd" for pgd
    by (simp add: tlb_view_def drop_identity_mm_def TLBIALL_def fun_eq_iff)
  then show ?thesis using boot_table_view [of va p m w] assms by (simp add: Let_def)
qed

end
