(* ===== verification/Cache_Sync.thy ===== *)
theory Cache_Sync
  imports Sample_State
begin

text \<open>
  \<open>icache_sync\<close> of \<open>kernel/proc/process.c\<close> on the caches of the processor. The kernel stores a program image
  through the data path; user code fetches it through the instruction path. Both meet only at the
  point of unification, so an image may be executed only after its lines have been cleaned from the data cache
  and the instruction cache has been invalidated, in this order and each completed by a barrier.

  The caches are seen byte by byte, by physical address, and are as unhelpful as the architecture allows: the hardware
  may load or drop any byte of either cache at any moment; a store may or may not allocate; maintenance
  operations complete at any time up to the next DSB. The rest of the development has one memory; the theorem
  \<open>image_visible_to_fetch\<close> says that this is what the code achieves.
\<close>

section \<open>Model\<close>

record caches =
  pou :: "u32 \<Rightarrow> char"
  dcache :: "u32 \<Rightarrow> char option"
  ilines :: "u32 \<Rightarrow> char option"
  cleaning :: "u32 set"
  invalidating :: bool

text \<open>What a load and what an instruction fetch of a physical address returns.\<close>

definition dview :: "caches \<Rightarrow> u32 \<Rightarrow> char" where
  "dview c pa = (case dcache c pa of Some x \<Rightarrow> x | None \<Rightarrow> pou c pa)"

definition ifetch :: "caches \<Rightarrow> u32 \<Rightarrow> char" where
  "ifetch c pa = (case ilines c pa of Some x \<Rightarrow> x | None \<Rightarrow> pou c pa)"

datatype cache_op = StoreByte u32 char | DCCMVAU u32 | InvalidateI | Dsb | Isb

definition line :: "u32 \<Rightarrow> u32" where
  "line a = a AND NOT 31"

inductive hw_step :: "caches \<Rightarrow> caches \<Rightarrow> bool" where
  load_d: "dcache c pa = None \<Longrightarrow> hw_step c (c\<lparr>dcache := (dcache c)(pa \<mapsto> pou c pa)\<rparr>)"
| drop_d: "dcache c pa = Some x \<Longrightarrow> hw_step c (c\<lparr>pou := (pou c)(pa := x), dcache := (dcache c)(pa := None)\<rparr>)"
| load_i: "hw_step c (c\<lparr>ilines := (ilines c)(pa \<mapsto> pou c pa)\<rparr>)"
| drop_i: "hw_step c (c\<lparr>ilines := (ilines c)(pa := None)\<rparr>)"
| cleaned: "pa \<in> cleaning c \<Longrightarrow> hw_step c (c\<lparr>pou := (pou c)(pa := dview c pa), cleaning := cleaning c - {pa}\<rparr>)"
| invalidated: "hw_step c (c\<lparr>ilines := (\<lambda>_. None), invalidating := False\<rparr>)"

text \<open>One instruction; \<open>off\<close> is the distance between the kernel's alias and physical memory.\<close>

inductive op_step :: "u32 \<Rightarrow> cache_op \<Rightarrow> caches \<Rightarrow> caches \<Rightarrow> bool" for off where
  store: "op_step off (StoreByte va x) c (c\<lparr>dcache := (dcache c)(va - off \<mapsto> x)\<rparr>)"
| store_miss: "dcache c (va - off) = None \<Longrightarrow> op_step off (StoreByte va x) c (c\<lparr>pou := (pou c)(va - off := x)\<rparr>)"
| clean: "op_step off (DCCMVAU va) c (c\<lparr>cleaning := cleaning c \<union> {pa. line pa = line (va - off)}\<rparr>)"
| inval: "op_step off InvalidateI c (c\<lparr>invalidating := True\<rparr>)"
| dsb: "cleaning c = {} \<Longrightarrow> \<not> invalidating c \<Longrightarrow> op_step off Dsb c c"
| isb: "op_step off Isb c c"

inductive cexec :: "u32 \<Rightarrow> cache_op list \<Rightarrow> caches \<Rightarrow> caches \<Rightarrow> bool" for off where
  finish: "cexec off [] c c"
| hw: "hw_step c c1 \<Longrightarrow> cexec off ops c1 c' \<Longrightarrow> cexec off ops c c'"
| op: "op_step off x c c1 \<Longrightarrow> cexec off ops c1 c' \<Longrightarrow> cexec off (x # ops) c c'"

text \<open>The loop \<open>for (a = start; a < end; a += 32)\<close>; \<open>None\<close> if it does not end.\<close>

partial_function (option) clean_loop :: "u32 \<Rightarrow> u32 \<Rightarrow> cache_op list option" where
  "clean_loop a e =
     (if a < e then Option.bind (clean_loop (a + 32) e) (\<lambda>ops. Some (DCCMVAU a # ops)) else Some [])"

declare clean_loop.simps [code]

definition icache_sync :: "u32 \<Rightarrow> u32 \<Rightarrow> cache_op list option" where
  "icache_sync va len =
     Option.bind (clean_loop (va AND NOT 31) (va + len)) (\<lambda>ops. Some (ops @ [Dsb, InvalidateI, Dsb, Isb]))"

primrec store_ops :: "u32 \<Rightarrow> char list \<Rightarrow> cache_op list" where
  "store_ops a [] = []"
| "store_ops a (x # xs) = StoreByte a x # store_ops (a + 1) xs"

text \<open>What the loop body of \<open>process_init_all\<close> does to the memory of process \<open>i\<close>: clear the region, copy the
  image, synchronise.\<close>

definition load_image :: "board \<Rightarrow> user_image \<Rightarrow> nat \<Rightarrow> cache_op list option" where
  "load_image b img i =
     (let user_va = USER_PHYS_BASE b + of_nat i * USER_PHYS_STRIDE + PHYS_OFFSET b;
          size = of_nat (length (img_bytes img))
      in Option.bind (icache_sync user_va size) (\<lambda>ops.
           Some (store_ops user_va (replicate (unat USER_REGION_SIZE) (CHR 0x00)) @
                 store_ops user_va (take (unat size) (img_bytes img)) @ ops)))"

lemma dview_frame [simp]:
  "dview (c\<lparr>cleaning := A\<rparr>) = dview c" "dview (c\<lparr>invalidating := b\<rparr>) = dview c" "dview (c\<lparr>ilines := f\<rparr>) = dview c"
  by (simp_all add: dview_def fun_eq_iff split: option.split)

section \<open>Executions\<close>

inductive_cases op_storeE: "op_step off (StoreByte va x) c c'"
inductive_cases op_cleanE: "op_step off (DCCMVAU va) c c'"
inductive_cases op_invalE: "op_step off InvalidateI c c'"
inductive_cases op_dsbE: "op_step off Dsb c c'"
inductive_cases op_isbE: "op_step off Isb c c'"

lemma cexec_append:
  "cexec off (xs @ ys) c c' \<Longrightarrow> \<exists>c1. cexec off xs c c1 \<and> cexec off ys c1 c'"
proof (induction "xs @ ys" c c' arbitrary: xs rule: cexec.induct)
  case (finish c)
  then show ?case using cexec.finish by auto
next
  case (hw c c1 c')
  then show ?case using cexec.hw by blast
next
  case (op x c c1 ops c')
  show ?case
  proof (cases xs)
    case Nil
    then show ?thesis using op cexec.op cexec.finish by (metis append_Nil)
  next
    case (Cons z zs)
    then have "z = x" "ops = zs @ ys" using op.hyps(4) by auto
    then show ?thesis using op.hyps(1,3) cexec.op Cons by blast
  qed
qed

lemma cexec_Cons:
  assumes "cexec off (x # ops) c c'"
  obtains c1 c2 where "cexec off [] c c1" "op_step off x c1 c2" "cexec off ops c2 c'"
proof -
  from assms have "\<exists>c1 c2. cexec off [] c c1 \<and> op_step off x c1 c2 \<and> cexec off ops c2 c'"
  proof (induction "x # ops" c c' rule: cexec.induct)
    case (hw c c1 c')
    then show ?case using cexec.hw by blast
  qed (use cexec.finish in blast)
  then show ?thesis using that by blast
qed

text \<open>What the hardware and every operation keep is kept by an execution.\<close>

lemma cexec_keeps:
  assumes "cexec off ops c c'" "P c" "\<And>c c'. hw_step c c' \<Longrightarrow> P c \<Longrightarrow> P c'"
    and "\<And>x c c'. x \<in> set ops \<Longrightarrow> op_step off x c c' \<Longrightarrow> P c \<Longrightarrow> P c'"
  shows "P c'"
  using assms
proof (induction rule: cexec.induct)
  case (hw c c1 ops c')
  then show ?case by blast
next
  case (op x c c1 ops c')
  then have "P c1" using list.set_intros(1) by metis
  with op show ?case using list.set_intros(2) by metis
qed simp

text \<open>Every sequence of operations can be executed: what a DSB waits for can always complete.\<close>

lemma maintenance_completes: "\<exists>c'. cexec off [] c c' \<and> cleaning c' = {} \<and> \<not> invalidating c'"
proof -
  have "finite (cleaning c)" by simp
  then show ?thesis
  proof (induction "cleaning c" arbitrary: c rule: finite_induct)
    case empty
    have "hw_step c (c\<lparr>ilines := (\<lambda>_. None), invalidating := False\<rparr>)" by (rule hw_step.invalidated)
    from cexec.hw [OF this cexec.finish] show ?case using empty by force
  next
    case (insert pa F)
    have "hw_step c (c\<lparr>pou := (pou c)(pa := dview c pa), cleaning := cleaning c - {pa}\<rparr>)" (is "hw_step c ?c")
      using insert.hyps(4) by (intro hw_step.cleaned) auto
    moreover have "F = cleaning ?c" using insert.hyps(2,4) by auto
    ultimately show ?case using insert.hyps(3) [of ?c] cexec.hw by blast
  qed
qed

lemma cexec_trans: "cexec off xs c c1 \<Longrightarrow> cexec off ys c1 c' \<Longrightarrow> cexec off (xs @ ys) c c'"
  by (induction rule: cexec.induct) (auto intro: cexec.intros)

lemma cexec_exists: "\<exists>c'. cexec off ops c c'"
proof (induction ops arbitrary: c)
  case Nil
  show ?case using cexec.finish by blast
next
  case (Cons x ops)
  obtain c1 where c1: "cexec off [] c c1" "cleaning c1 = {}" "\<not> invalidating c1" using maintenance_completes by blast
  have "\<exists>c2. op_step off x c1 c2" using op_step.intros c1 by (cases x) blast+
  then obtain c2 where c2: "op_step off x c1 c2" by blast
  obtain c' where "cexec off ops c2 c'" using Cons by blast
  from cexec.op [OF c2 this] cexec_trans [OF c1(1)] show ?case by fastforce
qed

section \<open>The data path\<close>

lemma hw_dview: "hw_step c c' \<Longrightarrow> dview c' = dview c"
  by (induction rule: hw_step.induct) (auto simp: dview_def fun_eq_iff split: option.split)

primrec is_store :: "cache_op \<Rightarrow> bool" where
  "is_store (StoreByte va x) = True"
| "is_store (DCCMVAU va) = False"
| "is_store InvalidateI = False"
| "is_store Dsb = False"
| "is_store Isb = False"

lemma op_dview: "op_step off x c c' \<Longrightarrow> \<not> is_store x \<Longrightarrow> dview c' = dview c"
  by (induction rule: op_step.induct) simp_all

lemma store_dview: "op_step off (StoreByte va x) c c' \<Longrightarrow> dview c' = (dview c)(va - off := x)"
  by (erule op_storeE) (auto simp: dview_def fun_eq_iff split: option.split)

lemma cexec_dview:
  assumes "cexec off ops c c'" "\<forall>x \<in> set ops. \<not> is_store x"
  shows "dview c' = dview c"
  using cexec_keeps [OF assms(1), of "\<lambda>d. dview d = dview c"] assms(2) hw_dview op_dview by auto

primrec write_at :: "u32 \<Rightarrow> char list \<Rightarrow> (u32 \<Rightarrow> char) \<Rightarrow> u32 \<Rightarrow> char" where
  "write_at pa [] m = m"
| "write_at pa (x # xs) m = write_at (pa + 1) xs (m(pa := x))"

lemma store_ops_dview: "cexec off (store_ops a xs) c c' \<Longrightarrow> dview c' = write_at (a - off) xs (dview c)"
proof (induction xs arbitrary: a c)
  case Nil
  then show ?case using cexec_dview by simp
next
  case (Cons x xs)
  from Cons.prems obtain c1 c2 where c: "cexec off [] c c1" "op_step off (StoreByte a x) c1 c2" "cexec off (store_ops (a + 1) xs) c2 c'"
    by (auto elim: cexec_Cons)
  have eq: "a + 1 - off = a - off + 1" by simp
  have "dview c1 = dview c" using cexec_dview [OF c(1)] by simp
  then show ?case
    using Cons.IH [OF c(3)] by (simp only: eq store_dview [OF c(2)] write_at.simps)
qed

section \<open>Clean, then invalidate\<close>

text \<open>Of the bytes in \<open>A\<close>, those whose cleaning is not pending are the same at the point of unification.\<close>

definition unified :: "u32 set \<Rightarrow> caches \<Rightarrow> bool" where
  "unified A c \<longleftrightarrow> (\<forall>pa \<in> A - cleaning c. pou c pa = dview c pa)"

definition synced :: "u32 set \<Rightarrow> caches \<Rightarrow> bool" where
  "synced A c \<longleftrightarrow> (\<forall>pa \<in> A. pou c pa = dview c pa)"

definition fetches :: "u32 set \<Rightarrow> caches \<Rightarrow> bool" where
  "fetches A c \<longleftrightarrow> synced A c \<and> (invalidating c \<or> (\<forall>pa \<in> A. \<forall>x. ilines c pa = Some x \<longrightarrow> x = pou c pa))"

text \<open>What the hardware may do on its own.\<close>

lemma hw_pou: "hw_step c c' \<Longrightarrow> pou c' pa = pou c pa \<or> pou c' pa = dview c pa"
  by (induction rule: hw_step.induct) (auto simp: dview_def)

lemma hw_cleaning: "hw_step c c' \<Longrightarrow> pa \<in> cleaning c' \<or> pa \<notin> cleaning c \<or> pou c' pa = dview c pa"
  by (induction rule: hw_step.induct) auto

lemma hw_ilines: "hw_step c c' \<Longrightarrow> ilines c' pa = Some x \<Longrightarrow> ilines c pa = Some x \<and> (invalidating c \<longrightarrow> invalidating c') \<or> x = pou c pa"
  by (induction rule: hw_step.induct) (auto split: if_splits)

lemma hw_unified: "hw_step c c' \<Longrightarrow> unified A c \<Longrightarrow> unified A c'"
  using hw_pou hw_cleaning unfolding unified_def by (metis Diff_iff hw_dview)

lemma hw_synced: "hw_step c c' \<Longrightarrow> synced A c \<Longrightarrow> synced A c'"
  using hw_pou unfolding synced_def by (metis hw_dview)

lemma hw_fetches:
  assumes "hw_step c c'" "fetches A c"
  shows "fetches A c'"
proof -
  have s: "synced A c" "synced A c'" using assms hw_synced by (auto simp: fetches_def)
  then have "pou c' pa = pou c pa" if "pa \<in> A" for pa using that hw_dview [OF assms(1)] by (simp add: synced_def)
  then show ?thesis using assms(2) hw_ilines [OF assms(1)] s(2) unfolding fetches_def by metis
qed

lemma hw_invalidating: "hw_step c c' \<Longrightarrow> \<not> invalidating c \<Longrightarrow> \<not> invalidating c'"
  by (induction rule: hw_step.induct) simp_all

lemma op_unified: "op_step off x c c' \<Longrightarrow> \<not> is_store x \<Longrightarrow> unified A c \<Longrightarrow> unified A c'"
  by (induction rule: op_step.induct) (auto simp: unified_def)

lemma cexec_unified:
  assumes "cexec off ops c c'" "\<forall>x \<in> set ops. \<not> is_store x" "unified A c"
  shows "unified A c'"
  using cexec_keeps [OF assms(1), of "unified A"] assms hw_unified op_unified by blast

text \<open>After a sequence of cleanings every byte of a line among them is unified.\<close>

lemma clean_unified:
  assumes "cexec off ops c c'" "\<forall>x \<in> set ops. \<not> is_store x"
  shows "unified {pa. \<exists>va. DCCMVAU va \<in> set ops \<and> line pa = line (va - off)} c'"
  using assms
proof (induction rule: cexec.induct)
  case (finish c)
  then show ?case by (simp add: unified_def)
next
  case (hw c c1 ops c')
  then show ?case by blast
next
  case (op x c c1 ops c')
  have "unified {pa. \<exists>va. x = DCCMVAU va \<and> line pa = line (va - off)} c1"
    using op.hyps(1) by cases (auto simp: unified_def)
  then have "unified {pa. \<exists>va. x = DCCMVAU va \<and> line pa = line (va - off)} c'"
    using cexec_unified [OF op.hyps(2)] op.prems by simp
  then show ?case using op.IH op.prems by (auto simp: unified_def)
qed

lemma sync_fetches:
  assumes "cexec off (ops @ [Dsb, InvalidateI, Dsb, Isb]) c c'" "\<forall>x \<in> set ops. \<not> is_store x"
    and "DCCMVAU va \<in> set ops" "line pa = line (va - off)"
  shows "ifetch c' pa = dview c pa"
proof -
  let ?A = "{pa. \<exists>va. DCCMVAU va \<in> set ops \<and> line pa = line (va - off)}"
  obtain c1 where c1: "cexec off ops c c1" "cexec off [Dsb, InvalidateI, Dsb, Isb] c1 c'"
    using cexec_append [OF assms(1)] by blast
  from c1(2) obtain c2 c3 c4 c5 c6 where e: "cexec off [] c1 c2" "op_step off Dsb c2 c3" "cexec off [] c3 c4"
    "op_step off InvalidateI c4 c5" "cexec off [Dsb, Isb] c5 c'"
    by (meson cexec_Cons)
  from e(5) obtain c7 c8 where f: "cexec off [] c5 c7" "op_step off Dsb c7 c8" "cexec off [Isb] c8 c'"
    by (meson cexec_Cons)
  have "unified ?A c2" using clean_unified [OF c1(1) assms(2)] cexec_unified [OF e(1)] by simp
  then have "synced ?A c3" using e(2) by (auto simp: unified_def synced_def elim: op_dsbE)
  then have "synced ?A c4" using cexec_keeps [OF e(3), of "synced ?A"] hw_synced by auto
  then have "fetches ?A c5" using e(4) by (auto simp: fetches_def synced_def elim!: op_invalE)
  then have "fetches ?A c7" using cexec_keeps [OF f(1), of "fetches ?A"] hw_fetches by auto
  then have "fetches ?A c8 \<and> \<not> invalidating c8" using f(2) by (auto elim: op_dsbE)
  then have "fetches ?A c' \<and> \<not> invalidating c'"
  proof (rule cexec_keeps [OF f(3)])
    show "fetches ?A d' \<and> \<not> invalidating d'" if "hw_step d d'" "fetches ?A d \<and> \<not> invalidating d" for d d'
      using that hw_fetches hw_invalidating by blast
  qed (auto elim: op_isbE)
  moreover have "pa \<in> ?A" using assms(3,4) by blast
  moreover have "dview c' = dview c" using cexec_dview [OF assms(1)] assms(2) by auto
  ultimately show ?thesis by (auto simp: ifetch_def fetches_def synced_def split: option.split)
qed

section \<open>The loop over the lines\<close>

lemma line_nat: "unat (line a) = unat a div 32 * 32"
proof -
  have "(31 :: u32) = mask 5" by (simp add: mask_eq_exp_minus_1)
  then have "line a = a AND NOT (mask 5)" by (simp only: line_def)
  also have "\<dots> = push_bit 5 (drop_bit 5 a)" by (intro bit_word_eqI) (auto simp: bit_simps not_le)
  finally have "line a = push_bit 5 (drop_bit 5 a)" .
  moreover have "unat a div 32 * 32 < 4294967296" using unat_u32_less [of a] by linarith
  ultimately show ?thesis
    by (simp add: push_bit_eq_mult unat_word_ariths unat_drop_bit_eq drop_bit_eq_div mult.commute)
qed

lemma line_shift:
  assumes "off = 32 * q" "a = 32 * b" "unat d < 32"
  shows "line (a + d - off) = line (a - off)"
proof -
  let ?z = "b - q"
  have z: "a - off = 32 * ?z" "a + d - off = 32 * ?z + d" using assms by (simp_all add: algebra_simps)
  have "unat (32 * ?z) = 32 * unat ?z mod 4294967296" using unat_word_ariths(2) [of 32 ?z] by simp
  also have "\<dots> = 32 * (unat ?z mod 134217728)" using mult_mod_right [of 32 "unat ?z" 134217728] by simp
  finally have m: "unat (32 * ?z) = 32 * (unat ?z mod 134217728)" .
  have "unat (32 * ?z + d) = unat (32 * ?z) + unat d"
    using assms(3) m by (intro unat_u32_add) (simp add: m)
  then have "unat (line (32 * ?z + d)) = unat (line (32 * ?z))" using assms(3) m by (simp add: line_nat)
  then show ?thesis unfolding z by (simp add: word_unat_eq_iff)
qed

lemma clean_loop_covers:
  assumes "32 dvd unat a" "unat e \<le> unat a + 32 * n" "unat e + 32 \<le> 4294967296"
  shows "\<exists>ops. clean_loop a e = Some ops \<and> (\<forall>x \<in> set ops. \<not> is_store x) \<and>
    (\<forall>x. unat a \<le> unat x \<and> x < e \<longrightarrow> (\<exists>b d. DCCMVAU (32 * b) \<in> set ops \<and> unat d < 32 \<and> x = 32 * b + d))"
  using assms
proof (induction n arbitrary: a)
  case 0
  then have "\<not> a < e" by (simp add: word_less_nat_alt)
  then show ?case by (subst clean_loop.simps) (auto simp: word_less_nat_alt)
next
  case (Suc n)
  show ?case
  proof (cases "a < e")
    case False
    then show ?thesis by (subst clean_loop.simps) (auto simp: word_less_nat_alt)
  next
    case True
    then have a32: "unat (a + 32) = unat a + 32"
      using Suc.prems(3) by (subst unat_u32_add) (simp_all add: word_less_nat_alt)
    then have p: "32 dvd unat (a + 32)" "unat e \<le> unat (a + 32) + 32 * n" using Suc.prems(1,2) by simp_all
    from Suc.IH [OF p Suc.prems(3)] obtain ops where ops: "clean_loop (a + 32) e = Some ops" "\<forall>x \<in> set ops. \<not> is_store x"
      "\<forall>x. unat (a + 32) \<le> unat x \<and> x < e \<longrightarrow> (\<exists>b d. DCCMVAU (32 * b) \<in> set ops \<and> unat d < 32 \<and> x = 32 * b + d)" by blast
    obtain k where k: "unat a = 32 * k" using Suc.prems(1) by (elim dvdE)
    have "of_nat (unat a) = a" by simp
    then have ak: "a = 32 * of_nat k" unfolding k by simp
    have "\<exists>b d. DCCMVAU (32 * b) \<in> set (DCCMVAU a # ops) \<and> unat d < 32 \<and> x = 32 * b + d"
      if x: "unat a \<le> unat x" "x < e" for x
    proof (cases "unat x < unat a + 32")
      case True
      have "unat (x - a) = unat x - unat a" using x(1) by (simp add: unat_sub word_le_nat_alt)
      then have "unat (x - a) < 32" using True x(1) by simp
      then show ?thesis using ak by (intro exI [of _ "of_nat k"] exI [of _ "x - a"]) simp
    next
      case False
      then show ?thesis using ops(3) x(2) a32 by (metis linorder_not_less list.set_intros(2))
    qed
    moreover have "clean_loop a e = Some (DCCMVAU a # ops)" using True ops(1) by (subst clean_loop.simps) simp
    ultimately show ?thesis using ops(2) by auto
  qed
qed

text \<open>\<open>icache_sync\<close> returns, and after it an instruction fetch in the range sees what the data path holds.\<close>

lemma icache_sync_correct:
  assumes fit: "unat va + unat len + 32 \<le> 4294967296" and off: "off = 32 * q"
  shows "\<exists>ops. icache_sync va len = Some ops \<and>
    (\<forall>c c'. cexec off ops c c' \<longrightarrow> dview c' = dview c \<and>
       (\<forall>k < unat len. ifetch c' (va - off + of_nat k) = dview c (va - off + of_nat k)))"
proof -
  have e: "unat (va + len) = unat va + unat len" using fit by (intro unat_u32_add) simp
  have "32 dvd unat (line va)" "unat (va + len) \<le> unat (line va) + 32 * unat (va + len)" "unat (va + len) + 32 \<le> 4294967296"
    using fit e by (simp_all add: line_nat)
  from clean_loop_covers [OF this] obtain ops where ops: "clean_loop (line va) (va + len) = Some ops" "\<forall>x \<in> set ops. \<not> is_store x"
    "\<forall>x. unat (line va) \<le> unat x \<and> x < va + len \<longrightarrow> (\<exists>b d. DCCMVAU (32 * b) \<in> set ops \<and> unat d < 32 \<and> x = 32 * b + d)" by blast
  let ?ops = "ops @ [Dsb, InvalidateI, Dsb, Isb]"
  have "ifetch c' (va - off + of_nat k) = dview c (va - off + of_nat k)" if ex: "cexec off ?ops c c'" and k: "k < unat len" for c c' k
  proof -
    have u: "unat (va + of_nat k) = unat va + k"
    proof -
      have "k < 4294967296" using k unat_u32_less [of len] by simp
      then show ?thesis using fit k by (subst unat_u32_add) (simp_all add: unat_u32_of_nat)
    qed
    then have "unat (line va) \<le> unat (va + of_nat k) \<and> va + of_nat k < va + len"
      using k e by (simp add: line_nat word_less_nat_alt trans_le_add1)
    then obtain b d where b: "DCCMVAU (32 * b) \<in> set ops" "unat d < 32" "va + of_nat k = 32 * b + d" using ops(3) by blast
    have "line (va - off + of_nat k) = line (32 * b - off)"
      using line_shift [OF off refl b(2), of b] b(3) by (simp add: algebra_simps)
    then show ?thesis using sync_fetches [OF ex ops(2) b(1)] by simp
  qed
  moreover have "dview c' = dview c" if "cexec off ?ops c c'" for c c'
    using cexec_dview [OF that] ops(2) by auto
  moreover have "icache_sync va len = Some ?ops" using ops(1) by (simp add: icache_sync_def line_def)
  ultimately show ?thesis by blast
qed

section \<open>Loading an image\<close>

lemma store_bytes_write:
  assumes "\<And>k. k < length xs \<Longrightarrow> translate (active_table s) Priv True (a + of_nat k) = Some (b + of_nat k)"
    and "store_bytes a xs s = Some s'"
  shows "pmem s' = write_at b xs (pmem s) \<and> active_table s' = active_table s"
  using assms
proof (induction xs arbitrary: a b s)
  case (Cons x xs)
  let ?s = "s\<lparr>pmem := (pmem s)(b := x)\<rparr>"
  have "kstore a x s = Some ?s" using Cons.prems(1) [of 0] by (simp add: kstore_def)
  then have st: "store_bytes (a + 1) xs ?s = Some s'" using Cons.prems(2) by simp
  have "translate (active_table ?s) Priv True (a + 1 + of_nat k) = Some (b + 1 + of_nat k)" if "k < length xs" for k
    using Cons.prems(1) [of "Suc k"] that by (simp add: active_table_def ac_simps)
  from Cons.IH [OF this st] show ?case by (simp add: active_table_def fun_upd_def)
qed simp

lemma alias_numbers:
  assumes "i < 3"
  shows "unat (user_slot (board_of p) i + PHYS_OFFSET (board_of p)) = 0xC0200000 + i * 0x100000"
    and "\<exists>q. PHYS_OFFSET (board_of p) = 32 * q"
proof -
  show "unat (user_slot (board_of p) i + PHYS_OFFSET (board_of p)) = 0xC0200000 + i * 0x100000"
    using less_3_cases [OF assms] by (cases p) (auto simp: user_slot_def board_defs kernel_const)
  have "PHYS_OFFSET (board_of Qemu) = 32 * 0x2800000" "PHYS_OFFSET (board_of Bbb) = 32 * 0x2000000"
    by (simp_all add: board_defs kernel_const)
  then show "\<exists>q. PHYS_OFFSET (board_of p) = 32 * q" by (cases p) blast+
qed

text \<open>The memory after \<open>process_init\<close>, as the two copies leave it.\<close>

lemma process_init_writes:
  assumes "active_table s = boot_table p" "i < 3" "length (img_bytes (images ! i)) \<le> 0x100000"
    and "process_init (board_of p) lk images i s = Some s'"
  shows "pmem s' = write_at (user_slot (board_of p) i) (img_bytes (images ! i))
    (write_at (user_slot (board_of p) i) (replicate 0x100000 (CHR 0x00)) (pmem s))"
proof -
  let ?b = "board_of p" and ?im = "img_bytes (images ! i)"
  let ?slot = "user_slot ?b i" and ?off = "PHYS_OFFSET ?b" and ?pr = "make_process (board_of p) lk (images ! i) i"
  let ?s1 = "s\<lparr>processes := (processes s)[i := ?pr]\<rparr>"
  have base: "user_phys_base ?pr = ?slot" "unat (img_size ?pr) = length ?im"
    using assms(3) by (simp_all add: make_process_def user_slot_def unat_u32_of_nat)
  from assms(4) obtain s2 s3 where st: "store_bytes (?slot + ?off) (replicate 0x100000 (CHR 0x00)) ?s1 = Some s2"
    "store_bytes (?slot + ?off) ?im s2 = Some s3" "pmem s' = pmem s3"
    by (auto simp: process_init_def Let_def base kmemset_def kmemcpy_def bind_eq_Some_conv kernel_const)
  have "active_table ?s1 = boot_table p" using assms(1) by (simp add: active_table_def)
  then have "pmem s2 = write_at ?slot (replicate 0x100000 (CHR 0x00)) (pmem s) \<and> active_table s2 = boot_table p"
    using store_bytes_write [OF _ st(1), of ?slot] alias_translate [OF assms(2)] by simp
  then show ?thesis
    using store_bytes_write [OF _ st(2), of ?slot] alias_translate [OF assms(2)] assms(3) st(3) by simp
qed

text \<open>C13: a process executes the image it was given. While \<open>process_init_all\<close> clears the slot of process \<open>i\<close>, copies its
  image there and calls \<open>icache_sync\<close>, the data and the instruction cache may hold anything, may load and write back
  bytes at any moment, and finish maintenance only when a barrier asks. Nevertheless the code runs to its end; then the data
  path holds the memory the kernel model computes, and an instruction fetch of any byte of the image returns the byte of the image.\<close>

theorem image_visible_to_fetch:
  assumes "active_table s = boot_table p" "tables s (lk_boot_pgd lk - PHYS_OFFSET (board_of p)) = boot_table p"
    and "i < 3" "length (img_bytes (images ! i)) \<le> 0x100000" "dview c = pmem s"
  shows "\<exists>ops s'. load_image (board_of p) (images ! i) i = Some ops \<and> process_init (board_of p) lk images i s = Some s' \<and>
    (\<exists>c'. cexec (PHYS_OFFSET (board_of p)) ops c c') \<and>
    (\<forall>c'. cexec (PHYS_OFFSET (board_of p)) ops c c' \<longrightarrow> dview c' = pmem s' \<and>
       (\<forall>k < length (img_bytes (images ! i)). ifetch c' (user_slot (board_of p) i + of_nat k) = img_bytes (images ! i) ! k))"
proof -
  let ?b = "board_of p" and ?im = "img_bytes (images ! i)"
  let ?slot = "user_slot ?b i" and ?off = "PHYS_OFFSET ?b" and ?n = "of_nat (length ?im) :: u32"
  have n: "unat ?n = length ?im" using assms(4) by (simp add: unat_u32_of_nat)
  obtain q where q: "?off = 32 * q" using alias_numbers(2) [OF assms(3)] by blast
  have "unat (?slot + ?off) + unat ?n + 32 \<le> 4294967296" using alias_numbers(1) [OF assms(3), of p] assms(3,4) n by simp
  from icache_sync_correct [OF this q] obtain cl where cl: "icache_sync (?slot + ?off) ?n = Some cl"
    "\<And>d d'. cexec ?off cl d d' \<Longrightarrow> dview d' = dview d \<and> (\<forall>k < length ?im. ifetch d' (?slot + of_nat k) = dview d (?slot + of_nat k))"
    by (auto simp: n)
  let ?ops = "store_ops (?slot + ?off) (replicate 0x100000 (CHR 0x00)) @ store_ops (?slot + ?off) ?im @ cl"
  have li: "load_image ?b (images ! i) i = Some ?ops"
    using cl(1) n by (simp add: load_image_def user_slot_def [symmetric] Let_def) (simp add: kernel_const)
  from process_init_spec [OF assms(1,2,3,4)] obtain s' where s': "process_init ?b lk images i s = Some s'"
    and im: "\<And>k. k < 0x100000 \<Longrightarrow> pmem s' (?slot + of_nat k) = slot_image ?im ! k" by auto
  note w = process_init_writes [OF assms(1,3,4) s']
  have "dview c' = pmem s' \<and> (\<forall>k < length ?im. ifetch c' (?slot + of_nat k) = ?im ! k)" if ex: "cexec ?off ?ops c c'" for c'
  proof -
    obtain c1 c2 where c12: "cexec ?off (store_ops (?slot + ?off) (replicate 0x100000 (CHR 0x00))) c c1"
      "cexec ?off (store_ops (?slot + ?off) ?im) c1 c2" "cexec ?off cl c2 c'"
      using cexec_append [OF ex] cexec_append by blast
    have "dview c2 = pmem s'"
      using store_ops_dview [OF c12(1)] store_ops_dview [OF c12(2)] w assms(5) by simp
    moreover have "slot_image ?im ! k = ?im ! k" if "k < length ?im" for k
      using that by (simp add: slot_image_def nth_append)
    ultimately show ?thesis using cl(2) [OF c12(3)] im assms(4) by simp
  qed
  with li s' show ?thesis using cexec_exists by blast
qed

theorem image_visible_to_fetch_witness:
  "\<exists>ops. load_image qemu_board \<lparr>img_name = ''counter'', img_bytes = ''AB''\<rparr> 0 = Some ops \<and>
     (\<exists>c'. cexec (PHYS_OFFSET qemu_board) ops \<lparr>pou = (\<lambda>_. CHR ''?''), dcache = (\<lambda>_. Some (CHR ''x'')),
        ilines = (\<lambda>_. Some (CHR ''!'')), cleaning = {}, invalidating = False\<rparr> c' \<and> ifetch c' 0x70200001 = CHR ''B'')"
proof -
  let ?s = "mmu_init Qemu sample_link (PHYS_OFFSET (board_of Qemu)) (bss_state (\<lambda>_. CHR ''x''))"
  let ?c = "\<lparr>pou = (\<lambda>_. CHR ''?''), dcache = (\<lambda>_. Some (CHR ''x'')), ilines = (\<lambda>_. Some (CHR ''!'')), cleaning = {}, invalidating = False\<rparr>"
  let ?imgs = "[\<lparr>img_name = ''counter'', img_bytes = ''AB''\<rparr>]"
  have a: "active_table ?s = boot_table Qemu" "tables ?s (lk_boot_pgd sample_link - PHYS_OFFSET (board_of Qemu)) = boot_table Qemu"
    using boot_pa_aligned [OF sample_link_ok, of Qemu]
    by (simp_all add: active_table_def mmu_init_def mmu_enable_def bss_state_def boot_table_def ttbr0_base Let_def)
  have d: "dview ?c = pmem ?s" by (simp add: dview_def mmu_init_def mmu_enable_def bss_state_def Let_def fun_eq_iff)
  have l: "(0::nat) < 3" "length (img_bytes (?imgs ! 0)) \<le> 0x100000" by simp_all
  from image_visible_to_fetch [OF a l d] obtain ops c' where o: "load_image qemu_board (?imgs ! 0) 0 = Some ops"
    "cexec (PHYS_OFFSET qemu_board) ops ?c c'"
    and f: "\<And>k. k < length (img_bytes (?imgs ! 0)) \<Longrightarrow> ifetch c' (user_slot qemu_board 0 + of_nat k) = img_bytes (?imgs ! 0) ! k"
    unfolding board_of.simps by blast
  have "user_slot qemu_board 0 + of_nat 1 = (0x70200001 :: u32)" by (simp add: user_slot_def board_defs kernel_const)
  then have "ifetch c' 0x70200001 = CHR ''B''" using f [of 1] by simp
  with o show ?thesis by (intro exI [of _ ops] exI [of _ c'] conjI) simp_all
qed

end
