(* ===== verification/Context_Switch.thy ===== *)
theory Context_Switch
  imports Sample_State
begin

text \<open>
  The assembly of the switch and of the exception entries, on registers and stack memory:
  \<open>kernel/arch/arm/proc/context_switch.S\<close>, \<open>kernel/arch/arm/exception/exception_entry.S\<close>, and the stores of
  \<open>thread_build_initial_frame\<close> in \<open>kernel/proc/thread.c\<close>.

  The memory is a map of 32-bit words; every address the code uses is a multiple of four (the stack pointers, the stacks and
  the control blocks are aligned), so distinct addresses are disjoint words. One definition stands for one labelled stretch of
  straight-line assembly. What runs between an entry and the matching exit is compiled C code; of it only what the calling
  convention promises is used: it leaves the stack above its frame alone and gives back the stack it has taken. What it does from a place where
  a thread is suspended on (\<open>kpoint\<close>) is a parameter.
\<close>

section \<open>Registers and memory\<close>

text \<open>\<open>gpr m i\<close> is register \<open>i\<close> for \<open>i\<close> up to 12; \<open>m_spsr\<close> is that of the supervisor mode.\<close>

record machine =
  gpr :: "nat \<Rightarrow> u32"
  svc_sp :: u32
  svc_lr :: u32
  usr_sp :: u32
  usr_lr :: u32
  m_pc :: u32
  m_cpsr :: u32
  m_spsr :: u32
  m_ttbr0 :: u32
  m_mem :: "u32 \<Rightarrow> u32"

primrec stm :: "u32 \<Rightarrow> u32 list \<Rightarrow> (u32 \<Rightarrow> u32) \<Rightarrow> u32 \<Rightarrow> u32" where
  "stm a [] m = m"
| "stm a (v # vs) m = stm (a + 4) vs (m(a := v))"

definition ldm :: "u32 \<Rightarrow> nat \<Rightarrow> (u32 \<Rightarrow> u32) \<Rightarrow> u32 list" where
  "ldm a n m = map (\<lambda>i. m (a + 4 * of_nat i)) [0..<n]"

text \<open>\<open>stmfd sp!\<close> and \<open>ldmfd sp!\<close>: the lowest register at the lowest address.\<close>

definition push_words :: "u32 list \<Rightarrow> machine \<Rightarrow> machine" where
  "push_words vs m =
     (let a = svc_sp m - 4 * of_nat (length vs) in m\<lparr>svc_sp := a, m_mem := stm a vs (m_mem m)\<rparr>)"

definition set_gprs :: "nat \<Rightarrow> u32 list \<Rightarrow> (nat \<Rightarrow> u32) \<Rightarrow> nat \<Rightarrow> u32" where
  "set_gprs k vs g = (\<lambda>i. if k \<le> i \<and> i < k + length vs then vs ! (i - k) else g i)"

section \<open>context\_switch.S\<close>

definition CTX_SP_SVC_OFFSET :: u32 where "CTX_SP_SVC_OFFSET = 52"
definition CTX_LR_SVC_OFFSET :: u32 where "CTX_LR_SVC_OFFSET = 56"
definition CTX_SPSR_OFFSET :: u32 where "CTX_SPSR_OFFSET = 60"
definition CTX_SP_USR_OFFSET :: u32 where "CTX_SP_USR_OFFSET = 64"
definition CTX_LR_USR_OFFSET :: u32 where "CTX_LR_USR_OFFSET = 68"
definition THREAD_PROC_OFFSET :: u32 where "THREAD_PROC_OFFSET = 72"
definition PROC_PGD_PA_OFFSET :: u32 where "PROC_PGD_PA_OFFSET = 12"

lemmas offset_defs = CTX_SP_SVC_OFFSET_def CTX_LR_SVC_OFFSET_def CTX_SPSR_OFFSET_def CTX_SP_USR_OFFSET_def
  CTX_LR_USR_OFFSET_def THREAD_PROC_OFFSET_def PROC_PGD_PA_OFFSET_def

text \<open>The words of \<open>push {r4-r11, lr}\<close>.\<close>

definition saved_regs :: "machine \<Rightarrow> u32 list" where
  "saved_regs m = map (gpr m) [4..<12] @ [svc_lr m]"

definition asm_save :: "machine \<Rightarrow> machine" where
  "asm_save m =
     (let prev = gpr m 0;
          m1 = push_words (saved_regs m) m
      in m1\<lparr>m_mem := (m_mem m1)(prev + CTX_SP_SVC_OFFSET := svc_sp m1,
                              prev + CTX_SP_USR_OFFSET := usr_sp m1,
                              prev + CTX_LR_USR_OFFSET := usr_lr m1)\<rparr>)"

definition asm_compare :: "machine \<Rightarrow> machine" where
  "asm_compare m =
     m\<lparr>gpr := (gpr m)(2 := m_mem m (gpr m 0 + THREAD_PROC_OFFSET), 3 := m_mem m (gpr m 1 + THREAD_PROC_OFFSET))\<rparr>"

definition ctxsw_switch_mm :: "machine \<Rightarrow> machine" where
  "ctxsw_switch_mm m =
     (let r2 = m_mem m (gpr m 1 + THREAD_PROC_OFFSET);
          r2' = m_mem m (r2 + PROC_PGD_PA_OFFSET)
      in m\<lparr>m_ttbr0 := r2' OR 0x4A, gpr := (gpr m)(2 := 0)\<rparr>)"

definition asm_load_next :: "machine \<Rightarrow> machine" where
  "asm_load_next m =
     (let next = gpr m 1;
          a = m_mem m (next + CTX_SP_SVC_OFFSET);
          ws = ldm a 9 (m_mem m)
      in m\<lparr>usr_sp := m_mem m (next + CTX_SP_USR_OFFSET),
           usr_lr := m_mem m (next + CTX_LR_USR_OFFSET),
           svc_sp := a + 36,
           gpr := set_gprs 4 (take 8 ws) (gpr m),
           svc_lr := ws ! 8,
           m_pc := ws ! 8\<rparr>)"

definition context_switch_asm :: "machine \<Rightarrow> machine" where
  "context_switch_asm m =
     (if gpr m 0 = 0 then asm_load_next (ctxsw_switch_mm m)
      else let m1 = asm_compare (asm_save m)
           in asm_load_next (if gpr m1 2 = gpr m1 3 then m1 else ctxsw_switch_mm m1))"

section \<open>exception\_entry.S\<close>

text \<open>\<open>svc\<close> taken in user mode: the hardware saves the status and the return address, and masks interrupts; then the entry
  stub pushes the frame that \<open>handle_svc\<close> gets as its \<open>exception_context_t\<close>.\<close>

definition take_svc :: "machine \<Rightarrow> machine" where
  "take_svc m = m\<lparr>m_spsr := m_cpsr m, svc_lr := m_pc m, m_cpsr := 0x93\<rparr>"

definition exception_entry_svc :: "machine \<Rightarrow> machine" where
  "exception_entry_svc m =
     (let m1 = push_words (map (gpr m) [0..<13] @ [svc_lr m]) m;
          m2 = push_words [m_spsr m1] (m1\<lparr>gpr := (gpr m1)(0 := m_spsr m1)\<rparr>)
      in m2\<lparr>gpr := (gpr m2)(0 := svc_sp m2)\<rparr>)"

definition svc_return :: "machine \<Rightarrow> machine" where
  "svc_return m =
     (let a = svc_sp m;
          s = m_mem m a;
          ws = ldm (a + 4) 14 (m_mem m)
      in m\<lparr>m_spsr := s, svc_sp := a + 4 + 56, gpr := set_gprs 0 (take 13 ws) (gpr m), m_pc := ws ! 13, m_cpsr := s\<rparr>)"

text \<open>A fault: the hardware leaves an address past the faulting instruction, \<open>lr\<close>, and the status, \<open>st\<close>, in the banked registers of
  the abort or the undefined mode; the stub subtracts its own correction from the address and pushes the frame on the stack of that mode, at \<open>sp\<close>, then changes to the
  supervisor mode.\<close>

datatype fault_kind = Dabort | Pabort | Undef_instr

primrec lr_adjust :: "fault_kind \<Rightarrow> u32" where
  "lr_adjust Dabort = 8"
| "lr_adjust Pabort = 4"
| "lr_adjust Undef_instr = 4"

definition fault_entry :: "fault_kind \<Rightarrow> u32 \<Rightarrow> u32 \<Rightarrow> u32 \<Rightarrow> machine \<Rightarrow> machine" where
  "fault_entry f sp lr st m =
     (let lr1 = lr - lr_adjust f;
          sp1 = sp - 56;
          mem1 = stm sp1 (map (gpr m) [0..<13] @ [lr1]) (m_mem m);
          sp2 = sp1 - 4;
          mem2 = stm sp2 [st] mem1
      in m\<lparr>m_mem := mem2, gpr := (gpr m)(0 := sp2), m_cpsr := 0x93\<rparr>)"

text \<open>The preferred return address of the architecture, for code in ARM state (the programs are built with \<open>-marm\<close>): a data abort leaves the address
  of the faulting instruction plus 8 in the link register, a prefetch abort and an undefined instruction that address plus 4.\<close>

primrec hw_return_offset :: "fault_kind \<Rightarrow> u32" where
  "hw_return_offset Dabort = 8"
| "hw_return_offset Pabort = 4"
| "hw_return_offset Undef_instr = 4"

definition take_fault :: "fault_kind \<Rightarrow> u32 \<Rightarrow> machine \<Rightarrow> machine" where
  "take_fault f sp m = fault_entry f sp (m_pc m + hw_return_offset f) (m_cpsr m) m"

text \<open>An interrupt: the hardware leaves the address of the next instruction plus four and the status in the banked registers of the
  IRQ mode, which are the arguments here; \<open>srsdb\<close> pushes the adjusted address and the status.\<close>

definition exception_entry_irq :: "u32 \<Rightarrow> u32 \<Rightarrow> machine \<Rightarrow> machine" where
  "exception_entry_irq irq_lr irq_spsr m =
     (let m1 = push_words [irq_lr - 4, irq_spsr] m
      in push_words (map (gpr m1) [0..<13] @ [svc_lr m1]) (m1\<lparr>m_cpsr := 0x93\<rparr>))"

definition take_irq :: "machine \<Rightarrow> machine" where
  "take_irq m = exception_entry_irq (m_pc m + 4) (m_cpsr m) m"

text \<open>The two instructions at the end of the interrupt path, \<open>ldmfd sp!, {r0-r12, lr}\<close> and \<open>rfefd sp!\<close>; \<open>ret_from_first_entry\<close> consists
  of the same two.\<close>

definition irq_return :: "machine \<Rightarrow> machine" where
  "irq_return m =
     (let a = svc_sp m;
          ws = ldm a 14 (m_mem m)
      in m\<lparr>gpr := set_gprs 0 (take 13 ws) (gpr m), svc_lr := ws ! 13, svc_sp := a + 56 + 8,
           m_pc := m_mem m (a + 56), m_cpsr := m_mem m (a + 60)\<rparr>)"

definition ret_from_first_entry :: "machine \<Rightarrow> machine" where
  "ret_from_first_entry m = irq_return m"

section \<open>The first frame\<close>

text \<open>The stores of \<open>thread_build_initial_frame\<close> for the thread whose control block is at \<open>t\<close> and whose kernel
  stack is the \<open>sz\<close> bytes from \<open>base\<close>.\<close>

definition build_frame :: "link_map \<Rightarrow> u32 \<Rightarrow> u32 \<Rightarrow> u32 \<Rightarrow> u32 \<Rightarrow> u32 \<Rightarrow> u32 \<Rightarrow> (u32 \<Rightarrow> u32) \<Rightarrow> u32 \<Rightarrow> u32" where
  "build_frame lk entry arg t base sz ustack m =
     (let top_a = base + sz;
          frame = top_a - INIT_STACK_WORDS * 4;
          m1 = stm frame (initial_frame lk entry arg (ldm frame 25 m)) m
      in m1(t + CTX_SP_SVC_OFFSET := frame, t + CTX_LR_SVC_OFFSET := 0, t + CTX_SPSR_OFFSET := 0x10,
            t + CTX_SP_USR_OFFSET := ustack, t + CTX_LR_USR_OFFSET := 0))"

section \<open>Words in memory\<close>

definition words :: "u32 \<Rightarrow> nat \<Rightarrow> u32 set" where
  "words a n = (\<lambda>i. a + 4 * of_nat i) ` {..<n}"

lemma words_Suc: "words a (Suc n) = insert a (words (a + 4) n)"
  unfolding words_def lessThan_Suc_eq_insert_0 image_insert image_image by (simp add: add.assoc distrib_left)

lemma stm_other: "b \<notin> words a (length vs) \<Longrightarrow> stm a vs m b = m b"
  by (induction vs arbitrary: a m) (simp_all add: words_Suc)

lemma words_fresh: "n < 1073741823 \<Longrightarrow> a \<notin> words (a + 4) n"
proof
  assume n: "n < 1073741823" and "a \<in> words (a + 4) n"
  then obtain i where i: "i < n" "a = a + 4 + 4 * of_nat i" by (auto simp: words_def)
  then have "(of_nat (4 + 4 * i) :: u32) = 0" by (simp add: add.assoc)
  then have "unat (of_nat (4 + 4 * i) :: u32) = 0" by simp
  moreover have "4 + 4 * i < 4294967296" using i(1) n by linarith
  ultimately show False using unat_u32_of_nat [of "4 + 4 * i"] by linarith
qed

lemma stm_at:
  "i < length vs \<Longrightarrow> length vs < 1073741823 \<Longrightarrow> stm a vs m (a + 4 * of_nat i) = vs ! i"
proof (induction vs arbitrary: a m i)
  case Nil
  then show ?case by simp
next
  case (Cons v vs)
  show ?case
  proof (cases i)
    case 0
    have "stm (a + 4) vs (m(a := v)) a = v"
      using stm_other [of a "a + 4" vs "m(a := v)"] words_fresh [of "length vs" a] Cons.prems(2) by simp
    with 0 show ?thesis by simp
  next
    case (Suc j)
    have "a + 4 * of_nat i = a + 4 + 4 * of_nat j" using Suc by simp
    then show ?thesis using Cons.IH [of j "a + 4"] Cons.prems Suc by (simp add: add.assoc)
  qed
qed

lemma ldm_stm: "length vs < 1073741823 \<Longrightarrow> ldm a (length vs) (stm a vs m) = vs"
  by (rule nth_equalityI) (simp_all add: ldm_def stm_at)

lemma ldm_cong: "(\<And>b. b \<in> words a n \<Longrightarrow> m' b = m b) \<Longrightarrow> ldm a n m' = ldm a n m"
  by (simp add: ldm_def words_def)

lemma length_ldm [simp]: "length (ldm a n m) = n"
  by (simp add: ldm_def)

lemma nth_ldm: "i < n \<Longrightarrow> ldm a n m ! i = m (a + 4 * of_nat i)"
  by (simp add: ldm_def)

lemma ldm_take: "k \<le> n \<Longrightarrow> take k (ldm a n m) = ldm a k m"
  by (simp add: ldm_def take_map)

section \<open>Where the kernel's data lies\<close>

text \<open>The arrays \<open>threads[]\<close>, \<open>thread_kstack[][]\<close> and \<open>processes[]\<close> at the addresses \<open>tb\<close>, \<open>kb\<close> and \<open>pb\<close>. The size of a
  \<open>thread_t\<close> is 25 words, that of a \<open>process_t\<close> nine.\<close>

definition tcb :: "u32 \<Rightarrow> nat \<Rightarrow> u32" where "tcb tb t = tb + of_nat (100 * t)"
definition kstk :: "u32 \<Rightarrow> nat \<Rightarrow> u32" where "kstk kb t = kb + of_nat (8192 * t)"
definition pcb :: "u32 \<Rightarrow> nat \<Rightarrow> u32" where "pcb pb i = pb + of_nat (36 * i)"

definition interval :: "u32 \<Rightarrow> nat \<Rightarrow> u32 set" where
  "interval a n = {b. unat a \<le> unat b \<and> unat b < unat a + n}"

text \<open>What belongs to thread \<open>t\<close> alone: its kernel stack, and its control block but for the field \<open>state\<close> (offset 84), which the scheduler,
  \<open>sched_wake\<close> and \<open>process_kill\<close> write also while other threads run.\<close>

definition THREAD_STATE_OFFSET :: u32 where "THREAD_STATE_OFFSET = 84"

definition owned :: "u32 \<Rightarrow> u32 \<Rightarrow> nat \<Rightarrow> u32 set" where
  "owned tb kb t = (interval (tcb tb t) 100 - interval (tcb tb t + THREAD_STATE_OFFSET) 4) \<union> interval (kstk kb t) 8192"

definition apart :: "u32 \<Rightarrow> nat \<Rightarrow> u32 \<Rightarrow> nat \<Rightarrow> bool" where
  "apart a n b k \<longleftrightarrow> unat a + n \<le> unat b \<or> unat b + k \<le> unat a"

definition places :: "u32 \<Rightarrow> u32 \<Rightarrow> u32 \<Rightarrow> bool" where
  "places tb kb pb \<longleftrightarrow> 0 < unat tb \<and> unat tb + 600 < 4294967296 \<and> unat kb + 49152 < 4294967296 \<and> unat pb + 108 < 4294967296 \<and>
     apart tb 600 kb 49152 \<and> apart tb 600 pb 108 \<and> apart kb 49152 pb 108"

text \<open>Thread \<open>t\<close> runs on its own kernel stack and has room for the nine words.\<close>

definition stack_room :: "u32 \<Rightarrow> nat \<Rightarrow> u32 \<Rightarrow> bool" where
  "stack_room kb t sp \<longleftrightarrow> unat (kstk kb t) + 36 \<le> unat sp \<and> unat sp \<le> unat (kstk kb t) + 8192"

lemma unat_offset: "unat (a :: u32) + n < 4294967296 \<Longrightarrow> unat (a + of_nat n) = unat a + n"
  by (simp add: unat_u32_add unat_u32_of_nat)

lemma unat_tcb: "places tb kb pb \<Longrightarrow> t < 6 \<Longrightarrow> unat (tcb tb t) = unat tb + 100 * t"
  unfolding tcb_def places_def by (rule unat_offset) linarith

lemma unat_kstk: "places tb kb pb \<Longrightarrow> t < 6 \<Longrightarrow> unat (kstk kb t) = unat kb + 8192 * t"
  unfolding kstk_def places_def by (rule unat_offset) linarith

lemma unat_pcb: "places tb kb pb \<Longrightarrow> i < 3 \<Longrightarrow> unat (pcb pb i) = unat pb + 36 * i"
  unfolding pcb_def places_def by (rule unat_offset) linarith

lemma tcb_field: "places tb kb pb \<Longrightarrow> t < 6 \<Longrightarrow> unat k < 100 \<Longrightarrow> unat (tcb tb t + k) = unat tb + 100 * t + unat k"
  using unat_tcb [of tb kb pb t] by (subst unat_u32_add) (simp_all add: places_def)

lemma pcb_field: "places tb kb pb \<Longrightarrow> i < 3 \<Longrightarrow> unat k < 36 \<Longrightarrow> unat (pcb pb i + k) = unat pb + 36 * i + unat k"
  using unat_pcb [of tb kb pb i] by (subst unat_u32_add) (simp_all add: places_def)

lemma tcb_owned:
  assumes "places tb kb pb" "t < 6" "unat k < 84"
  shows "tcb tb t + k \<in> owned tb kb t"
  using tcb_field [OF assms(1,2), of k] tcb_field [OF assms(1,2), of 84] unat_tcb [OF assms(1,2)] assms(3)
  by (simp add: owned_def interval_def THREAD_STATE_OFFSET_def)

lemma stack_owned: "interval (kstk kb t) 8192 \<subseteq> owned tb kb t"
  by (auto simp: owned_def)

lemma owned_cases:
  assumes "places tb kb pb" "t < 6" "b \<in> owned tb kb t"
  shows "(unat tb + 100 * t \<le> unat b \<and> unat b < unat tb + 100 * t + 100) \<or>
    (unat kb + 8192 * t \<le> unat b \<and> unat b < unat kb + 8192 * t + 8192)"
  using assms(3) unat_tcb [OF assms(1,2)] unat_kstk [OF assms(1,2)] by (auto simp: owned_def interval_def)

lemma owned_disjoint:
  assumes "places tb kb pb" "t < 6" "u < 6" "t \<noteq> u" "b \<in> owned tb kb t"
  shows "b \<notin> owned tb kb u"
proof
  assume "b \<in> owned tb kb u"
  note c = owned_cases [OF assms(1,2,5)] owned_cases [OF assms(1,3) this]
  have p: "unat tb + 600 \<le> unat kb \<or> unat kb + 49152 \<le> unat tb" using assms(1) by (simp add: places_def apart_def)
  have "t < u \<or> u < t" using assms(4) by auto
  then show False by (insert c p assms(2,3), elim disjE conjE; linarith)
qed

lemma pcb_not_owned:
  assumes "places tb kb pb" "t < 6" "i < 3" "unat k < 36"
  shows "pcb pb i + k \<notin> owned tb kb t"
proof
  assume "pcb pb i + k \<in> owned tb kb t"
  note c = owned_cases [OF assms(1,2) this]
  have "unat tb + 600 \<le> unat pb \<or> unat pb + 108 \<le> unat tb" "unat kb + 49152 \<le> unat pb \<or> unat pb + 108 \<le> unat kb"
    using assms(1) by (simp_all add: places_def apart_def)
  then show False by (insert c pcb_field [OF assms(1,3,4)] assms(2-4), elim disjE conjE; linarith)
qed

lemma words_interval:
  assumes "unat a + 4 * n < 4294967296"
  shows "words a n \<subseteq> interval a (4 * n)"
proof
  fix b assume "b \<in> words a n"
  then obtain i where i: "i < n" "b = a + of_nat (4 * i)" by (auto simp: words_def)
  then have "unat b = unat a + 4 * i" using assms by (simp only: i(2)) (rule unat_offset, linarith)
  then show "b \<in> interval a (4 * n)" using i(1) by (simp add: interval_def)
qed

lemma unat_below: "unat (k :: u32) \<le> unat sp \<Longrightarrow> unat (sp - k) = unat sp - unat k"
  by (simp add: unat_sub word_le_nat_alt)

lemma frame_owned:
  assumes "places tb kb pb" "t < 6" "stack_room kb t sp"
  shows "words (sp - 36) 9 \<subseteq> interval (kstk kb t) 8192" "words (sp - 36) 9 \<subseteq> owned tb kb t"
proof -
  have a: "unat (sp - 36) = unat sp - 36" using assms(3) unat_below [of 36 sp] by (simp add: stack_room_def)
  moreover have sp: "unat sp \<le> unat kb + 8192 * t + 8192" "unat kb + 8192 * t + 36 \<le> unat sp"
    using assms(3) unat_kstk [OF assms(1,2)] by (simp_all add: stack_room_def)
  ultimately have "words (sp - 36) 9 \<subseteq> interval (sp - 36) 36"
    using words_interval [of "sp - 36" 9] unat_u32_less [of sp] by simp
  moreover have "interval (sp - 36) 36 \<subseteq> interval (kstk kb t) 8192"
    using a sp unat_kstk [OF assms(1,2)] by (auto simp: interval_def)
  ultimately show "words (sp - 36) 9 \<subseteq> interval (kstk kb t) 8192" by blast
  then show "words (sp - 36) 9 \<subseteq> owned tb kb t" by (auto simp: owned_def)
qed

lemma tcb_not_frame:
  assumes "places tb kb pb" "t < 6" "u < 6" "stack_room kb u sp" "unat k < 100"
  shows "tcb tb t + k \<notin> words (sp - 36) 9"
proof
  assume "tcb tb t + k \<in> words (sp - 36) 9"
  then have "tcb tb t + k \<in> interval (kstk kb u) 8192" using frame_owned(1) [OF assms(1,3,4)] by blast
  then show False
    using tcb_field [OF assms(1,2,5)] unat_kstk [OF assms(1,3)] assms unfolding interval_def places_def apart_def by auto
qed

section \<open>The two halves of a switch\<close>

lemma length_saved_regs: "length (saved_regs m) = 9"
  by (simp add: saved_regs_def)

lemma nth_saved_regs:
  "i < 8 \<Longrightarrow> saved_regs m ! i = gpr m (4 + i)" "saved_regs m ! 8 = svc_lr m"
  by (simp_all add: saved_regs_def nth_append del: upt_conv_Cons upt_rec_numeral)

lemma asm_save_frame [simp]:
  "gpr (asm_save m) = gpr m" "m_ttbr0 (asm_save m) = m_ttbr0 m" "usr_sp (asm_save m) = usr_sp m" "usr_lr (asm_save m) = usr_lr m"
  by (simp_all add: asm_save_def push_words_def Let_def)

text \<open>What the save side leaves: the frame on the stack, three words in the control block, nothing else.\<close>

lemma asm_save_effect:
  assumes "places tb kb pb" "t < 6" "gpr m 0 = tcb tb t" "stack_room kb t (svc_sp m)"
  shows "ldm (svc_sp m - 36) 9 (m_mem (asm_save m)) = saved_regs m"
    "m_mem (asm_save m) (tcb tb t + 52) = svc_sp m - 36"
    "m_mem (asm_save m) (tcb tb t + 64) = usr_sp m"
    "m_mem (asm_save m) (tcb tb t + 68) = usr_lr m"
    "m_mem (asm_save m) (tcb tb t + 72) = m_mem m (tcb tb t + 72)"
    "b \<notin> owned tb kb t \<Longrightarrow> m_mem (asm_save m) b = m_mem m b"
proof -
  let ?vs = "saved_regs m"
  let ?M = "stm (svc_sp m - 36) ?vs (m_mem m)"
  have len: "length ?vs = 9" by (rule length_saved_regs)
  have save: "m_mem (asm_save m) = ?M(tcb tb t + 52 := svc_sp m - 36, tcb tb t + 64 := usr_sp m, tcb tb t + 68 := usr_lr m)"
    using assms(3) len by (simp add: asm_save_def push_words_def Let_def offset_defs)
  have off: "tcb tb t + k \<notin> words (svc_sp m - 36) 9" if "unat k < 100" for k
    by (rule tcb_not_frame [OF assms(1,2,2,4) that])
  have "ldm (svc_sp m - 36) 9 (m_mem (asm_save m)) = ldm (svc_sp m - 36) 9 ?M"
  proof (rule ldm_cong)
    fix b assume b: "b \<in> words (svc_sp m - 36) 9"
    have "b \<noteq> tcb tb t + 52" "b \<noteq> tcb tb t + 64" "b \<noteq> tcb tb t + 68" using b off [of 52] off [of 64] off [of 68] by auto
    then show "m_mem (asm_save m) b = ?M b" by (simp add: save)
  qed
  also have "\<dots> = ?vs" using ldm_stm [of ?vs "svc_sp m - 36" "m_mem m"] len by simp
  finally show "ldm (svc_sp m - 36) 9 (m_mem (asm_save m)) = ?vs" .
  show "m_mem (asm_save m) (tcb tb t + 52) = svc_sp m - 36" "m_mem (asm_save m) (tcb tb t + 64) = usr_sp m"
    "m_mem (asm_save m) (tcb tb t + 68) = usr_lr m"
    by (simp_all add: save)
  show "m_mem (asm_save m) (tcb tb t + 72) = m_mem m (tcb tb t + 72)"
    using stm_other [of "tcb tb t + 72" "svc_sp m - 36" ?vs "m_mem m"] off [of 72] len by (simp add: save)
  show "m_mem (asm_save m) b = m_mem m b" if "b \<notin> owned tb kb t"
  proof -
    have "b \<noteq> tcb tb t + 52" "b \<noteq> tcb tb t + 64" "b \<noteq> tcb tb t + 68"
      using that tcb_owned [OF assms(1,2), of 52] tcb_owned [OF assms(1,2), of 64] tcb_owned [OF assms(1,2), of 68] by auto
    moreover have "b \<notin> words (svc_sp m - 36) 9" using that frame_owned(2) [OF assms(1,2,4)] by blast
    ultimately show ?thesis using stm_other [of b "svc_sp m - 36" ?vs "m_mem m"] len by (simp add: save)
  qed
qed

lemma asm_save_other:
  assumes "b \<notin> words (svc_sp m - 36) 9" "\<And>k. unat k < 100 \<Longrightarrow> b \<noteq> gpr m 0 + k"
  shows "m_mem (asm_save m) b = m_mem m b"
  using assms(1) assms(2) [of 52] assms(2) [of 64] assms(2) [of 68] stm_other [of b "svc_sp m - 36" "saved_regs m" "m_mem m"]
  by (simp add: asm_save_def push_words_def Let_def length_saved_regs offset_defs)

text \<open>What lies above the nine words on the stack is outside both the frame and the control block.\<close>

lemma above_frame_kept:
  assumes "places tb kb pb" "t < 6" "stack_room kb t sp" "unat sp \<le> unat b" "unat b < unat (kstk kb t) + 8192"
  shows "b \<notin> words (sp - 36) 9" "unat k < 100 \<Longrightarrow> b \<noteq> tcb tb t + k" "b \<in> owned tb kb t"
proof -
  have k: "unat (kstk kb t) = unat kb + 8192 * t" by (rule unat_kstk [OF assms(1,2)])
  have sp: "unat (kstk kb t) + 36 \<le> unat sp" "unat (sp - 36) = unat sp - 36"
    using assms(3) unat_below [of 36 sp] by (simp_all add: stack_room_def)
  have lim: "unat kb + 49152 < 4294967296" using assms(1) by (simp add: places_def)
  have i: "b \<in> interval (kstk kb t) 8192" using sp assms(4,5) by (simp add: interval_def)
  then show "b \<in> owned tb kb t" using stack_owned by blast
  show "b \<notin> words (sp - 36) 9"
  proof
    assume "b \<in> words (sp - 36) 9"
    then have "b \<in> interval (sp - 36) 36" using words_interval [of "sp - 36" 9] sp assms(3) unat_u32_less [of sp] by auto
    then show False using sp assms(4) by (simp add: interval_def)
  qed
  show "b \<noteq> tcb tb t + k" if "unat k < 100"
  proof
    assume "b = tcb tb t + k"
    then have "unat b = unat tb + 100 * t + unat k" using tcb_field [OF assms(1,2) that] by simp
    moreover have "unat tb + 600 \<le> unat kb \<or> unat kb + 49152 \<le> unat tb" using assms(1) by (simp add: places_def apart_def)
    ultimately show False using i k that assms(2) by (auto simp: interval_def)
  qed
qed

text \<open>The whole switch, in terms of the memory after the save.\<close>

lemma context_switch_asm_result:
  assumes "gpr m 0 = prev" "gpr m 1 = next" "prev \<noteq> 0"
  defines "M \<equiv> m_mem (asm_save m)"
  shows "m_mem (context_switch_asm m) = M"
    "usr_sp (context_switch_asm m) = M (next + 64)" "usr_lr (context_switch_asm m) = M (next + 68)"
    "svc_sp (context_switch_asm m) = M (next + 52) + 36"
    "svc_lr (context_switch_asm m) = ldm (M (next + 52)) 9 M ! 8" "m_pc (context_switch_asm m) = ldm (M (next + 52)) 9 M ! 8"
    "4 \<le> i \<Longrightarrow> i < 12 \<Longrightarrow> gpr (context_switch_asm m) i = ldm (M (next + 52)) 9 M ! (i - 4)"
    "m_ttbr0 (context_switch_asm m) =
       (if M (prev + 72) = M (next + 72) then m_ttbr0 m else M (M (next + 72) + 12) OR 0x4A)"
  using assms(1-3)
  by (simp_all add: context_switch_asm_def asm_load_next_def asm_compare_def ctxsw_switch_mm_def Let_def offset_defs set_gprs_def
      M_def)

section \<open>Refinement\<close>

text \<open>Where a thread is inside the kernel: the address at which it goes on, its stack pointer, the registers r4 to r11 that the calling convention
  preserves, and the words from the stack pointer to the top of its kernel stack. \<open>saved_point\<close> reads it from the memory of a thread that is switched
  out, \<open>call_point\<close> from the machine on which a thread calls \<open>context_switch\<close>, where it goes on after the call, and \<open>live_point\<close> from the running one.\<close>

record kpoint =
  kp_pc :: u32
  kp_sp :: u32
  kp_regs :: "u32 list"
  kp_stack :: "u32 \<Rightarrow> u32 option"

definition stack_above :: "u32 \<Rightarrow> nat \<Rightarrow> u32 \<Rightarrow> (u32 \<Rightarrow> u32) \<Rightarrow> u32 \<Rightarrow> u32 option" where
  "stack_above kb t sp M = (\<lambda>b. if unat sp \<le> unat b \<and> unat b < unat (kstk kb t) + 8192 then Some (M b) else None)"

definition saved_point :: "u32 \<Rightarrow> u32 \<Rightarrow> nat \<Rightarrow> (u32 \<Rightarrow> u32) \<Rightarrow> kpoint" where
  "saved_point tb kb t M =
     (let a = M (tcb tb t + CTX_SP_SVC_OFFSET); ws = ldm a 9 M
      in \<lparr>kp_pc = ws ! 8, kp_sp = a + 36, kp_regs = take 8 ws, kp_stack = stack_above kb t (a + 36) M\<rparr>)"

definition call_point :: "u32 \<Rightarrow> nat \<Rightarrow> machine \<Rightarrow> kpoint" where
  "call_point kb t m =
     \<lparr>kp_pc = svc_lr m, kp_sp = svc_sp m, kp_regs = map (gpr m) [4..<12], kp_stack = stack_above kb t (svc_sp m) (m_mem m)\<rparr>"

definition live_point :: "u32 \<Rightarrow> nat \<Rightarrow> machine \<Rightarrow> kpoint" where
  "live_point kb t m =
     \<lparr>kp_pc = m_pc m, kp_sp = svc_sp m, kp_regs = map (gpr m) [4..<12], kp_stack = stack_above kb t (svc_sp m) (m_mem m)\<rparr>"

text \<open>How the state of the kernel model and the machine correspond at a switch: the banked user registers, the page table base, in memory the
  fields of the control blocks that the switch reads, and for every thread but the running one, \<open>run\<close>, the place where it is suspended. What the
  compiled kernel does from such a place is the parameter \<open>cont\<close>; the model keeps it as \<open>resume_at\<close>.\<close>

definition switch_rel :: "(nat \<Rightarrow> kpoint \<Rightarrow> kcont) \<Rightarrow> u32 \<Rightarrow> u32 \<Rightarrow> u32 \<Rightarrow> nat option \<Rightarrow> kstate \<Rightarrow> machine \<Rightarrow> bool" where
  "switch_rel cont tb kb pb run s m \<longleftrightarrow>
     length (threads s) = 6 \<and> usr_sp m = sp_usr s \<and> usr_lr m = lr_usr s \<and> m_ttbr0 m = ttbr0 s \<and>
     (\<forall>t < 6. t_proc (threads s ! t) < 3 \<and> m_mem m (tcb tb t + 72) = pcb pb (t_proc (threads s ! t)) \<and>
        (run \<noteq> Some t \<longrightarrow>
           m_mem m (tcb tb t + 64) = ctx_sp_usr (ctx (threads s ! t)) \<and> m_mem m (tcb tb t + 68) = ctx_lr_usr (ctx (threads s ! t)) \<and>
           stack_room kb t (m_mem m (tcb tb t + 52) + 36) \<and> resume_at (threads s ! t) = cont t (saved_point tb kb t (m_mem m)))) \<and>
     (\<forall>i < 3. m_mem m (pcb pb i + 12) = pgd_pa (processes s ! i))"

lemma switch_relD:
  assumes "switch_rel cont tb kb pb run s m" "t < 6"
  shows "length (threads s) = 6" "usr_sp m = sp_usr s" "usr_lr m = lr_usr s" "m_ttbr0 m = ttbr0 s"
    "t_proc (threads s ! t) < 3" "m_mem m (tcb tb t + 72) = pcb pb (t_proc (threads s ! t))"
    "m_mem m (pcb pb (t_proc (threads s ! t)) + 12) = pgd_pa (proc_of s t)"
    "run \<noteq> Some t \<Longrightarrow> m_mem m (tcb tb t + 64) = ctx_sp_usr (ctx (threads s ! t))"
    "run \<noteq> Some t \<Longrightarrow> m_mem m (tcb tb t + 68) = ctx_lr_usr (ctx (threads s ! t))"
    "run \<noteq> Some t \<Longrightarrow> stack_room kb t (m_mem m (tcb tb t + 52) + 36)"
    "run \<noteq> Some t \<Longrightarrow> resume_at (threads s ! t) = cont t (saved_point tb kb t (m_mem m))"
  using assms by (auto simp: switch_rel_def)

text \<open>A suspended place depends on nothing but what its thread owns.\<close>

lemma stack_above_owned:
  assumes "places tb kb pb" "t < 6" "unat (kstk kb t) \<le> unat sp" "\<And>b. b \<in> owned tb kb t \<Longrightarrow> M' b = M b"
  shows "stack_above kb t sp M' = stack_above kb t sp M"
proof
  fix b
  have "b \<in> owned tb kb t" if "unat sp \<le> unat b" "unat b < unat (kstk kb t) + 8192"
    using that assms(3) stack_owned [of kb t tb] by (auto simp: interval_def)
  then show "stack_above kb t sp M' b = stack_above kb t sp M b" using assms(4) [of b] by (auto simp: stack_above_def)
qed

lemma saved_point_owned:
  assumes "places tb kb pb" "t < 6" "stack_room kb t (M (tcb tb t + 52) + 36)" "\<And>b. b \<in> owned tb kb t \<Longrightarrow> M' b = M b"
  shows "saved_point tb kb t M' = saved_point tb kb t M"
proof -
  let ?a = "M (tcb tb t + 52)"
  have sp: "M' (tcb tb t + 52) = ?a" by (rule assms(4)) (rule tcb_owned [OF assms(1,2)], simp)
  have "ldm ?a 9 M' = ldm ?a 9 M"
    by (rule ldm_cong) (use frame_owned(2) [OF assms(1-3)] assms(4) in auto)
  moreover have "stack_above kb t (?a + 36) M' = stack_above kb t (?a + 36) M"
    by (rule stack_above_owned [OF assms(1,2) _ assms(4)]) (use assms(3) in \<open>simp add: stack_room_def\<close>)
  ultimately show ?thesis by (simp add: saved_point_def Let_def sp offset_defs)
qed

text \<open>The save side suspends the caller at its return address.\<close>

lemma saved_point_save:
  assumes "places tb kb pb" "p < 6" "gpr m 0 = tcb tb p" "stack_room kb p (svc_sp m)"
  shows "saved_point tb kb p (m_mem (asm_save m)) = call_point kb p m"
proof -
  note E = asm_save_effect [OF assms]
  have "stack_above kb p (svc_sp m) (m_mem (asm_save m)) = stack_above kb p (svc_sp m) (m_mem m)"
  proof
    fix b
    have "m_mem (asm_save m) b = m_mem m b" if b: "unat (svc_sp m) \<le> unat b" "unat b < unat (kstk kb p) + 8192"
    proof (rule asm_save_other)
      note K = above_frame_kept [OF assms(1,2,4) b]
      show "b \<notin> words (svc_sp m - 36) 9" by (rule K(1))
      show "b \<noteq> gpr m 0 + k" if "unat k < 100" for k unfolding assms(3) by (rule K(2) [OF that])
    qed
    then show "stack_above kb p (svc_sp m) (m_mem (asm_save m)) b = stack_above kb p (svc_sp m) (m_mem m) b"
      by (simp add: stack_above_def)
  qed
  then show ?thesis
    using E(1,2) by (simp add: saved_point_def call_point_def offset_defs saved_regs_def nth_append del: upt_rec_numeral)
qed

lemma pcb_inj:
  assumes "places tb kb pb" "i < 3" "j < 3"
  shows "pcb pb i = pcb pb j \<longleftrightarrow> i = j"
  using unat_pcb [OF assms(1,2)] unat_pcb [OF assms(1,3)] by (metis add_left_cancel mult_cancel1 zero_neq_numeral)

text \<open>After the save no thread is running, and each one is suspended where the model says.\<close>

lemma save_rel:
  assumes "places tb kb pb" "switch_rel cont tb kb pb (Some p) s m" "p < 6" "gpr m 0 = tcb tb p" "stack_room kb p (svc_sp m)"
    and "cont p (call_point kb p m) = k"
  shows "switch_rel cont tb kb pb None (save_prev p k s) (asm_save m)"
proof -
  note D = switch_relD [OF assms(2)] and E = asm_save_effect [OF assms(1,3-5)]
  let ?s = "save_prev p k s" and ?M = "m_mem (asm_save m)"
  have th: "threads ?s ! t = (if t = p then (threads s ! p)\<lparr>ctx := (ctx (threads s ! p))\<lparr>ctx_sp_usr := sp_usr s, ctx_lr_usr := lr_usr s\<rparr>,
      resume_at := k\<rparr> else threads s ! t)" for t
    using D(1) [OF assms(3)] assms(3) by (simp add: save_prev_def nth_upd_thread)
  have own: "?M b = m_mem m b" if "t < 6" "t \<noteq> p" "b \<in> owned tb kb t" for t b
    by (rule E(6)) (rule owned_disjoint [OF assms(1) that(1) assms(3) that(2,3)])
  have other: "?M (tcb tb t + j) = m_mem m (tcb tb t + j)" if "t < 6" "t \<noteq> p" "unat j < 84" for t j
    by (rule own [OF that(1,2) tcb_owned [OF assms(1) that(1,3)]])
  have owner: "t_proc (threads ?s ! t) < 3 \<and> ?M (tcb tb t + 72) = pcb pb (t_proc (threads ?s ! t))" if "t < 6" for t
    using D(5,6) [OF that] E(5) other [OF that, of 72] by (cases "t = p") (simp_all add: th)
  have banked: "?M (tcb tb t + 64) = ctx_sp_usr (ctx (threads ?s ! t)) \<and> ?M (tcb tb t + 68) = ctx_lr_usr (ctx (threads ?s ! t))" if "t < 6" for t
    using D(2,3,8,9) [OF that] E(3,4) other [OF that, of 64] other [OF that, of 68] by (cases "t = p") (simp_all add: th)
  have point: "stack_room kb t (?M (tcb tb t + 52) + 36) \<and> resume_at (threads ?s ! t) = cont t (saved_point tb kb t ?M)" if "t < 6" for t
  proof (cases "t = p")
    case True
    then show ?thesis using E(2) assms(5,6) saved_point_save [OF assms(1,3-5)] by (simp add: th)
  next
    case False
    then have "saved_point tb kb t ?M = saved_point tb kb t (m_mem m)"
      by (intro saved_point_owned [OF assms(1) that _ own [OF that False]] D(10) [OF that]) simp_all
    then show ?thesis using False D(10,11) [OF that] other [OF that False, of 52] by (simp add: th)
  qed
  have "?M (pcb pb i + 12) = pgd_pa (processes ?s ! i)" if "i < 3" for i
    using E(6) [OF pcb_not_owned [OF assms(1,3) that, of 12]] assms(2) that by (simp add: switch_rel_def save_prev_def)
  then show ?thesis
    using owner banked point D(1-4) [OF assms(3)] by (simp add: switch_rel_def save_prev_def)
qed

text \<open>The load side makes \<open>n\<close> the running thread, at the place where it was suspended.\<close>

lemma load_rel:
  assumes "switch_rel cont tb kb pb None s m" "n < 6" "gpr m 1 = tcb tb n"
  shows "switch_rel cont tb kb pb (Some n) (load_next n s) (asm_load_next m) \<and>
    cpu (load_next n s) = cont n (live_point kb n (asm_load_next m))"
proof -
  note D = switch_relD [OF assms(1,2)]
  have "map (set_gprs 4 (ldm a 8 M) g) [4..<12] = ldm a 8 M" for a M g
    by (rule nth_equalityI) (simp_all add: set_gprs_def del: upt_rec_numeral)
  then have "live_point kb n (asm_load_next m) = saved_point tb kb n (m_mem m)"
    using assms(3) by (simp add: live_point_def saved_point_def asm_load_next_def Let_def offset_defs ldm_take del: upt_rec_numeral)
  moreover have "switch_rel cont tb kb pb (Some n) (load_next n s) (asm_load_next m)"
    using assms D by (simp add: switch_rel_def load_next_def asm_load_next_def Let_def offset_defs)
  ultimately show ?thesis using D(11) by (simp add: load_next_def)
qed

lemma mm_rel:
  assumes "switch_rel cont tb kb pb run s m" "n < 6" "gpr m 1 = tcb tb n"
  shows "switch_rel cont tb kb pb run (switch_mm n s) (ctxsw_switch_mm m)"
  using assms switch_relD [OF assms(1,2)]
  by (simp add: switch_rel_def switch_mm_def ctxsw_switch_mm_def Let_def offset_defs)

lemma compare_rel: "switch_rel cont tb kb pb run s m \<Longrightarrow> switch_rel cont tb kb pb run s (asm_compare m)"
  by (simp add: switch_rel_def asm_compare_def)

lemma compare_gpr [simp]:
  "gpr (asm_compare m) (Suc 0) = gpr m (Suc 0)"
  "gpr (asm_compare m) 2 = m_mem m (gpr m 0 + 72)" "gpr (asm_compare m) 3 = m_mem m (gpr m 1 + 72)"
  by (simp_all add: asm_compare_def offset_defs)

lemma switch_mm_gpr [simp]: "gpr (ctxsw_switch_mm m) (Suc 0) = gpr m (Suc 0)"
  by (simp add: ctxsw_switch_mm_def Let_def)

lemma tcb_not_null: "places tb kb pb \<Longrightarrow> t < 6 \<Longrightarrow> tcb tb t \<noteq> 0"
  using unat_tcb [of tb kb pb t] by (auto simp: places_def)

section \<open>Frames\<close>

text \<open>The user registers of a machine, in the form in which the kernel model keeps them, and the exception context in memory at \<open>a\<close>.\<close>

definition user_view :: "machine \<Rightarrow> exception_context" where
  "user_view m = \<lparr>ec_spsr = m_cpsr m, ec_r = map (gpr m) [0..<13], ec_lr = m_pc m\<rparr>"

definition context_at :: "(u32 \<Rightarrow> u32) \<Rightarrow> u32 \<Rightarrow> exception_context" where
  "context_at M a = \<lparr>ec_spsr = M a, ec_r = ldm (a + 4) 13 M, ec_lr = M (a + 56)\<rparr>"

lemma word_index_inj:
  assumes "i < 1073741823" "k < 1073741823"
  shows "(a :: u32) + 4 * of_nat i = a + 4 * of_nat k \<longleftrightarrow> i = k"
proof
  assume "a + 4 * of_nat i = a + 4 * of_nat k"
  then have "unat (of_nat (4 * i) :: u32) = unat (of_nat (4 * k) :: u32)" by simp
  moreover have "4 * i < 4294967296" "4 * k < 4294967296" using assms by linarith+
  ultimately show "i = k" by (simp only: unat_u32_of_nat)
qed simp

lemma words_beyond: "n \<le> k \<Longrightarrow> k < 1073741823 \<Longrightarrow> a + 4 * of_nat k \<notin> words a n"
proof
  assume k: "n \<le> k" "k < 1073741823" and "a + 4 * of_nat k \<in> words a n"
  then obtain i where "i < n" "a + 4 * of_nat k = a + 4 * of_nat i" unfolding words_def by blast
  then show False using word_index_inj [of k i a] k by simp
qed

lemma map_set_gprs: "length vs = n \<Longrightarrow> map (set_gprs 0 vs g) [0..<n] = vs"
  by (rule nth_equalityI) (simp_all add: set_gprs_def)

lemma svc_return_view:
  "user_view (svc_return m) = context_at (m_mem m) (svc_sp m)" "svc_sp (svc_return m) = svc_sp m + 60"
  "usr_sp (svc_return m) = usr_sp m" "usr_lr (svc_return m) = usr_lr m"
proof -
  have "map (set_gprs 0 (ldm (svc_sp m + 4) 13 (m_mem m)) (gpr m)) [0..<13] = ldm (svc_sp m + 4) 13 (m_mem m)"
    by (rule map_set_gprs) simp
  moreover have "ldm (svc_sp m + 4) 14 (m_mem m) ! 13 = m_mem m (svc_sp m + 56)" by (simp add: nth_ldm add.commute)
  ultimately show "user_view (svc_return m) = context_at (m_mem m) (svc_sp m)"
    by (simp add: user_view_def context_at_def svc_return_def Let_def ldm_take del: upt_rec_numeral)
  show "svc_sp (svc_return m) = svc_sp m + 60" "usr_sp (svc_return m) = usr_sp m" "usr_lr (svc_return m) = usr_lr m"
    by (simp_all add: svc_return_def Let_def)
qed

lemma irq_return_view:
  "user_view (irq_return m) = \<lparr>ec_spsr = m_mem m (svc_sp m + 60), ec_r = ldm (svc_sp m) 13 (m_mem m), ec_lr = m_mem m (svc_sp m + 56)\<rparr>"
  "svc_sp (irq_return m) = svc_sp m + 64" "svc_lr (irq_return m) = m_mem m (svc_sp m + 52)"
proof -
  have "map (set_gprs 0 (ldm (svc_sp m) 13 (m_mem m)) (gpr m)) [0..<13] = ldm (svc_sp m) 13 (m_mem m)"
    by (rule map_set_gprs) simp
  then show "user_view (irq_return m) =
      \<lparr>ec_spsr = m_mem m (svc_sp m + 60), ec_r = ldm (svc_sp m) 13 (m_mem m), ec_lr = m_mem m (svc_sp m + 56)\<rparr>"
    by (simp add: user_view_def irq_return_def Let_def ldm_take del: upt_rec_numeral)
  show "svc_sp (irq_return m) = svc_sp m + 64" "svc_lr (irq_return m) = m_mem m (svc_sp m + 52)"
    by (simp_all add: irq_return_def Let_def nth_ldm)
qed

text \<open>The frame that the entry stubs of \<open>svc\<close> and of the faults leave is the exception context of the user program.\<close>

lemma context_frame:
  "context_at ((stm (a + 4) (map g [0..<13] @ [l]) M)(a := s)) a = \<lparr>ec_spsr = s, ec_r = map g [0..<13], ec_lr = l\<rparr>"
proof -
  let ?vs = "map g [0..<13] @ [l]"
  let ?M = "stm (a + 4) ?vs M"
  have len: "length ?vs = 14" by simp
  have fresh: "a \<notin> words (a + 4) 14" by (rule words_fresh) simp
  have "ldm (a + 4) 14 (?M(a := s)) = ldm (a + 4) 14 ?M"
    by (rule ldm_cong) (use fresh in auto)
  also have "\<dots> = ?vs" using ldm_stm [of ?vs "a + 4" M] len by simp
  finally have all: "ldm (a + 4) 14 (?M(a := s)) = ?vs" .
  have "ldm (a + 4) 13 (?M(a := s)) = map g [0..<13]"
    using ldm_take [of 13 14 "a + 4" "?M(a := s)"] all by (simp del: upt_rec_numeral)
  moreover have "(?M(a := s)) (a + 56) = l"
    using nth_ldm [of 13 14 "a + 4" "?M(a := s)"] all by (simp add: nth_append add.commute del: upt_rec_numeral fun_upd_apply)
  ultimately show ?thesis unfolding context_at_def by (simp del: upt_rec_numeral)
qed

lemma svc_entry_frame:
  fixes m :: machine
  defines "m1 \<equiv> exception_entry_svc (take_svc m)"
  shows "svc_sp m1 = svc_sp m - 60" "gpr m1 0 = svc_sp m1" "context_at (m_mem m1) (svc_sp m1) = user_view m"
    "usr_sp m1 = usr_sp m" "usr_lr m1 = usr_lr m"
proof -
  let ?a = "svc_sp m - 60"
  have m1: "svc_sp m1 = ?a" "m_mem m1 = (stm (?a + 4) (map (gpr m) [0..<13] @ [m_pc m]) (m_mem m))(?a := m_cpsr m)"
    unfolding m1_def exception_entry_svc_def take_svc_def push_words_def Let_def by (simp_all del: upt_rec_numeral)
  then show "svc_sp m1 = svc_sp m - 60" by simp
  show "gpr m1 0 = svc_sp m1" unfolding m1_def exception_entry_svc_def Let_def by simp
  show "usr_sp m1 = usr_sp m" "usr_lr m1 = usr_lr m"
    unfolding m1_def exception_entry_svc_def take_svc_def push_words_def Let_def by simp_all
  show "context_at (m_mem m1) (svc_sp m1) = user_view m" unfolding m1 context_frame user_view_def ..
qed

lemma fault_entry_frame:
  "context_at (m_mem (take_fault f sp m)) (gpr (take_fault f sp m) 0) = user_view m" "svc_sp (take_fault f sp m) = svc_sp m"
  "usr_sp (take_fault f sp m) = usr_sp m" "usr_lr (take_fault f sp m) = usr_lr m"
proof -
  let ?a = "sp - 60"
  have "m_pc m + hw_return_offset f - lr_adjust f = m_pc m" by (cases f) simp_all
  then have "gpr (take_fault f sp m) 0 = ?a"
    "m_mem (take_fault f sp m) = (stm (?a + 4) (map (gpr m) [0..<13] @ [m_pc m]) (m_mem m))(?a := m_cpsr m)"
    unfolding take_fault_def fault_entry_def Let_def by (simp_all del: upt_rec_numeral)
  then show "context_at (m_mem (take_fault f sp m)) (gpr (take_fault f sp m) 0) = user_view m"
    by (simp only: context_frame user_view_def)
  show "svc_sp (take_fault f sp m) = svc_sp m" "usr_sp (take_fault f sp m) = usr_sp m" "usr_lr (take_fault f sp m) = usr_lr m"
    unfolding take_fault_def fault_entry_def Let_def by simp_all
qed

lemma irq_entry_frame:
  fixes m :: machine
  defines "m1 \<equiv> take_irq m"
  shows "svc_sp m1 = svc_sp m - 64" "ldm (svc_sp m1) 14 (m_mem m1) = map (gpr m) [0..<13] @ [svc_lr m]"
    "m_mem m1 (svc_sp m1 + 56) = m_pc m" "m_mem m1 (svc_sp m1 + 60) = m_cpsr m"
proof -
  let ?vs = "map (gpr m) [0..<13] @ [svc_lr m]"
  let ?a = "svc_sp m - 64"
  have len: "length ?vs = 14" by simp
  have m1: "svc_sp m1 = ?a" "m_mem m1 = stm ?a ?vs ((m_mem m)(?a + 56 := m_pc m, ?a + 60 := m_cpsr m))"
    unfolding m1_def take_irq_def exception_entry_irq_def push_words_def Let_def by (simp_all del: upt_rec_numeral)
  then show "svc_sp m1 = svc_sp m - 64" by simp
  show "ldm (svc_sp m1) 14 (m_mem m1) = ?vs" unfolding m1 using ldm_stm [of ?vs ?a] len by simp
  have "?a + 56 \<notin> words ?a 14" "?a + 60 \<notin> words ?a 14" using words_beyond [of 14 14 ?a] words_beyond [of 14 15 ?a] by simp_all
  then show "m_mem m1 (svc_sp m1 + 56) = m_pc m" "m_mem m1 (svc_sp m1 + 60) = m_cpsr m"
    unfolding m1 using stm_other [of _ ?a ?vs] len by simp_all
qed

text \<open>A thread that is switched out finds its registers again. When thread \<open>t\<close> calls \<open>context_switch\<close>, other code runs that leaves the
  control block and the kernel stack of \<open>t\<close> alone, and then some thread \<open>u\<close> switches to \<open>t\<close>, the call of \<open>t\<close> returns to where it was made, with
  the callee-saved registers, the kernel stack pointer and the banked user registers it had. The switch itself writes to nothing
  that belongs to another thread.\<close>

lemma context_switch_roundtrip:
  assumes "places tb kb pb" "t < 6" "n < 6" "u < 6" "u \<noteq> t"
    and "gpr m 0 = tcb tb t" "gpr m 1 = tcb tb n" "stack_room kb t (svc_sp m)"
    and "\<forall>b \<in> owned tb kb t. m_mem m2 b = m_mem (context_switch_asm m) b"
    and "gpr m2 0 = tcb tb u" "gpr m2 1 = tcb tb t" "stack_room kb u (svc_sp m2)"
  defines "m3 \<equiv> context_switch_asm m2"
  shows "\<forall>i \<in> {4..<12}. gpr m3 i = gpr m i" "m_pc m3 = svc_lr m" "svc_sp m3 = svc_sp m" "usr_sp m3 = usr_sp m" "usr_lr m3 = usr_lr m"
    "\<forall>b \<in> owned tb kb t. m_mem m3 b = m_mem (asm_save m) b"
proof -
  note E = asm_save_effect [OF assms(1,2,6,8)]
  note R1 = context_switch_asm_result [OF assms(6,7) tcb_not_null [OF assms(1,2)]]
  note R3 = context_switch_asm_result [OF assms(10,11) tcb_not_null [OF assms(1,4)]]
  have keep: "m_mem (asm_save m2) b = m_mem (asm_save m) b" if "b \<in> owned tb kb t" for b
    using asm_save_effect(6) [OF assms(1,4,10,12) owned_disjoint [OF assms(1,2,4) assms(5) [symmetric] that]] assms(9) that R1(1)
    by simp
  have field: "m_mem (asm_save m2) (tcb tb t + k) = m_mem (asm_save m) (tcb tb t + k)" if "unat k < 84" for k
    by (rule keep [OF tcb_owned [OF assms(1,2) that]])
  have sp: "m_mem (asm_save m2) (tcb tb t + 52) = svc_sp m - 36" using field [of 52] E(2) by simp
  have frame: "ldm (svc_sp m - 36) 9 (m_mem (asm_save m2)) = saved_regs m"
    using ldm_cong [of "svc_sp m - 36" 9 "m_mem (asm_save m2)" "m_mem (asm_save m)"] keep frame_owned(2) [OF assms(1,2,8)] E(1) by auto
  show "\<forall>i \<in> {4..<12}. gpr m3 i = gpr m i"
  proof
    fix i :: nat assume "i \<in> {4..<12}"
    then have "4 \<le> i" "i < 12" "i - 4 < 8" by auto
    then show "gpr m3 i = gpr m i"
      using R3(7) [of i] nth_saved_regs(1) [of "i - 4" m] unfolding m3_def sp frame by simp
  qed
  show "m_pc m3 = svc_lr m" unfolding m3_def R3(6) sp frame by (rule nth_saved_regs(2))
  show "svc_sp m3 = svc_sp m" unfolding m3_def R3(4) sp by simp
  show "usr_sp m3 = usr_sp m" "usr_lr m3 = usr_lr m"
    unfolding m3_def R3(2,3) using field [of 64] field [of 68] E(3,4) by simp_all
  show "\<forall>b \<in> owned tb kb t. m_mem m3 b = m_mem (asm_save m) b" using keep unfolding m3_def R3(1) by blast
qed

text \<open>The frame of an interrupt lies above the frame of the switch, so the switch leaves it alone.\<close>

lemma exit_frame_kept:
  assumes "places tb kb pb" "t < 6" "stack_room kb t sp" "sp \<le> a" "unat a + 64 \<le> unat (kstk kb t) + 8192" "b \<in> words a 16"
  shows "b \<in> owned tb kb t" "b \<notin> words (sp - 36) 9" "unat k < 100 \<Longrightarrow> b \<noteq> tcb tb t + k"
proof -
  have "unat kb + 49152 < 4294967296" "unat (kstk kb t) = unat kb + 8192 * t"
    using assms(1) unat_kstk [OF assms(1,2)] by (simp_all add: places_def)
  then have "b \<in> interval a 64" using words_interval [of a 16] assms(2,5,6) by auto
  then have b: "unat sp \<le> unat b" "unat b < unat (kstk kb t) + 8192" using assms(4,5) by (simp_all add: interval_def word_le_nat_alt)
  show "b \<in> owned tb kb t" "b \<notin> words (sp - 36) 9" "unat k < 100 \<Longrightarrow> b \<noteq> tcb tb t + k"
    by (rule above_frame_kept [OF assms(1-3) b])+
qed

text \<open>The words of the first frame, whatever was on the stack before.\<close>

lemma length_initial_frame: "length (initial_frame lk entry arg f) = length f"
  by (simp add: initial_frame_def Let_def length_fold_list_update)

lemma initial_frame_any:
  assumes "length f = 25"
  shows "initial_frame lk entry arg f = replicate 8 0 @ [lk_ret_from_first_entry lk, arg] @ replicate 12 0 @ [0, entry, 0x10]"
proof -
  from assms obtain a0 a1 a2 a3 a4 a5 a6 a7 a8 a9 a10 a11 a12 a13 a14 a15 a16 a17 a18 a19 a20 a21 a22 a23 a24 where
    "f = [a0, a1, a2, a3, a4, a5, a6, a7, a8, a9, a10, a11, a12, a13, a14, a15, a16, a17, a18, a19, a20, a21, a22, a23, a24]"
    by (auto simp: length_Suc_conv numeral_eq_Suc)
  then show ?thesis by (simp add: initial_frame_def upt_rec numeral_eq_Suc)
qed

lemma tcb_not_first_frame:
  assumes "places tb kb pb" "t < 6" "unat k < 100"
  shows "tcb tb t + k \<notin> words (kstk kb t + 8092) 25"
proof
  assume in_w: "tcb tb t + k \<in> words (kstk kb t + 8092) 25"
  have k: "unat (kstk kb t) = unat kb + 8192 * t" and kb: "unat kb + 49152 < 4294967296"
    using unat_kstk [OF assms(1,2)] assms(1) by (simp_all add: places_def)
  then have a: "unat (kstk kb t + 8092) = unat kb + 8192 * t + 8092"
    using unat_u32_add [of "kstk kb t" 8092] assms(2) by simp
  then have "tcb tb t + k \<in> interval (kstk kb t + 8092) 100"
    using in_w words_interval [of "kstk kb t + 8092" 25] kb assms(2) by auto
  then show False using tcb_field [OF assms] a assms unfolding interval_def places_def apart_def by auto
qed

section \<open>Properties\<close>

text \<open>C8: the assembly of \<open>context_switch\<close> does what the kernel model says it does, for a switch between two threads (of one process or of two) and
  for the first entry from \<open>kmain\<close>. Whenever memory and registers agree with the model before the call, they agree again after it, now with \<open>n\<close>
  as the running thread: banked user registers, page table base, control blocks and the place at which every other thread is suspended in the
  kernel. The caller is suspended at its return address, with its stack and its callee-saved registers, to do what the model's continuation \<open>k\<close> says;
  and the processor goes on exactly at the place where \<open>n\<close> was suspended, which is what the model's \<open>cpu\<close> says.\<close>

theorem context_switch_refines:
  assumes "places tb kb pb" "switch_rel cont tb kb pb prev s m" "n < 6" "gpr m 1 = tcb tb n"
    and "case prev of None \<Rightarrow> gpr m 0 = 0
      | Some p \<Rightarrow> p < 6 \<and> gpr m 0 = tcb tb p \<and> stack_room kb p (svc_sp m) \<and> cont p (call_point kb p m) = k"
  shows "switch_rel cont tb kb pb (Some n) (context_switch prev n k s) (context_switch_asm m) \<and>
    cpu (context_switch prev n k s) = cont n (live_point kb n (context_switch_asm m))"
proof (cases prev)
  case None
  then show ?thesis
    using assms load_rel [OF mm_rel [OF assms(2-4) [unfolded None]] assms(3)] by (simp add: context_switch_def context_switch_asm_def)
next
  case (Some p)
  then have p: "p < 6" "gpr m 0 = tcb tb p" "stack_room kb p (svc_sp m)" "cont p (call_point kb p m) = k" using assms(5) by simp_all
  let ?s = "save_prev p k s" and ?m = "asm_compare (asm_save m)"
  have rel: "switch_rel cont tb kb pb None ?s (asm_save m)" by (rule save_rel [OF assms(1) assms(2) [unfolded Some] p])
  note P = switch_relD [OF rel p(1)] and N = switch_relD [OF rel assms(3)]
  have same: "gpr ?m 2 = gpr ?m 3 \<longleftrightarrow> t_proc (threads ?s ! p) = t_proc (threads ?s ! n)"
    using P(5,6) N(5,6) p(2) assms(4) pcb_inj [OF assms(1) P(5) N(5)] by simp
  have r: "switch_rel cont tb kb pb None ?s ?m" by (rule compare_rel [OF rel])
  have g: "gpr ?m 1 = tcb tb n" using assms(4) by simp
  show ?thesis
    using same load_rel [OF r assms(3) g] load_rel [OF mm_rel [OF r assms(3) g] assms(3)] g tcb_not_null [OF assms(1) p(1)] p(2)
    by (simp add: Some context_switch_def context_switch_asm_def Let_def)
qed

text \<open>C9: an interrupt is invisible to the thread it interrupts, even when other threads run in between. Thread \<open>t\<close> is interrupted in user mode
  (\<open>m\<close>); the C code below the entry stub reaches \<open>context_switch\<close> (\<open>mc\<close>) with the frame of the entry intact; whatever runs then leaves the kernel
  stack of \<open>t\<close> and its control block, but for its state, alone, until a thread \<open>u\<close> switches back to \<open>t\<close> (\<open>m2\<close>). That switch returns from the very call
  that \<open>t\<close> had made, with its stack pointer and its callee-saved registers; the C code then gives back as much stack as it had taken between the
  entry and the call, and is at the end of the entry stub (\<open>m5\<close>). After the return from the interrupt all user registers, the program counter, the
  status register and the stack pointers are those before it.\<close>

theorem interrupted_thread_resumes:
  assumes "places tb kb pb" "t < 6" "n < 6" "u < 6" "u \<noteq> t"
    and "unat (kstk kb t) + 64 \<le> unat (svc_sp m)" "unat (svc_sp m) \<le> unat (kstk kb t) + 8192"
    and "svc_sp mc \<le> svc_sp (take_irq m)" "stack_room kb t (svc_sp mc)" "gpr mc 0 = tcb tb t" "gpr mc 1 = tcb tb n"
      "usr_sp mc = usr_sp m" "usr_lr mc = usr_lr m" "\<forall>b \<in> words (svc_sp (take_irq m)) 16. m_mem mc b = m_mem (take_irq m) b"
    and "\<forall>b \<in> owned tb kb t. m_mem m2 b = m_mem (context_switch_asm mc) b"
      "gpr m2 0 = tcb tb u" "gpr m2 1 = tcb tb t" "stack_room kb u (svc_sp m2)"
    and "svc_sp m5 = svc_sp (context_switch_asm m2) + (svc_sp (take_irq m) - svc_sp mc)" "usr_sp m5 = usr_sp (context_switch_asm m2)" "usr_lr m5 = usr_lr (context_switch_asm m2)"
      "\<forall>b \<in> words (svc_sp (take_irq m)) 16. m_mem m5 b = m_mem (context_switch_asm m2) b"
  shows "m_pc (context_switch_asm m2) = svc_lr mc \<and> svc_sp (context_switch_asm m2) = svc_sp mc \<and>
    map (gpr (context_switch_asm m2)) [4..<12] = map (gpr mc) [4..<12] \<and>
    user_view (irq_return m5) = user_view m \<and> svc_sp (irq_return m5) = svc_sp m \<and> svc_lr (irq_return m5) = svc_lr m \<and>
    usr_sp (irq_return m5) = usr_sp m \<and> usr_lr (irq_return m5) = usr_lr m"
proof -
  let ?a = "svc_sp (take_irq m)"
  note F = irq_entry_frame [of m] and R = context_switch_roundtrip [OF assms(1-5,10,11,9,15-18)]
  have sp5: "svc_sp m5 = ?a" using assms(19) R(3) by simp
  have "unat ?a = unat (svc_sp m) - 64" using F(1) unat_below [of 64 "svc_sp m"] assms(6) by simp
  then have top: "unat ?a + 64 \<le> unat (kstk kb t) + 8192" using assms(6,7) by linarith
  have kept: "m_mem m5 b = m_mem (take_irq m) b" if "b \<in> words ?a 16" for b
  proof -
    note K = exit_frame_kept [OF assms(1,2,9,8) top that]
    have "m_mem (asm_save mc) b = m_mem mc b" by (rule asm_save_other [OF K(2)]) (use K(3) assms(10) in simp)
    then show ?thesis using R(6) K(1) assms(14,22) that by simp
  qed
  have frame: "m_mem m5 (?a + 4 * of_nat i) = m_mem (take_irq m) (?a + 4 * of_nat i)" if "i < 16" for i
    by (rule kept) (use that in \<open>auto simp: words_def\<close>)
  have "ldm ?a 14 (m_mem m5) = map (gpr m) [0..<13] @ [svc_lr m]"
    unfolding F(2) [symmetric] by (simp add: ldm_def frame del: upt_rec_numeral)
  then have regs: "ldm ?a 13 (m_mem m5) = map (gpr m) [0..<13]" "m_mem m5 (?a + 52) = svc_lr m"
    using ldm_take [of 13 14 ?a "m_mem m5"] nth_ldm [of 13 14 ?a "m_mem m5"] by (simp_all add: nth_append del: upt_rec_numeral)
  have "m_mem m5 (?a + 56) = m_pc m" "m_mem m5 (?a + 60) = m_cpsr m" using frame [of 14] frame [of 15] F(3,4) by simp_all
  then have "user_view (irq_return m5) = user_view m"
    unfolding irq_return_view(1) sp5 regs(1) by (simp add: user_view_def)
  moreover have "svc_sp (irq_return m5) = svc_sp m" "svc_lr (irq_return m5) = svc_lr m"
    using irq_return_view(2,3) [of m5] regs(2) F(1) sp5 by simp_all
  moreover have "usr_sp (irq_return m5) = usr_sp m" "usr_lr (irq_return m5) = usr_lr m"
    using R(4,5) assms(12,13,20,21) by (simp_all add: irq_return_def Let_def)
  moreover have "map (gpr (context_switch_asm m2)) [4..<12] = map (gpr mc) [4..<12]"
    using R(1) by (simp del: upt_rec_numeral)
  ultimately show ?thesis using R(2,3) by blast
qed

text \<open>C10: the frames of system calls and faults. The entry stubs pass the handler the address of an exception context that holds the registers of
  the user program, with the address of the faulting instruction itself in the case of a fault, which leaves the kernel stack as it is: the stub's
  correction of the link register is the offset that the architecture adds. When the handler of a system call has stored its result \<open>v\<close> in the saved r0
  and left the rest of the frame and the banked user registers as they were, the caller goes on after its \<open>svc\<close> in the mode it came from with
  r0 = \<open>v\<close> and all other registers, its stack pointer and its link register included, unchanged, and its kernel stack is as empty as before.\<close>

theorem exception_frames:
  assumes "svc_sp m2 = svc_sp (exception_entry_svc (take_svc m))"
    and "\<forall>b \<in> words (svc_sp m2) 15. m_mem m2 b = (if b = svc_sp m2 + 4 then v else m_mem (exception_entry_svc (take_svc m)) b)"
    and "usr_sp m2 = usr_sp (exception_entry_svc (take_svc m))" "usr_lr m2 = usr_lr (exception_entry_svc (take_svc m))"
  shows "context_at (m_mem (take_fault f sp m)) (gpr (take_fault f sp m) 0) = user_view m \<and> svc_sp (take_fault f sp m) = svc_sp m \<and>
    usr_sp (take_fault f sp m) = usr_sp m \<and> usr_lr (take_fault f sp m) = usr_lr m \<and>
    context_at (m_mem (exception_entry_svc (take_svc m))) (gpr (exception_entry_svc (take_svc m)) 0) = user_view m \<and>
    user_view (svc_return m2) = set_r0 v (user_view m) \<and> svc_sp (svc_return m2) = svc_sp m \<and>
    usr_sp (svc_return m2) = usr_sp m \<and> usr_lr (svc_return m2) = usr_lr m"
proof -
  let ?m1 = "exception_entry_svc (take_svc m)" and ?a = "svc_sp m2"
  note F = svc_entry_frame [of m]
  have at: "m_mem m2 (?a + 4 * of_nat i) = (if i = 1 then v else m_mem ?m1 (?a + 4 * of_nat i))" if "i < 15" for i
  proof -
    have "?a + 4 * of_nat i \<in> words ?a 15" using that by (auto simp: words_def)
    moreover have "?a + 4 * of_nat i = ?a + 4 \<longleftrightarrow> i = 1"
      using word_index_inj [of i 1 ?a] that by simp
    ultimately show ?thesis using assms(2) by simp
  qed
  have "ldm (?a + 4) 13 (m_mem m2) = (ldm (?a + 4) 13 (m_mem ?m1))[0 := v]"
  proof (rule nth_equalityI)
    fix i assume "i < length (ldm (?a + 4) 13 (m_mem m2))"
    then show "ldm (?a + 4) 13 (m_mem m2) ! i = (ldm (?a + 4) 13 (m_mem ?m1))[0 := v] ! i"
      using at [of "Suc i"] by (simp add: nth_ldm nth_list_update algebra_simps)
  qed simp
  moreover have "m_mem m2 ?a = m_mem ?m1 ?a" "m_mem m2 (?a + 56) = m_mem ?m1 (?a + 56)" using at [of 0] at [of 14] by simp_all
  ultimately have "context_at (m_mem m2) ?a = set_r0 v (context_at (m_mem ?m1) ?a)" by (simp add: context_at_def set_r0_def)
  then show ?thesis using F assms(1,3,4) svc_return_view [of m2] fault_entry_frame [of f sp m] by simp
qed

text \<open>C11: the first entry of a thread. After \<open>thread_build_initial_frame\<close> has stored its 25 words, a switch to the thread from \<open>kmain\<close> lands in
  \<open>ret_from_first_entry\<close>, and that in user mode with interrupts enabled at the entry point, with the thread index in r0 and zeros in all
  other registers: exactly the context that the kernel model records for a new thread. The kernel stack is empty then, the user
  stack pointer is the thread's own, and the MMU uses the page table of its process.\<close>

theorem first_entry_reaches_user:
  assumes "places tb kb pb" "t < 6" "gpr m 0 = 0" "gpr m 1 = tcb tb t"
    and "m_mem m = build_frame lk entry arg (tcb tb t) (kstk kb t) KSTACK_SIZE ustack M"
  defines "m1 \<equiv> context_switch_asm m"
  shows "m_pc m1 = lk_ret_from_first_entry lk \<and> user_view (ret_from_first_entry m1) = first_ctx entry arg \<and>
    svc_sp (ret_from_first_entry m1) = kstk kb t + KSTACK_SIZE \<and> usr_sp (ret_from_first_entry m1) = ustack \<and>
    usr_lr (ret_from_first_entry m1) = 0 \<and>
    m_ttbr0 (ret_from_first_entry m1) = m_mem m (m_mem m (tcb tb t + THREAD_PROC_OFFSET) + PROC_PGD_PA_OFFSET) OR 0x4A"
proof -
  let ?f = "kstk kb t + 8092" and ?vs = "initial_frame lk entry arg (ldm (kstk kb t + 8092) 25 M)"
  have len: "length ?vs = 25" by (simp add: length_initial_frame)
  have m_mem: "m_mem m = (stm ?f ?vs M)(tcb tb t + 52 := ?f, tcb tb t + 56 := 0, tcb tb t + 60 := 0x10, tcb tb t + 64 := ustack, tcb tb t + 68 := 0)"
    using assms(5) by (simp add: build_frame_def Let_def kernel_const offset_defs add.commute)
  have off: "tcb tb t + k \<notin> words ?f 25" if "unat k < 100" for k
    by (rule tcb_not_first_frame [OF assms(1,2) that])
  have "ldm ?f 25 (m_mem m) = ldm ?f 25 (stm ?f ?vs M)"
    by (rule ldm_cong) (use off [of 52] off [of 56] off [of 60] off [of 64] off [of 68] in \<open>auto simp: m_mem\<close>)
  also have "\<dots> = replicate 8 0 @ [lk_ret_from_first_entry lk, arg] @ replicate 12 0 @ [0, entry, 0x10]"
    using ldm_stm [of ?vs ?f M] len by (simp add: initial_frame_any)
  finally have fr: "ldm ?f 25 (m_mem m) = replicate 8 0 @ [lk_ret_from_first_entry lk, arg] @ replicate 12 0 @ [0, entry, 0x10]" .
  have w: "m_mem m (?f + 4 * of_nat i) = (replicate 8 0 @ [lk_ret_from_first_entry lk, arg] @ replicate 12 0 @ [0, entry, 0x10]) ! i" if "i < 25" for i
    using nth_ldm [OF that, of ?f "m_mem m"] fr by simp
  have m1: "m_mem m1 = m_mem m" "svc_sp m1 = ?f + 36" "m_pc m1 = m_mem m (?f + 32)" "usr_sp m1 = ustack" "usr_lr m1 = 0"
    "m_ttbr0 m1 = m_mem m (m_mem m (tcb tb t + THREAD_PROC_OFFSET) + PROC_PGD_PA_OFFSET) OR 0x4A"
    unfolding m1_def using assms(3,4)
    by (simp_all add: context_switch_asm_def asm_load_next_def ctxsw_switch_mm_def Let_def nth_ldm offset_defs) (simp_all add: m_mem)
  have "ldm (?f + 36) 13 (m_mem m) = arg # replicate 12 0"
  proof (rule nth_equalityI)
    fix i assume "i < length (ldm (?f + 36) 13 (m_mem m))"
    then have i: "i < 13" by simp
    have "ldm (?f + 36) 13 (m_mem m) ! i = m_mem m (?f + 4 * of_nat (9 + i))" using i by (simp add: nth_ldm algebra_simps)
    also have "\<dots> = (arg # replicate 12 0) ! i" using w [of "9 + i"] i by (simp add: nth_append nth_Cons split: nat.split)
    finally show "ldm (?f + 36) 13 (m_mem m) ! i = (arg # replicate 12 0) ! i" .
  qed simp
  moreover have "m_mem m (?f + 92) = entry" "m_mem m (?f + 96) = 0x10" "m_mem m (?f + 32) = lk_ret_from_first_entry lk"
    using w [of 23] w [of 24] w [of 8] by (simp_all add: nth_append)
  ultimately have "user_view (ret_from_first_entry m1) = first_ctx entry arg"
    using m1(1,2) by (simp add: ret_from_first_entry_def irq_return_view(1) first_ctx_def add.assoc)
  moreover have "svc_sp (ret_from_first_entry m1) = kstk kb t + KSTACK_SIZE"
    using m1(2) by (simp add: ret_from_first_entry_def irq_return_view(2) kernel_const add.assoc)
  ultimately show ?thesis
    using m1 \<open>m_mem m (?f + 32) = _\<close> by (simp add: ret_from_first_entry_def irq_return_def Let_def)
qed

section \<open>A machine to evaluate the properties at\<close>

definition sample_mem :: "u32 \<Rightarrow> u32" where
  "sample_mem = (\<lambda>_. 0)(0x1048 := 0x2000, 0x10AC := 0x2000, 0x1110 := 0x2024, 0x1174 := 0x2024, 0x11D8 := 0x2048, 0x123C := 0x2048,
     0x200C := 0x70004000, 0x2030 := 0x70008000, 0x2054 := 0x7000C000,
     0x1034 := 0x11FDC, 0x1098 := 0x13FDC, 0x10FC := 0x15FDC, 0x1160 := 0x17FDC, 0x11C4 := 0x19FDC, 0x1228 := 0x1BFDC,
     0x15FFC := 0xC0104444)"

text \<open>The suspended threads of the sample: thread 2 goes on in the fault handler, at \<open>0xC0104444\<close>; the others have no code to go on with.\<close>

definition sample_cont :: "nat \<Rightarrow> kpoint \<Rightarrow> kcont" where
  "sample_cont t q = (if kp_pc q = 0xC0104444 then AfterFault else Halted)"

definition sample_machine :: machine where
  "sample_machine = \<lparr>gpr = (\<lambda>i. if i = 0 then 0x1000 else if i = 1 then 0x10C8 else of_nat i), svc_sp = 0x12000, svc_lr = 0xC0101234,
     usr_sp = 0x40100000, usr_lr = 0x40000010, m_pc = 0, m_cpsr = 0x93, m_spsr = 0x10, m_ttbr0 = 0x7000404A, m_mem = sample_mem\<rparr>"

definition sample_switch :: kstate where
  "sample_switch = (bss_state (\<lambda>_. CHR 0x00))\<lparr>
     threads := map (\<lambda>t. zero_thread\<lparr>t_proc := t div 2, resume_at := (if t = 2 then AfterFault else Halted)\<rparr>) [0..<6],
     processes := map (\<lambda>i. zero_process\<lparr>pgd_pa := [0x70004000, 0x70008000, 0x7000C000] ! i\<rparr>) [0..<3],
     sp_usr := 0x40100000, lr_usr := 0x40000010, ttbr0 := 0x7000404A\<rparr>"

lemma sample_places: "places 0x1000 0x10000 0x2000"
  by (simp add: places_def apart_def)

lemma sample_mem_threads:
  "\<forall>t \<in> set [0..<6]. sample_mem (tcb 0x1000 t + 72) = pcb 0x2000 (t div 2) \<and> sample_mem (tcb 0x1000 t + 64) = 0 \<and>
     sample_mem (tcb 0x1000 t + 68) = 0"
  by code_simp

lemma sample_mem_stacks:
  assumes "t < 6"
  shows "sample_mem (tcb 0x1000 t + 52) = kstk 0x10000 t + 8156"
    "sample_mem (kstk 0x10000 t + 8156 + 32) = (if t = 2 then 0xC0104444 else 0)"
proof -
  have "t = 0 \<or> t = 1 \<or> t = 2 \<or> t = 3 \<or> t = 4 \<or> t = 5" using assms by linarith
  then show "sample_mem (tcb 0x1000 t + 52) = kstk 0x10000 t + 8156"
    "sample_mem (kstk 0x10000 t + 8156 + 32) = (if t = 2 then 0xC0104444 else 0)"
    by (elim disjE; simp add: sample_mem_def tcb_def kstk_def)+
qed

lemma sample_stacks:
  assumes "t < 6"
  shows "stack_room 0x10000 t (sample_mem (tcb 0x1000 t + 52) + 36)"
    "sample_cont t (saved_point 0x1000 0x10000 t sample_mem) = (if t = 2 then AfterFault else Halted)"
proof -
  note m = sample_mem_stacks [OF assms]
  have k: "unat (kstk 0x10000 t) = 65536 + 8192 * t" using unat_kstk [OF sample_places assms] by simp
  then have "unat (kstk 0x10000 t + 8192) = 65536 + 8192 * t + 8192" using unat_u32_add [of "kstk 0x10000 t" 8192] assms by simp
  then show "stack_room 0x10000 t (sample_mem (tcb 0x1000 t + 52) + 36)" using k m(1) by (simp add: stack_room_def add.assoc)
  show "sample_cont t (saved_point 0x1000 0x10000 t sample_mem) = (if t = 2 then AfterFault else Halted)"
    using m by (simp add: sample_cont_def saved_point_def Let_def offset_defs nth_ldm)
qed

lemma sample_mem_processes:
  "\<forall>i \<in> set [0..<3]. sample_mem (pcb 0x2000 i + 12) = [0x70004000, 0x70008000, 0x7000C000] ! i"
  by code_simp

lemma sample_switch_fields:
  "t < 6 \<Longrightarrow> threads sample_switch ! t = zero_thread\<lparr>t_proc := t div 2, resume_at := (if t = 2 then AfterFault else Halted)\<rparr>" "length (threads sample_switch) = 6"
  "i < 3 \<Longrightarrow> processes sample_switch ! i = zero_process\<lparr>pgd_pa := [0x70004000, 0x70008000, 0x7000C000] ! i\<rparr>"
  by (simp_all add: sample_switch_def del: upt_rec_numeral)

lemma sample_rel: "switch_rel sample_cont 0x1000 0x10000 0x2000 (Some 0) sample_switch sample_machine"
proof -
  have "m_mem sample_machine = sample_mem" by (simp add: sample_machine_def)
  moreover have "usr_sp sample_machine = sp_usr sample_switch \<and> usr_lr sample_machine = lr_usr sample_switch \<and>
      m_ttbr0 sample_machine = ttbr0 sample_switch"
    by (simp add: sample_machine_def sample_switch_def)
  moreover have "t div 2 < 3" if "t < 6" for t :: nat using that by simp
  ultimately show ?thesis
    using sample_mem_threads sample_mem_processes sample_switch_fields sample_stacks
    by (simp add: switch_rel_def zero_thread_def del: upt_rec_numeral)
qed

lemma sample_regs:
  "gpr sample_machine 0 = tcb 0x1000 0" "gpr sample_machine 1 = tcb 0x1000 2" "stack_room 0x10000 0 (svc_sp sample_machine)"
  by (simp_all add: sample_machine_def tcb_def stack_room_def kstk_def)

theorem context_switch_refines_witness:
  "\<exists>s m. switch_rel sample_cont 0x1000 0x10000 0x2000 (Some 0) s m \<and> m_ttbr0 m = 0x7000404A \<and>
     switch_rel sample_cont 0x1000 0x10000 0x2000 (Some 2) (context_switch (Some 0) 2 Halted s) (context_switch_asm m) \<and>
     AfterFault = sample_cont 2 (live_point 0x10000 2 (context_switch_asm m))"
proof -
  let ?s = "context_switch (Some 0) 2 Halted sample_switch"
  have k: "sample_cont 0 (call_point 0x10000 0 sample_machine) = Halted" by (simp add: sample_cont_def call_point_def sample_machine_def)
  have "cpu ?s = AfterFault"
    using sample_switch_fields(1) [of 2] sample_switch_fields(2)
    by (simp add: context_switch_def load_next_def switch_mm_def save_prev_def nth_upd_thread Let_def)
  moreover have "switch_rel sample_cont 0x1000 0x10000 0x2000 (Some 2) ?s (context_switch_asm sample_machine) \<and>
      cpu ?s = sample_cont 2 (live_point 0x10000 2 (context_switch_asm sample_machine))"
    by (rule context_switch_refines [OF sample_places sample_rel _ sample_regs(2)]) (use sample_regs k in simp_all)
  moreover have "m_ttbr0 sample_machine = 0x7000404A" by (simp add: sample_machine_def)
  ultimately show ?thesis using sample_rel by metis
qed

lemma sample_state_word: "0x1054 \<notin> owned 0x1000 0x10000 0"
  by (simp add: owned_def interval_def THREAD_STATE_OFFSET_def tcb_def kstk_def)

theorem interrupted_thread_resumes_witness:
  "\<exists>mc m2 m5. m_mem m2 = (m_mem (context_switch_asm mc))(0x1054 := 1) \<and> m_mem m5 = m_mem (context_switch_asm m2) \<and>
     m_pc (context_switch_asm m2) = svc_lr mc \<and> user_view (irq_return m5) = user_view sample_machine \<and> usr_sp (irq_return m5) = 0x40100000"
proof -
  let ?m = sample_machine
  let ?mc = "(take_irq ?m)\<lparr>gpr := \<lambda>i. if i = 0 then 0x1000 else 0x10C8, svc_sp := svc_sp (take_irq ?m) - 32\<rparr>"
  let ?m2 = "(context_switch_asm ?mc)\<lparr>gpr := \<lambda>i. if i = 0 then 0x10C8 else 0x1000, svc_sp := 0x16000,
    m_mem := (m_mem (context_switch_asm ?mc))(0x1054 := 1)\<rparr>"
  let ?m5 = "(context_switch_asm ?m2)\<lparr>svc_sp := svc_sp (context_switch_asm ?m2) + (svc_sp (take_irq ?m) - svc_sp ?mc)\<rparr>"
  have sp: "svc_sp ?m = 0x12000" "usr_sp ?m = 0x40100000" by (simp_all add: sample_machine_def)
  have k: "unat (kstk 0x10000 0) = 0x10000" by (simp add: kstk_def)
  have h: "0 < (6 :: nat)" "2 < (6 :: nat)" "2 < (6 :: nat)" "2 \<noteq> (0 :: nat)" "unat (kstk 0x10000 0) + 64 \<le> unat (svc_sp ?m)"
    "unat (svc_sp ?m) \<le> unat (kstk 0x10000 0) + 8192"
    using sp k by simp_all
  have c: "svc_sp ?mc \<le> svc_sp (take_irq ?m)" "stack_room 0x10000 0 (svc_sp ?mc)" "gpr ?mc 0 = tcb 0x1000 0" "gpr ?mc 1 = tcb 0x1000 2"
    "usr_sp ?mc = usr_sp ?m" "usr_lr ?mc = usr_lr ?m" "\<forall>b \<in> words (svc_sp (take_irq ?m)) 16. m_mem ?mc b = m_mem (take_irq ?m) b"
    using irq_entry_frame(1) [of ?m] sp
    by (simp_all add: tcb_def stack_room_def k take_irq_def exception_entry_irq_def push_words_def Let_def)
  have d: "\<forall>b \<in> owned 0x1000 0x10000 0. m_mem ?m2 b = m_mem (context_switch_asm ?mc) b"
    "gpr ?m2 0 = tcb 0x1000 2" "gpr ?m2 1 = tcb 0x1000 0" "stack_room 0x10000 2 (svc_sp ?m2)"
    using sample_state_word by (auto simp: tcb_def stack_room_def kstk_def)
  have e: "svc_sp ?m5 = svc_sp (context_switch_asm ?m2) + (svc_sp (take_irq ?m) - svc_sp ?mc)"
    "usr_sp ?m5 = usr_sp (context_switch_asm ?m2)" "usr_lr ?m5 = usr_lr (context_switch_asm ?m2)"
    "\<forall>b \<in> words (svc_sp (take_irq ?m)) 16. m_mem ?m5 b = m_mem (context_switch_asm ?m2) b"
    by simp_all
  have "m_pc (context_switch_asm ?m2) = svc_lr ?mc \<and> user_view (irq_return ?m5) = user_view ?m \<and> usr_sp (irq_return ?m5) = usr_sp ?m"
    using interrupted_thread_resumes [OF sample_places h c d e] by blast
  then show ?thesis using sp by (intro exI [of _ ?mc] exI [of _ ?m2] exI [of _ ?m5]) simp
qed

theorem exception_frames_witness:
  "\<exists>m2. svc_sp m2 = svc_sp (exception_entry_svc (take_svc sample_machine)) \<and>
     user_view (svc_return m2) = set_r0 42 (user_view sample_machine)"
proof -
  let ?m1 = "exception_entry_svc (take_svc sample_machine)"
  let ?m2 = "?m1\<lparr>m_mem := (m_mem ?m1)(svc_sp ?m1 + 4 := 42)\<rparr>"
  show ?thesis by (rule exI [of _ ?m2]) (use exception_frames [of ?m2 sample_machine 42] in simp)
qed

theorem first_entry_reaches_user_witness:
  "\<exists>m. m_mem m = build_frame sample_link 0x40000000 1 0x1064 0x12000 KSTACK_SIZE 0x400F0000 sample_mem \<and>
     user_view (ret_from_first_entry (context_switch_asm m)) = first_ctx 0x40000000 1 \<and>
     usr_sp (ret_from_first_entry (context_switch_asm m)) = 0x400F0000"
proof -
  let ?m = "sample_machine\<lparr>gpr := \<lambda>i. if i = 0 then 0 else 0x1064,
    m_mem := build_frame sample_link 0x40000000 1 0x1064 0x12000 KSTACK_SIZE 0x400F0000 sample_mem\<rparr>"
  have a: "tcb 0x1000 1 = 0x1064" "kstk 0x10000 1 = 0x12000" by (simp_all add: tcb_def kstk_def)
  show ?thesis
    by (rule exI [of _ ?m])
      (use first_entry_reaches_user [OF sample_places, of 1 ?m sample_link "0x40000000" 1 "0x400F0000" sample_mem] a in simp)
qed

end
