(* ===== verification/Start.thy ===== *)
theory Start
  imports Context_Switch
begin

text \<open>
  From reset to \<open>kmain\<close>, on registers and memory words: \<open>kernel/arch/arm/boot/start.S\<close>, \<open>mmu_init\<close> of
  \<open>kernel/arch/arm/mm/mmu.c\<close> with \<open>kernel/arch/arm/mm/mmu_enable.S\<close>, the part of \<open>exception_init\<close> that installs the vector table,
  and the table itself (\<open>kernel/arch/arm/exception/vectors.S\<close>).

  Until the MMU is on the code runs at its load address while every symbol is its link address; \<open>start.S\<close>
  works with the difference of the two. One definition stands for one numbered step of \<open>start.S\<close>. \<open>mmu_init\<close> is compiled
  code: besides building the table it may leave anything in the scratch registers and on the stack
  below the stack pointer it was given; both are arguments. The theory \<open>Boot\<close> starts where this one ends, from a state
  with a cleared BSS and the boot table installed.
\<close>

section \<open>Model\<close>

record start_machine = machine +
  fiq_sp :: u32
  irq_sp :: u32
  abt_sp :: u32
  und_sp :: u32
  cp_sctlr :: u32
  cp_ttbcr :: u32
  cp_dacr :: u32
  cp_vbar :: u32

text \<open>The symbols of \<open>start.S\<close> that the record \<open>link_map\<close> does not have.\<close>

record start_syms =
  sy_start :: u32
  sy_start_va :: u32
  sy_fiq_stack_top :: u32
  sy_irq_stack_top :: u32
  sy_abt_stack_top :: u32
  sy_und_stack_top :: u32

definition cps :: "u32 \<Rightarrow> start_machine \<Rightarrow> start_machine" where
  "cps mode m = m\<lparr>m_cpsr := (m_cpsr m AND NOT 0x1F) OR mode\<rparr>"

definition reset_mask :: "start_machine \<Rightarrow> start_machine" where
  "reset_mask m = m\<lparr>m_cpsr := m_cpsr m OR 0xC0\<rparr>"

text \<open>\<open>pa\<close> is the address \<open>_start\<close> has been loaded at.\<close>

definition reset_offset :: "start_syms \<Rightarrow> u32 \<Rightarrow> start_machine \<Rightarrow> start_machine" where
  "reset_offset sy pa m = m\<lparr>gpr := (gpr m)(0 := pa, 4 := sy_start sy - pa)\<rparr>"

definition reset_stack :: "link_map \<Rightarrow> start_machine \<Rightarrow> start_machine" where
  "reset_stack lk m =
     (let m1 = cps 0x13 m; r1 = lk_svc_stack_top lk
      in m1\<lparr>gpr := (gpr m1)(1 := r1), svc_sp := r1 - gpr m1 4\<rparr>)"

text \<open>\<open>cmp r1, r2; strlo r3, [r1], #4; blo\<close> with \<open>r3 = 0\<close>.\<close>

partial_function (option) zero_bss :: "u32 \<Rightarrow> u32 \<Rightarrow> (u32 \<Rightarrow> u32) \<Rightarrow> (u32 \<times> (u32 \<Rightarrow> u32)) option" where
  "zero_bss r1 r2 mem = (if r1 < r2 then zero_bss (r1 + 4) r2 (mem(r1 := 0)) else Some (r1, mem))"

declare zero_bss.simps [code]

definition reset_bss :: "link_map \<Rightarrow> start_machine \<Rightarrow> start_machine option" where
  "reset_bss lk m =
     (let r1 = fst (lk_bss lk) - gpr m 4; r2 = snd (lk_bss lk) - gpr m 4
      in map_option (\<lambda>(r1', mem). m\<lparr>gpr := (gpr m)(1 := r1', 2 := r2, 3 := 0), m_mem := mem\<rparr>)
           (zero_bss r1 r2 (m_mem m)))"

definition mmu_enable_asm :: "start_machine \<Rightarrow> start_machine" where
  "mmu_enable_asm m =
     (let r0 = gpr m 0 OR 0x4A;
          r1 = cp_sctlr m OR push_bit 0 1 OR push_bit 2 1 OR push_bit 11 1 OR push_bit 12 1
      in m\<lparr>m_ttbr0 := r0, cp_ttbcr := 0, cp_dacr := 1, cp_sctlr := r1, gpr := (gpr m)(0 := r0, 1 := r1)\<rparr>)"

text \<open>The words of a translation table in memory.\<close>

definition table_at :: "(u32 \<Rightarrow> u32) \<Rightarrow> u32 \<Rightarrow> pgd" where
  "table_at mem pa = (\<lambda>i. if i < 4096 then mem (pa + 4 * of_nat i) else 0)"

definition mmu_init_asm :: "platform \<Rightarrow> link_map \<Rightarrow> u32 list \<Rightarrow> (nat \<Rightarrow> u32) \<Rightarrow> start_machine \<Rightarrow> start_machine" where
  "mmu_init_asm p lk frame scratch m =
     (let pgd_pa = lk_boot_pgd lk - gpr m 0;
          mem1 = stm (svc_sp m - 4 * of_nat (length frame)) frame (m_mem m);
          pgd = mmu_build_boot_pgd (board_of p) (platform_map_peripherals p) (table_at mem1 pgd_pa);
          mem2 = stm pgd_pa (map pgd [0..<4096]) mem1;
          m1 = m\<lparr>m_mem := mem2, gpr := (\<lambda>i. if i = 0 then pgd_pa else if i < 4 \<or> i = 12 then scratch i else gpr m i)\<rparr>
      in mmu_enable_asm m1)"

definition start_stacks :: "link_map \<Rightarrow> start_syms \<Rightarrow> start_machine \<Rightarrow> start_machine" where
  "start_stacks lk sy m =
     (let m1 = (cps 0x11 m)\<lparr>fiq_sp := sy_fiq_stack_top sy\<rparr>;
          m2 = (cps 0x12 m1)\<lparr>irq_sp := sy_irq_stack_top sy\<rparr>;
          m3 = (cps 0x17 m2)\<lparr>abt_sp := sy_abt_stack_top sy\<rparr>;
          m4 = (cps 0x1B m3)\<lparr>und_sp := sy_und_stack_top sy\<rparr>
      in (cps 0x13 m4)\<lparr>svc_sp := lk_svc_stack_top lk\<rparr>)"

text \<open>\<open>_reset\<close>, steps 1 to 5, and \<open>_start_va\<close>, steps 6 to 8.\<close>

definition start_reset ::
  "platform \<Rightarrow> link_map \<Rightarrow> start_syms \<Rightarrow> u32 \<Rightarrow> u32 list \<Rightarrow> (nat \<Rightarrow> u32) \<Rightarrow> start_machine \<Rightarrow> start_machine option" where
  "start_reset p lk sy pa frame scratch m =
     map_option (\<lambda>m1. mmu_init_asm p lk frame scratch (m1\<lparr>gpr := (gpr m1)(0 := gpr m1 4)\<rparr>))
       (reset_bss lk (reset_stack lk (reset_offset sy pa (reset_mask m))))"

definition start_va :: "link_map \<Rightarrow> start_syms \<Rightarrow> start_machine \<Rightarrow> start_machine" where
  "start_va lk sy m =
     (start_stacks lk sy (m\<lparr>m_pc := sy_start_va sy\<rparr>))\<lparr>svc_lr := sy_start_va sy + 44, m_pc := lk_kmain lk\<rparr>"

definition start ::
  "platform \<Rightarrow> link_map \<Rightarrow> start_syms \<Rightarrow> u32 \<Rightarrow> u32 list \<Rightarrow> (nat \<Rightarrow> u32) \<Rightarrow> start_machine \<Rightarrow> start_machine option" where
  "start p lk sy pa frame scratch m = map_option (start_va lk sy) (start_reset p lk sy pa frame scratch m)"

subsection \<open>Vectors\<close>

definition exception_init_asm :: "link_map \<Rightarrow> start_machine \<Rightarrow> start_machine" where
  "exception_init_asm lk m = m\<lparr>cp_vbar := lk_vectors_start lk\<rparr>"

datatype vector_entry = Vec_reset | Vec_undef | Vec_svc | Vec_pabort | Vec_dabort | Vec_nop | Vec_irq | Vec_fiq

definition vectors :: "vector_entry list" where
  "vectors = [Vec_reset, Vec_undef, Vec_svc, Vec_pabort, Vec_dabort, Vec_nop, Vec_irq, Vec_fiq]"

text \<open>Which entry the processor executes at the address it branches to; the low five bits of VBAR read as zero.\<close>

definition vector_fetch :: "link_map \<Rightarrow> start_machine \<Rightarrow> u32 \<Rightarrow> vector_entry option" where
  "vector_fetch lk m off =
     (let a = (cp_vbar m AND NOT 31) + off; k = unat (a - lk_vectors_start lk)
      in if k < 32 \<and> k mod 4 = 0 then Some (vectors ! (k div 4)) else None)"

section \<open>Clearing the BSS\<close>

lemma zero_bss_stm:
  "unat r1 + 4 * n = unat r2 \<Longrightarrow> zero_bss r1 r2 mem = Some (r2, stm r1 (replicate n 0) mem)"
proof (induction n arbitrary: r1 mem)
  case 0
  then have "r1 = r2" by (simp add: word_unat_eq_iff)
  then show ?case by (subst zero_bss.simps) simp
next
  case (Suc n)
  then have r: "r1 < r2" "unat (r1 + 4) + 4 * n = unat r2"
    using unat_u32_less [of r2] by (simp add: word_less_nat_alt, subst unat_u32_add) simp_all
  from Suc.IH [OF r(2), of "mem(r1 := 0)"] r(1) show ?case by (subst zero_bss.simps) (simp add: fun_upd_def)
qed

section \<open>Addresses\<close>

text \<open>What \<open>start.S\<close> relies on: the image has been loaded \<open>PHYS_OFFSET\<close> below its link address, the linker has aligned the BSS and placed
  \<open>boot_pgd\<close> inside it and the supervisor stack, 8 KB, behind it, all within the first 128 MB of the kernel's address range.\<close>

definition start_ok :: "platform \<Rightarrow> link_map \<Rightarrow> start_syms \<Rightarrow> u32 \<Rightarrow> bool" where
  "start_ok p lk sy pa \<longleftrightarrow>
     pa = sy_start sy - PHYS_OFFSET (board_of p) \<and>
     0xC0000000 \<le> unat (sy_start sy) \<and> unat (sy_start sy) < 0xC8000000 \<and>
     0xC0000000 \<le> unat (fst (lk_bss lk)) \<and> 4 dvd unat (fst (lk_bss lk)) \<and> 4 dvd unat (snd (lk_bss lk)) \<and>
     unat (fst (lk_bss lk)) \<le> unat (lk_boot_pgd lk) \<and> unat (lk_boot_pgd lk) + 0x4000 \<le> unat (snd (lk_bss lk)) \<and>
     unat (snd (lk_bss lk)) + 0x2000 \<le> unat (lk_svc_stack_top lk) \<and> unat (lk_svc_stack_top lk) \<le> 0xC8000000"

lemma link_to_load:
  assumes "0xC0000000 \<le> unat a"
  shows "unat (a - PHYS_OFFSET (board_of p)) = unat a - (0xC0000000 - unat (RAM_BASE (board_of p)))"
proof -
  have o: "unat (PHYS_OFFSET (board_of p)) = 0xC0000000 - unat (RAM_BASE (board_of p))"
    by (cases p) (simp_all add: board_defs)
  then have "PHYS_OFFSET (board_of p) \<le> a" using assms by (simp add: word_le_nat_alt)
  then show ?thesis using o by (simp add: unat_sub)
qed

lemma reset_offset_is_phys:
  "start_ok p lk sy pa \<Longrightarrow> gpr (reset_offset sy pa m) 4 = PHYS_OFFSET (board_of p)"
  by (simp add: start_ok_def reset_offset_def)

lemma word_offset:
  assumes "4 dvd unat a" "4 dvd unat b" "unat b \<le> unat (a::u32)"
  shows "a = b + 4 * of_nat ((unat a - unat b) div 4)"
proof -
  have "4 dvd unat a - unat b" using assms by simp
  then have "unat b + 4 * ((unat a - unat b) div 4) = unat a" using assms(3) by simp
  then have "of_nat (unat b + 4 * ((unat a - unat b) div 4)) = (of_nat (unat a) :: u32)" by (rule arg_cong)
  then show ?thesis by simp
qed

lemma zeros_at:
  assumes "4 dvd unat a" "4 dvd unat b" "unat b \<le> unat (a::u32)" "unat a < unat b + 4 * n" "n < 1073741823"
  shows "stm b (replicate n 0) mem a = 0"
proof -
  let ?i = "(unat a - unat b) div 4"
  have i: "?i < n" using assms(3,4) by (simp add: less_mult_imp_div_less mult.commute)
  then have "stm b (replicate n 0) mem (b + 4 * of_nat ?i) = 0" using stm_at [of ?i "replicate n 0" b mem] assms(5) by simp
  then show ?thesis using word_offset [OF assms(1-3)] by simp
qed

text \<open>The four regions at their load addresses.\<close>

lemma start_regions:
  assumes ok: "start_ok p lk sy pa" "link_ok lk" and len: "length frame \<le> 0x800"
  defines "off \<equiv> PHYS_OFFSET (board_of p)"
  defines "b \<equiv> fst (lk_bss lk) - off" and "e \<equiv> snd (lk_bss lk) - off" and "pg \<equiv> lk_boot_pgd lk - off"
    and "fr \<equiv> lk_svc_stack_top lk - off - 4 * of_nat (length frame)"
  shows "4 dvd unat b" "4 dvd unat e" "4 dvd unat pg" "unat b \<le> unat pg" "unat pg + 0x4000 \<le> unat e"
    "unat e \<le> unat fr" "unat fr + 4 * length frame \<le> 0xA0000000"
proof -
  let ?r = "0xC0000000 - unat (RAM_BASE (board_of p))"
  have r: "4 dvd ?r" "?r \<le> 0x50000000" "0x40000000 \<le> ?r" by (cases p; simp add: board_defs)+
  note ok' = ok(1) [unfolded start_ok_def]
  have u: "unat b = unat (fst (lk_bss lk)) - ?r" "unat e = unat (snd (lk_bss lk)) - ?r" "unat pg = unat (lk_boot_pgd lk) - ?r"
    "unat (lk_svc_stack_top lk - off) = unat (lk_svc_stack_top lk) - ?r"
    using ok' unfolding off_def b_def e_def pg_def by (subst link_to_load; simp)+
  have pgd: "4 dvd unat (lk_boot_pgd lk)"
  proof -
    have "unat (lk_boot_pgd lk) mod 16384 = 0"
      using ok(2) unsigned_take_bit_eq [of 14 "lk_boot_pgd lk"] by (simp add: link_ok_def and_3FFF take_bit_eq_mod)
    then have "16384 dvd unat (lk_boot_pgd lk)" by (simp add: dvd_eq_mod_eq_0)
    moreover have "(4::nat) dvd 16384" by simp
    ultimately show ?thesis by (rule dvd_trans [rotated])
  qed
  show "4 dvd unat b" "4 dvd unat e" "4 dvd unat pg" unfolding u using ok' r(1) pgd by (simp_all add: dvd_diff_nat)
  show "unat b \<le> unat pg" "unat pg + 0x4000 \<le> unat e" unfolding u using ok' r(2) by linarith+
  have l: "unat (4 * of_nat (length frame) :: u32) = 4 * length frame"
    using unat_u32_of_nat [of "4 * length frame"] len by simp
  moreover have "4 * length frame \<le> unat (lk_svc_stack_top lk) - ?r" using ok' r(2) len by linarith
  ultimately have "unat fr = unat (lk_svc_stack_top lk) - ?r - 4 * length frame"
    unfolding fr_def by (subst unat_sub) (simp_all add: u(4) word_le_nat_alt)
  then show "unat e \<le> unat fr" "unat fr + 4 * length frame \<le> 0xA0000000"
    using ok' r(2,3) len unfolding u by linarith+
qed

lemma table_word:
  assumes "4 dvd unat pg" "unat pg + 0x4000 \<le> 4294967296" "i < 4096"
  shows "unat (pg + 4 * of_nat i :: u32) = unat pg + 4 * i"
proof -
  have "unat (of_nat (4 * i) :: u32) = 4 * i" using assms(3) by (intro unat_u32_of_nat) simp
  then show ?thesis using unat_u32_add [of pg "of_nat (4 * i)"] assms(2,3) by simp
qed

text \<open>The boot table has no entry beyond its 4096 words.\<close>

lemma boot_table_beyond: "4096 \<le> i \<Longrightarrow> boot_table p i = 0"
  by (cases p) (simp_all add: boot_table_def qemu.boot_entry bbb.boot_entry)

text \<open>The memory after the three stretches of stores: the BSS is zero but for the table, the table is the boot table, the rest is untouched.\<close>

lemma start_memory:
  fixes mem :: "u32 \<Rightarrow> u32" and p :: platform
  assumes d: "4 dvd unat b" "4 dvd unat pg" "unat b \<le> unat pg" "unat pg + 0x4000 \<le> unat b + 4 * n"
    and f: "unat b + 4 * n \<le> unat fr" "unat fr + 4 * length frame \<le> 0xA0000000"
  defines "mem1 \<equiv> stm fr frame (stm b (replicate n 0) mem)"
  defines "mem2 \<equiv> stm pg (map (mmu_build_boot_pgd (board_of p) (platform_map_peripherals p) (table_at mem1 pg)) [0..<4096]) mem1"
  shows "table_at mem2 pg = boot_table p"
    and "4 dvd unat a \<Longrightarrow> unat b \<le> unat a \<Longrightarrow> unat a < unat b + 4 * n \<Longrightarrow> a \<notin> interval pg 0x4000 \<Longrightarrow> mem2 a = 0"
    and "a \<notin> interval b (4 * n) \<Longrightarrow> a \<notin> interval fr (4 * length frame) \<Longrightarrow> mem2 a = mem a"
proof -
  have n: "n < 1073741823" "unat b + 4 * n < 4294967296" using f by linarith+
  have fr: "words fr (length frame) \<subseteq> interval fr (4 * length frame)" using f by (intro words_interval) linarith
  have wb: "words b n \<subseteq> interval b (4 * n)" using n(2) by (rule words_interval)
  have wp: "words pg 4096 \<subseteq> interval pg 0x4000" using words_interval [of pg 4096] d(4) n(2) by simp
  have pi: "interval pg 0x4000 \<subseteq> interval b (4 * n)" using d(3,4) by (auto simp: interval_def)
  have z: "mem1 a = 0" if "4 dvd unat a" "unat b \<le> unat a" "unat a < unat b + 4 * n" for a
  proof -
    have "a \<notin> words fr (length frame)" using fr that(3) f(1) by (auto simp: interval_def)
    then show ?thesis unfolding mem1_def using zeros_at [OF that(1) d(1) that(2,3) n(1)] by (simp add: stm_other)
  qed
  have "mem1 (pg + 4 * of_nat i) = 0" if "i < 4096" for i
    using that table_word [OF d(2) _ that] d n(2) by (intro z) simp_all
  then have t: "table_at mem1 pg = (\<lambda>_. 0)" by (simp add: table_at_def fun_eq_iff)
  have len: "length (map (boot_table p) [0..<4096]) = 4096" by simp
  have m2: "mem2 = stm pg (map (boot_table p) [0..<4096]) mem1" by (simp add: mem2_def t boot_table_def [symmetric])
  have "mem2 (pg + 4 * of_nat i) = boot_table p i" if "i < 4096" for i
    unfolding m2 using that len by (subst stm_at) simp_all
  then show "table_at mem2 pg = boot_table p" by (auto simp: table_at_def fun_eq_iff boot_table_beyond)
  show "mem2 a = 0" if "4 dvd unat a" "unat b \<le> unat a" "unat a < unat b + 4 * n" "a \<notin> interval pg 0x4000"
    unfolding m2 using that z wp len by (subst stm_other) auto
  show "mem2 a = mem a" if "a \<notin> interval b (4 * n)" "a \<notin> interval fr (4 * length frame)"
  proof -
    have w: "a \<notin> words pg (length (map (boot_table p) [0..<4096]))" "a \<notin> words fr (length frame)" "a \<notin> words b (length (replicate n (0::u32)))"
      using that wp fr wb pi len by auto
    show ?thesis unfolding m2 mem1_def stm_other [OF w(1)] stm_other [OF w(2)] stm_other [OF w(3)] ..
  qed
qed

section \<open>What start.S achieves\<close>

lemma cps_frame [simp]:
  "gpr (cps x m) = gpr m" "m_mem (cps x m) = m_mem m" "svc_sp (cps x m) = svc_sp m" "m_ttbr0 (cps x m) = m_ttbr0 m"
  "fiq_sp (cps x m) = fiq_sp m" "irq_sp (cps x m) = irq_sp m" "abt_sp (cps x m) = abt_sp m" "und_sp (cps x m) = und_sp m"
  "cp_sctlr (cps x m) = cp_sctlr m" "cp_ttbcr (cps x m) = cp_ttbcr m" "cp_dacr (cps x m) = cp_dacr m"
  by (simp_all add: cps_def)

text \<open>Setting a mode keeps the interrupt masks.\<close>

lemma mode_bits:
  fixes c :: u32
  shows "((c AND NOT 0x1F) OR x) AND 0x1F = x AND 0x1F" "((c AND NOT 0x1F) OR x) AND 0xC0 = (c OR x) AND 0xC0"
proof -
  have n: "NOT 0x1F AND (0x1F :: u32) = 0" "NOT 0x1F AND (0xC0 :: u32) = 0xC0" by simp_all
  show "((c AND NOT 0x1F) OR x) AND 0x1F = x AND 0x1F" "((c AND NOT 0x1F) OR x) AND 0xC0 = (c OR x) AND 0xC0"
    unfolding bit.conj_disj_distrib2 and.assoc n by simp_all
qed

lemma cps_mode [simp]:
  "m_cpsr (cps x m) AND 0x1F = x AND 0x1F" "m_cpsr (cps x m) AND 0xC0 = (m_cpsr m OR x) AND 0xC0"
proof -
  have "m_cpsr (cps x m) = (m_cpsr m AND NOT 0x1F) OR x" by (simp add: cps_def)
  then show "m_cpsr (cps x m) AND 0x1F = x AND 0x1F" "m_cpsr (cps x m) AND 0xC0 = (m_cpsr m OR x) AND 0xC0"
    by (simp_all only: mode_bits)
qed

lemma start_va_state:
  "m_pc (start_va lk sy m) = lk_kmain lk" "svc_sp (start_va lk sy m) = lk_svc_stack_top lk"
  "fiq_sp (start_va lk sy m) = sy_fiq_stack_top sy" "irq_sp (start_va lk sy m) = sy_irq_stack_top sy"
  "abt_sp (start_va lk sy m) = sy_abt_stack_top sy" "und_sp (start_va lk sy m) = sy_und_stack_top sy"
  "m_mem (start_va lk sy m) = m_mem m" "m_ttbr0 (start_va lk sy m) = m_ttbr0 m" "cp_sctlr (start_va lk sy m) = cp_sctlr m"
  "cp_dacr (start_va lk sy m) = cp_dacr m" "cp_ttbcr (start_va lk sy m) = cp_ttbcr m"
  "m_cpsr (start_va lk sy m) AND 0x1F = 0x13" "m_cpsr (start_va lk sy m) AND 0xC0 = m_cpsr m AND 0xC0"
  by (simp_all add: start_va_def start_stacks_def Let_def bit.conj_disj_distrib2)

text \<open>In the first 128 MB of the kernel's range the boot table maps a link address and its load address to the same place.\<close>

lemma boot_alias:
  assumes "0xC0000000 \<le> unat x" "unat x < 0xC8000000"
  shows "translate (boot_table p) Priv w x = Some (x - PHYS_OFFSET (board_of p))"
    "translate (boot_table p) Priv w (x - PHYS_OFFSET (board_of p)) = Some (x - PHYS_OFFSET (board_of p))"
proof -
  have x: "0xC00 \<le> pgd_index x" "pgd_index x < 0xC80" using assms by (simp_all add: pgd_index_nat)
  show "translate (boot_table p) Priv w x = Some (x - PHYS_OFFSET (board_of p))"
    using boot_table_view [of x p Priv w] x by (cases p) (simp_all add: Let_def board_defs pgd_index_nat)
  have "unat (x - PHYS_OFFSET (board_of p)) = unat x - (0xC0000000 - unat (RAM_BASE (board_of p)))"
    using link_to_load assms(1) by simp
  then have y: "pgd_index (RAM_BASE (board_of p)) \<le> pgd_index (x - PHYS_OFFSET (board_of p))"
    "pgd_index (x - PHYS_OFFSET (board_of p)) < pgd_index (RAM_BASE (board_of p)) + 0x80"
    using assms by (cases p; simp add: board_defs pgd_index_nat less_eq_div_iff_mult_less_eq div_less_iff_less_mult)+
  have "0x80 \<le> pgd_index (RAM_SIZE (board_of p))" by (cases p) (simp_all add: board_defs pgd_index_nat)
  with y show "translate (boot_table p) Priv w (x - PHYS_OFFSET (board_of p)) = Some (x - PHYS_OFFSET (board_of p))"
    using boot_table_view [of "x - PHYS_OFFSET (board_of p)" p Priv w] by (simp add: Let_def)
qed

text \<open>C12: \<open>start.S\<close> reaches \<open>kmain\<close> in the state \<open>Boot\<close> starts from. Whatever memory and registers hold at reset, and whatever the compiled
  \<open>mmu_init\<close> leaves on its stack, the loop that clears the BSS ends and \<open>kmain\<close> is entered at its link address, in supervisor mode with
  interrupts masked, each mode on its own stack; every word of the BSS is zero, except for \<open>boot_pgd\<close>, which holds the boot table; nothing else has been
  changed but the stack; and the MMU is on with TTBR0 pointing at that table, under which the code runs on without a gap: a link address and the load
  address it was reached from lead to the same memory.\<close>

theorem start_reaches_kmain:
  fixes ram :: "u32 \<Rightarrow> char"
  assumes "start_ok p lk sy pa" "link_ok lk" "length frame \<le> 0x800"
  defines "off \<equiv> PHYS_OFFSET (board_of p)"
  defines "bss \<equiv> interval (fst (lk_bss lk) - off) (unat (snd (lk_bss lk)) - unat (fst (lk_bss lk)))"
    and "stk \<equiv> interval (lk_svc_stack_top lk - off - 4 * of_nat (length frame)) (4 * length frame)"
    and "s0 \<equiv> mmu_init p lk off (bss_state ram)"
  shows "\<exists>m'. start p lk sy pa frame scratch m = Some m' \<and>
    m_pc m' = lk_kmain lk \<and> m_cpsr m' AND 0x1F = 0x13 \<and> m_cpsr m' AND 0xC0 = 0xC0 \<and>
    svc_sp m' = lk_svc_stack_top lk \<and> fiq_sp m' = sy_fiq_stack_top sy \<and> irq_sp m' = sy_irq_stack_top sy \<and>
    abt_sp m' = sy_abt_stack_top sy \<and> und_sp m' = sy_und_stack_top sy \<and>
    (\<forall>a \<in> bss. 4 dvd unat a \<and> a \<notin> interval (lk_boot_pgd lk - off) 0x4000 \<longrightarrow> m_mem m' a = 0) \<and>
    (\<forall>a. a \<notin> bss \<and> a \<notin> stk \<longrightarrow> m_mem m' a = m_mem m a) \<and>
    m_ttbr0 m' = ttbr0 s0 \<and> table_at (m_mem m') (ttbr0 s0 AND 0xFFFFC000) = active_table s0 \<and>
    bit (cp_sctlr m') 0 \<and> cp_dacr m' = 1 \<and> cp_ttbcr m' = 0 \<and>
    translate (active_table s0) Priv False pa = Some pa \<and> translate (active_table s0) Priv False (sy_start sy) = Some pa"
proof -
  let ?b = "fst (lk_bss lk) - off" and ?e = "snd (lk_bss lk) - off" and ?pg = "lk_boot_pgd lk - off"
  let ?fr = "lk_svc_stack_top lk - off - 4 * of_nat (length frame)"
  note R = start_regions [OF assms(1-3), folded off_def]
  define n where "n = (unat ?e - unat ?b) div 4"
  have n: "unat ?b + 4 * n = unat ?e" unfolding n_def using R(1,2,4,5) by (simp add: dvd_diff_nat)
  have be: "unat ?e - unat ?b = unat (snd (lk_bss lk)) - unat (fst (lk_bss lk))"
    using assms(1) link_to_load [of "fst (lk_bss lk)" p] link_to_load [of "snd (lk_bss lk)" p]
    unfolding start_ok_def off_def by (cases p) (simp_all add: board_defs)
  moreover have "unat ?e - unat ?b = 4 * n" using n by linarith
  ultimately have bss: "bss = interval ?b (4 * n)" unfolding bss_def by simp
  let ?m1 = "reset_stack lk (reset_offset sy pa (reset_mask m))"
  have r4: "gpr ?m1 4 = off" "svc_sp ?m1 = lk_svc_stack_top lk - off" "m_mem ?m1 = m_mem m" "cp_sctlr ?m1 = cp_sctlr m"
    "m_cpsr ?m1 AND 0xC0 = 0xC0"
    using assms(1) by (simp_all add: start_ok_def off_def reset_stack_def reset_offset_def reset_mask_def Let_def
        bit.conj_disj_distrib2)
  let ?mz = "stm ?b (replicate n 0) (m_mem m)"
  have rb: "reset_bss lk ?m1 = Some (?m1\<lparr>gpr := (gpr ?m1)(1 := ?e, 2 := ?e, 3 := 0), m_mem := ?mz\<rparr>)"
    using zero_bss_stm [OF n] by (simp add: reset_bss_def Let_def r4)
  let ?m2 = "?m1\<lparr>m_mem := ?mz, gpr := (gpr ?m1)(1 := ?e, 2 := ?e, 3 := 0, 0 := off)\<rparr>"
  define m3 where "m3 = mmu_init_asm p lk frame scratch ?m2"
  have st: "start p lk sy pa frame scratch m = Some (start_va lk sy m3)"
    using r4(1) by (simp add: start_def start_reset_def rb m3_def)
  have f3: "m_ttbr0 m3 = ?pg OR 0x4A" "cp_dacr m3 = 1" "cp_ttbcr m3 = 0" "m_cpsr m3 AND 0xC0 = 0xC0" "bit (cp_sctlr m3) 0"
    "m_mem m3 = stm ?pg (map (mmu_build_boot_pgd (board_of p) (platform_map_peripherals p)
        (table_at (stm ?fr frame ?mz) ?pg)) [0..<4096]) (stm ?fr frame ?mz)"
    using r4 by (simp_all add: m3_def mmu_init_asm_def mmu_enable_asm_def Let_def bit_simps)
  have F: "unat ?pg + 0x4000 \<le> unat ?b + 4 * n" "unat ?b + 4 * n \<le> unat ?fr" using R(5,6) n by simp_all
  note M = start_memory [OF R(1,3,4) F(1) F(2) R(7), where p = p and mem = "m_mem m", folded f3(6)]
  have s0: "ttbr0 s0 = ?pg OR 0x4A" "ttbr0 s0 AND 0xFFFFC000 = ?pg" "active_table s0 = boot_table p"
    using boot_pa_aligned [OF assms(2), of p]
    by (simp_all add: s0_def off_def mmu_init_def mmu_enable_def active_table_def boot_table_def bss_state_def ttbr0_base Let_def)
  have "translate (boot_table p) Priv False (sy_start sy) = Some pa" "translate (boot_table p) Priv False pa = Some pa"
    using assms(1) boot_alias [of "sy_start sy" p False] by (simp_all add: start_ok_def)
  with st M show ?thesis
    by (intro exI [of _ "start_va lk sy m3"])
      (auto simp: start_va_state f3(1-5) s0 s0(2) [unfolded s0(1)] bss stk_def interval_def)
qed

definition sample_syms :: start_syms where
  "sample_syms = \<lparr>sy_start = 0xC0100000, sy_start_va = 0xC010004C, sy_fiq_stack_top = 0xC0131200,
     sy_irq_stack_top = 0xC0131600, sy_abt_stack_top = 0xC0131A00, sy_und_stack_top = 0xC0131E00\<rparr>"

lemma sample_start_ok: "start_ok Qemu sample_link sample_syms 0x70100000"
  by (simp add: start_ok_def sample_syms_def sample_link_def board_defs)

theorem start_reaches_kmain_witness:
  "\<exists>m'. start Qemu sample_link sample_syms 0x70100000 [1, 2] (\<lambda>_. 7)
      \<lparr>gpr = (\<lambda>_. 5), svc_sp = 0, svc_lr = 0, usr_sp = 0, usr_lr = 0, m_pc = 0x70100000, m_cpsr = 0x1D3, m_spsr = 0, m_ttbr0 = 0,
        m_mem = (\<lambda>_. 0xDEADBEEF), fiq_sp = 0, irq_sp = 0, abt_sp = 0, und_sp = 0, cp_sctlr = 0, cp_ttbcr = 0, cp_dacr = 0, cp_vbar = 0\<rparr> = Some m' \<and>
     m_pc m' = 0xC0101000 \<and> m_mem m' 0x70110000 = 0 \<and> m_mem m' 0x70108000 = 0xDEADBEEF"
proof -
  let ?m = "\<lparr>gpr = (\<lambda>_. 5), svc_sp = 0, svc_lr = 0, usr_sp = 0, usr_lr = 0, m_pc = 0x70100000, m_cpsr = 0x1D3, m_spsr = 0, m_ttbr0 = 0,
        m_mem = (\<lambda>_. 0xDEADBEEF), fiq_sp = 0, irq_sp = 0, abt_sp = 0, und_sp = 0, cp_sctlr = 0, cp_ttbcr = 0, cp_dacr = 0, cp_vbar = 0\<rparr>"
  let ?off = "PHYS_OFFSET (board_of Qemu)"
  have len: "length ([1, 2] :: u32 list) \<le> 0x800" by simp
  from start_reaches_kmain [OF sample_start_ok sample_link_ok len, where m = ?m and scratch = "\<lambda>_. 7" and ram = "\<lambda>_. CHR 0x00"] obtain m' where
    m': "start Qemu sample_link sample_syms 0x70100000 [1, 2] (\<lambda>_. 7) ?m = Some m'" "m_pc m' = lk_kmain sample_link"
    and z: "\<forall>a \<in> interval (fst (lk_bss sample_link) - ?off) (unat (snd (lk_bss sample_link)) - unat (fst (lk_bss sample_link))).
      4 dvd unat a \<and> a \<notin> interval (lk_boot_pgd sample_link - ?off) 0x4000 \<longrightarrow> m_mem m' a = 0"
    and k: "\<forall>a. a \<notin> interval (fst (lk_bss sample_link) - ?off) (unat (snd (lk_bss sample_link)) - unat (fst (lk_bss sample_link))) \<and>
      a \<notin> interval (lk_svc_stack_top sample_link - ?off - 4 * of_nat (length ([1, 2] :: u32 list))) (4 * length ([1, 2] :: u32 list)) \<longrightarrow>
      m_mem m' a = m_mem ?m a"
    by (elim exE conjE) (erule (3) that)
  have "m_mem m' 0x70110000 = 0" using z [rule_format, of "0x70110000"] by (simp add: interval_def sample_link_def board_defs)
  moreover have "m_mem m' 0x70108000 = 0xDEADBEEF"
    using k [rule_format, of "0x70108000"] by (simp add: interval_def sample_link_def board_defs)
  ultimately show ?thesis using m' by (simp add: sample_link_def)
qed

text \<open>With a table that is 32-byte aligned, as \<open>vectors.S\<close> asks, each exception reaches its entry.\<close>

lemma vectors_reached:
  assumes "lk_vectors_start lk AND 31 = 0" "k < 8"
  shows "vector_fetch lk (exception_init_asm lk m) (4 * of_nat k) = Some (vectors ! k)"
proof -
  have "lk_vectors_start lk = (lk_vectors_start lk AND 31) OR (lk_vectors_start lk AND NOT 31)"
    by (simp only: bit.conj_disj_distrib [symmetric] bit.disj_cancel_right bit.conj_one_right)
  then have v: "lk_vectors_start lk AND NOT 31 = lk_vectors_start lk" using assms(1) by simp
  have "unat (4 * of_nat k :: u32) = 4 * k" using unat_u32_of_nat [of "4 * k"] assms(2) by simp
  moreover have "NOT (31 :: u32) = - 32" by simp
  ultimately show ?thesis using assms(2) v by (simp add: vector_fetch_def exception_init_asm_def Let_def)
qed

end
