(* ===== verification/Struct_Layout.thy ===== *)
theory Struct_Layout
  imports Context_Switch
begin

text \<open>
  The memory layout of the structures that assembly code reads and writes: \<open>cpu_context_t\<close> and \<open>thread_t\<close> of
  \<open>kernel/include/thread.h\<close>, \<open>process_t\<close> of \<open>kernel/include/proc.h\<close> and \<open>exception_context_t\<close> of \<open>kernel/include/exception.h\<close>, by the rules of the
  ARM procedure call standard: a member is placed at the next multiple of its alignment, a structure is as aligned as its most
  aligned member and padded to a multiple of it.
\<close>

section \<open>Layout of C types\<close>

datatype ctype = U32 | Ptr | Enum | Arr nat ctype | Struct "(string \<times> ctype) list"

definition align_up :: "nat \<Rightarrow> nat \<Rightarrow> nat" where
  "align_up n a = (n + a - 1) div a * a"

fun calign :: "ctype \<Rightarrow> nat" where
  "calign U32 = 4"
| "calign Ptr = 4"
| "calign Enum = 4"
| "calign (Arr n t) = calign t"
| "calign (Struct fs) = foldr max (map (\<lambda>f. calign (snd f)) fs) 1"

fun csize :: "ctype \<Rightarrow> nat" where
  "csize U32 = 4"
| "csize Ptr = 4"
| "csize Enum = 4"
| "csize (Arr n t) = n * csize t"
| "csize (Struct fs) =
     align_up (fold (\<lambda>f n. align_up n (calign (snd f)) + csize (snd f)) fs 0) (calign (Struct fs))"

text \<open>\<open>offsetof\<close>: where the named member starts.\<close>

fun member_at :: "string \<Rightarrow> nat \<Rightarrow> (string \<times> ctype) list \<Rightarrow> nat option" where
  "member_at x n [] = None"
| "member_at x n (f # fs) =
     (let a = align_up n (calign (snd f))
      in if fst f = x then Some a else member_at x (a + csize (snd f)) fs)"

fun offset_of :: "ctype \<Rightarrow> string \<Rightarrow> nat option" where
  "offset_of (Struct fs) x = member_at x 0 fs"
| "offset_of _ x = None"

section \<open>The structures\<close>

definition cpu_context_t :: ctype where
  "cpu_context_t = Struct
     [(''r0'', U32), (''r1'', U32), (''r2'', U32), (''r3'', U32), (''r4'', U32), (''r5'', U32), (''r6'', U32), (''r7'', U32),
      (''r8'', U32), (''r9'', U32), (''r10'', U32), (''r11'', U32), (''r12'', U32),
      (''sp_svc'', U32), (''lr_svc'', U32), (''spsr'', U32), (''sp_usr'', U32), (''lr_usr'', U32)]"

definition thread_t :: ctype where
  "thread_t = Struct
     [(''ctx'', cpu_context_t), (''proc'', Ptr), (''tid'', U32), (''index'', U32), (''state'', Enum),
      (''kstack_base'', Ptr), (''kstack_size'', U32), (''user_stack_top'', U32)]"

definition process_t :: ctype where
  "process_t = Struct
     [(''pid'', U32), (''name'', Ptr), (''pgd'', Ptr), (''pgd_pa'', U32), (''user_entry'', U32), (''user_phys_base'', U32),
      (''threads'', Arr (unat THREADS_PER_PROC) Ptr), (''img_size'', U32)]"

definition exception_context_t :: ctype where
  "exception_context_t = Struct [(''spsr'', U32), (''r'', Arr 13 U32), (''lr'', U32)]"

text \<open>The layout the assembly assumes is the layout of the structures. The offsets that \<open>context_switch.S\<close> uses are those of the members
  they are named after (what the static assertions of \<open>thread.h\<close> and \<open>proc.h\<close> check, and the two offsets they leave out), with \<open>ctx\<close> at the start of
  \<open>thread_t\<close>; the members of \<open>threads[]\<close> and \<open>processes[]\<close> are where the refinement proofs of the switch take them to be; and \<open>exception_context_t\<close> is
  the 15 words that the entry stubs push: the status first, then thirteen registers, then the return address.\<close>

theorem layout_matches_assembly:
  "map_option of_nat (offset_of cpu_context_t ''sp_svc'') = Some CTX_SP_SVC_OFFSET \<and>
   map_option of_nat (offset_of cpu_context_t ''lr_svc'') = Some CTX_LR_SVC_OFFSET \<and>
   map_option of_nat (offset_of cpu_context_t ''spsr'') = Some CTX_SPSR_OFFSET \<and>
   map_option of_nat (offset_of cpu_context_t ''sp_usr'') = Some CTX_SP_USR_OFFSET \<and>
   map_option of_nat (offset_of cpu_context_t ''lr_usr'') = Some CTX_LR_USR_OFFSET \<and>
   offset_of thread_t ''ctx'' = Some 0 \<and>
   map_option of_nat (offset_of thread_t ''proc'') = Some THREAD_PROC_OFFSET \<and>
   map_option of_nat (offset_of process_t ''pgd_pa'') = Some PROC_PGD_PA_OFFSET \<and>
   tcb tb t = tb + of_nat (csize thread_t * t) \<and> pcb pb i = pb + of_nat (csize process_t * i) \<and>
   offset_of exception_context_t ''spsr'' = Some 0 \<and> offset_of exception_context_t ''r'' = Some 4 \<and>
   offset_of exception_context_t ''lr'' = Some 56 \<and> csize exception_context_t = 60"
proof -
  have t: "unat THREADS_PER_PROC = 2" by (simp add: kernel_const)
  have c: "offset_of cpu_context_t ''sp_svc'' = Some 52" "offset_of cpu_context_t ''lr_svc'' = Some 56" "offset_of cpu_context_t ''spsr'' = Some 60"
    "offset_of cpu_context_t ''sp_usr'' = Some 64" "offset_of cpu_context_t ''lr_usr'' = Some 68"
    "offset_of thread_t ''ctx'' = Some 0" "offset_of thread_t ''proc'' = Some 72" "csize thread_t = 100"
    by (simp_all add: thread_t_def cpu_context_t_def align_up_def)
  have p: "offset_of process_t ''pgd_pa'' = Some 12" "csize process_t = 36"
    by (simp_all add: process_t_def t align_up_def)
  have e: "offset_of exception_context_t ''spsr'' = Some 0" "offset_of exception_context_t ''r'' = Some 4"
    "offset_of exception_context_t ''lr'' = Some 56" "csize exception_context_t = 60"
    by (simp_all add: exception_context_t_def align_up_def)
  show ?thesis unfolding c p e by (simp add: offset_defs tcb_def pcb_def)
qed

end
