(* ===== verification/Linker.thy ===== *)
theory Linker
  imports Start Struct_Layout
begin

text \<open>
  The linker scripts \<open>kernel/linker/kernel_qemu.ld\<close>, \<open>kernel/linker/kernel_bbb.ld\<close> and \<open>user/linker/user.ld\<close>, and the embedded images of
  \<open>kernel/arch/arm/proc/user_binaries.S\<close>.

  The rest of the development takes the addresses of symbols as an argument (\<open>link_map\<close>, \<open>start_syms\<close>) with their layout as a hypothesis
  (\<open>link_ok\<close>, \<open>start_ok\<close>). Here they are computed from the input sections, each given by its alignment and its size, as the scripts say:
  an output section starts at the alignment of its most aligned input; an input starts at the next multiple of its own; \<open>> VIRT\<close>
  gives the link address and \<open>AT> PHYS\<close> the next free load address, which the alignment of a section does not move. The scripts of the two boards
  differ in their memory regions only.
\<close>

section \<open>Model\<close>

type_synonym input_section = "nat \<times> nat"

record kernel_objs =
  in_text_start :: nat
  in_text :: "input_section list"
  in_rodata :: "input_section list"
  in_images :: "nat list"
  in_data :: "input_section list"
  in_bss :: "input_section list"
  in_common :: "input_section list"
  off_start_va :: nat
  off_kmain :: nat
  off_ret_from_first_entry :: nat
  off_thread_kstack :: nat

record kernel_elf =
  elf_map :: link_map
  elf_syms :: start_syms
  elf_entry :: nat
  elf_images :: "nat list"
  elf_loads :: "(nat \<times> nat) list"
  elf_end :: nat

text \<open>The inputs of an output section, one after the other from \<open>dot\<close> on: where they end, and where each of them starts.\<close>

fun place :: "nat \<Rightarrow> input_section list \<Rightarrow> nat" where
  "place dot [] = dot"
| "place dot ((al, sz) # is) = place (align_up dot al + sz) is"

fun input_starts :: "nat \<Rightarrow> input_section list \<Rightarrow> nat list" where
  "input_starts dot [] = []"
| "input_starts dot ((al, sz) # is) = align_up dot al # input_starts (align_up dot al + sz) is"

definition out_align :: "input_section list \<Rightarrow> nat" where
  "out_align is = foldr max (map fst is) 1"

text \<open>\<open>MEMORY\<close>.\<close>

primrec virt_origin :: "platform \<Rightarrow> nat" where
  "virt_origin Qemu = 0xC0100000"
| "virt_origin Bbb = 0xC0000000"

primrec phys_origin :: "platform \<Rightarrow> nat" where
  "phys_origin Qemu = 0x70100000"
| "phys_origin Bbb = 0x80000000"

primrec region_length :: "platform \<Rightarrow> nat" where
  "region_length Qemu = 127 * 0x100000"
| "region_length Bbb = 512 * 0x100000"

text \<open>The sections whose size the sources fix: the vector table, and the two arrays of translation tables.\<close>

definition vectors_in :: input_section where
  "vectors_in = (32, 60)"

definition boot_pgd_in :: input_section where
  "boot_pgd_in = (unat PGD_ALIGN, 4 * unat PGD_ENTRIES)"

definition proc_pgd_in :: input_section where
  "proc_pgd_in = (unat PGD_ALIGN, unat NUM_PROCESSES * (4 * unat PGD_ENTRIES))"

definition user_binaries :: "kernel_objs \<Rightarrow> input_section list" where
  "user_binaries k = map (\<lambda>n. (16, n)) (in_images k)"

text \<open>The output sections, each from the address \<open>dot\<close> at which the one before it ends.\<close>

definition text_section :: "kernel_objs \<Rightarrow> nat \<Rightarrow> nat \<times> nat \<times> nat \<times> nat" where
  "text_section k dot =
     (let start_in = (16, in_text_start k);
          code = in_text k @ in_rodata k;
          text_start = align_up dot (out_align (start_in # vectors_in # code));
          vectors = align_up (align_up (place text_start [start_in]) 32) 32;
          code_start = place vectors [vectors_in];
          text_end = align_up (place code_start code) 16
      in (text_start, vectors, code_start, text_end))"

definition user_section :: "kernel_objs \<Rightarrow> nat \<Rightarrow> nat \<times> nat" where
  "user_section k dot =
     (let user0 = align_up dot (out_align (user_binaries k))
      in (user0, align_up (place (align_up user0 4) (user_binaries k)) 4))"

definition data_section :: "kernel_objs \<Rightarrow> nat \<Rightarrow> nat \<times> nat \<times> nat" where
  "data_section k dot =
     (let data0 = align_up dot (out_align (in_data k));
          data_start = align_up data0 4
      in (data0, data_start, align_up (place data_start (in_data k)) 4))"

definition bss_section :: "kernel_objs \<Rightarrow> nat \<Rightarrow> nat \<times> nat \<times> nat \<times> nat \<times> nat" where
  "bss_section k dot =
     (let rest = in_bss k @ in_common k;
          bss0 = align_up dot (out_align (boot_pgd_in # proc_pgd_in # rest));
          bss_start = align_up bss0 8;
          pgd = align_up bss_start 16384;
          proc_pgd = align_up (place pgd [boot_pgd_in]) 16384;
          rest_start = place proc_pgd [proc_pgd_in];
          bss_end = align_up (place rest_start rest) 8
      in (bss_start, pgd, proc_pgd, rest_start, bss_end))"

text \<open>The load address of \<open>.text\<close> is the origin of \<open>PHYS\<close>; the next ones follow without gap. \<open>None\<close>: a region is too small.\<close>

definition kernel_link :: "platform \<Rightarrow> kernel_objs \<Rightarrow> kernel_elf option" where
  "kernel_link p k =
     (let (text_start, vectors, code_start, text_end) = text_section k (virt_origin p);
          text_lma = phys_origin p;
          (user0, user1) = user_section k text_end;
          user_lma = text_lma + (text_end - text_start);
          (data0, data_start, data_end) = data_section k user1;
          data_lma = user_lma + (user1 - user0);
          (bss_start, pgd, proc_pgd, rest_start, bss_end) = bss_section k data_end;
          fiq = align_up bss_end 8 + 0x200;
          irq = fiq + 0x400;
          abt = irq + 0x400;
          und = abt + 0x400;
          svc = und + 0x2000
      in if svc \<le> virt_origin p + region_length p \<and> data_lma + (data_end - data0) \<le> phys_origin p + region_length p
         then Some \<lparr>
           elf_map = \<lparr>lk_boot_pgd = of_nat pgd, lk_proc_pgd = of_nat proc_pgd,
             lk_thread_kstack = of_nat (rest_start + off_thread_kstack k),
             lk_ret_from_first_entry = of_nat (code_start + off_ret_from_first_entry k), lk_vectors_start = of_nat vectors,
             lk_kmain = of_nat (code_start + off_kmain k), lk_text = (of_nat text_start, of_nat text_end),
             lk_data = (of_nat data_start, of_nat data_end), lk_bss = (of_nat bss_start, of_nat bss_end),
             lk_svc_stack_top = of_nat svc\<rparr>,
           elf_syms = \<lparr>sy_start = of_nat (align_up text_start 16), sy_start_va = of_nat (align_up text_start 16 + off_start_va k),
             sy_fiq_stack_top = of_nat fiq, sy_irq_stack_top = of_nat irq, sy_abt_stack_top = of_nat abt,
             sy_und_stack_top = of_nat und\<rparr>,
           elf_entry = text_lma,
           elf_images = input_starts (align_up user0 4) (user_binaries k),
           elf_loads = [(text_start, text_lma), (user0, user_lma), (data0, data_lma)],
           elf_end = svc\<rparr>
         else None)"

text \<open>The user script: the image that \<open>objcopy\<close> makes of the program, up to the end of \<open>.data\<close>, and where \<open>.bss\<close> lies.\<close>

record user_objs =
  uin_ustart :: nat
  uin_text :: "input_section list"
  uin_data :: "input_section list"
  uin_bss :: "input_section list"

record user_elf =
  uelf_ustart :: nat
  uelf_length :: nat
  uelf_bss :: "nat \<times> nat"

definition user_link :: "user_objs \<Rightarrow> user_elf option" where
  "user_link u =
     (let text = (4, uin_ustart u) # uin_text u;
          text0 = align_up 0x40000000 (out_align text);
          text1 = place text0 text;
          data0 = align_up text1 (out_align (uin_data u));
          data1 = place data0 (uin_data u);
          bss0 = align_up data1 (out_align (uin_bss u));
          bss1 = place bss0 (uin_bss u)
      in if bss1 \<le> 0x40000000 + 0x100000
         then Some \<lparr>uelf_ustart = align_up text0 4, uelf_length = data1 - 0x40000000, uelf_bss = (bss0, bss1)\<rparr>
         else None)"

text \<open>What the compiler and the assembler produce: alignments are powers of two, at most that of a translation table; initialised data
  consists of words.\<close>

definition aligned_to :: "nat \<Rightarrow> input_section list \<Rightarrow> bool" where
  "aligned_to n is \<longleftrightarrow> (\<forall>x \<in> set is. \<exists>e \<le> n. fst x = 2 ^ e)"

definition objs_ok :: "kernel_objs \<Rightarrow> bool" where
  "objs_ok k \<longleftrightarrow> aligned_to 14 (in_text k @ in_rodata k @ in_bss k @ in_common k) \<and> aligned_to 2 (in_data k)"

definition user_objs_ok :: "user_objs \<Rightarrow> bool" where
  "user_objs_ok u \<longleftrightarrow> aligned_to 14 (uin_text u @ uin_data u @ uin_bss u)"

section \<open>Alignment\<close>

lemma align_up_ge: "0 < a \<Longrightarrow> n \<le> align_up n a"
proof -
  assume "0 < a"
  then have "n + a - 1 < (n + a - 1) div a * a + a" using dividend_less_div_times [of a "n + a - 1"] by simp
  then show ?thesis using \<open>0 < a\<close> unfolding align_up_def by linarith
qed

lemma align_up_dvd [simp]: "a dvd align_up n a"
  by (simp add: align_up_def)

lemma align_up_fixed: "a dvd n \<Longrightarrow> 0 < a \<Longrightarrow> align_up n a = n"
proof -
  assume "a dvd n" "0 < a"
  then obtain q where "n = a * q" by blast
  moreover have "(a * q + (a - 1)) div a = q" using \<open>0 < a\<close> div_mult_self2 [of a "a - 1" q] by (simp add: add.commute)
  moreover have "a * q + a - 1 = a * q + (a - 1)" using \<open>0 < a\<close> by (simp add: Suc_le_eq)
  ultimately show ?thesis by (simp add: align_up_def)
qed

lemma align_up_dvd_fixed: "a dvd b \<Longrightarrow> b dvd n \<Longrightarrow> 0 < b \<Longrightarrow> align_up n a = n"
  using dvd_pos_nat [of b a] by (intro align_up_fixed) (auto intro: dvd_trans)

lemma aligned_to_simps [simp]:
  "aligned_to n []" "aligned_to n (x # is) \<longleftrightarrow> (\<exists>e \<le> n. fst x = 2 ^ e) \<and> aligned_to n is"
  "aligned_to n (is @ js) \<longleftrightarrow> aligned_to n is \<and> aligned_to n js"
  by (auto simp: aligned_to_def)

lemma aligned_pos: "aligned_to n is \<Longrightarrow> x \<in> set is \<Longrightarrow> 0 < fst x"
  by (auto simp: aligned_to_def)

lemma place_ge: "aligned_to n is \<Longrightarrow> dot \<le> place dot is"
proof (induction dot "is" rule: place.induct)
  case (2 dot al sz "is")
  then have "align_up dot al + sz \<le> place (align_up dot al + sz) is" by simp
  moreover have "dot \<le> align_up dot al" using 2(2) by (intro align_up_ge) auto
  ultimately show ?case by simp
qed simp

text \<open>The alignment of an output section is a power of two again, and a multiple of that of each input.\<close>

lemma out_align_pow2: "aligned_to n is \<Longrightarrow> \<exists>e \<le> n. out_align is = 2 ^ e"
proof (induction "is")
  case (Cons y ys)
  then obtain e f where "e \<le> n" "f \<le> n" "fst y = 2 ^ e" "out_align ys = 2 ^ f" by auto
  then show ?case by (intro exI [of _ "max e f"]) (auto simp: out_align_def max_def)
qed (auto simp: out_align_def intro: exI [of _ 0])

lemma out_align_dvd: "aligned_to n is \<Longrightarrow> x \<in> set is \<Longrightarrow> fst x dvd out_align is"
proof (induction "is")
  case (Cons y ys)
  then obtain e f where e: "fst y = 2 ^ e" "out_align ys = 2 ^ f" using out_align_pow2 [of n ys] by auto
  have "out_align (y # ys) = 2 ^ max e f" using e by (simp add: out_align_def max_def)
  moreover have "fst x dvd 2 ^ e \<or> fst x dvd 2 ^ f" using Cons e by auto
  moreover have "(2::nat) ^ e dvd 2 ^ max e f" "(2::nat) ^ f dvd 2 ^ max e f" by (simp_all add: le_imp_power_dvd)
  ultimately show ?case using dvd_trans by metis
qed simp

lemma out_align_le: "aligned_to n is \<Longrightarrow> out_align is dvd 2 ^ n"
  using out_align_pow2 [of n "is"] by (auto intro: le_imp_power_dvd)

section \<open>The output sections\<close>

lemma fixed_16384: "a dvd 16384 \<Longrightarrow> 16384 dvd n \<Longrightarrow> align_up n a = n"
  using align_up_dvd_fixed [of a 16384 n] by simp

lemma text_section_spec:
  assumes "objs_ok k" "16384 dvd dot"
  shows "\<exists>v c t. text_section k dot = (dot, v, c, t) \<and> 32 dvd v \<and> 16 dvd t \<and> dot + in_text_start k \<le> v \<and> v + 60 \<le> c \<and> c \<le> t"
proof -
  let ?code = "in_text k @ in_rodata k"
  have al: "aligned_to 14 ((16, in_text_start k) # vectors_in # ?code)"
    using assms(1) by (auto simp: objs_ok_def vectors_in_def intro: exI [of _ 4] exI [of _ 5])
  then have "out_align ((16, in_text_start k) # vectors_in # ?code) dvd 16384" using out_align_le [OF al] by simp
  then have t: "align_up dot (out_align ((16, in_text_start k) # vectors_in # ?code)) = dot" using assms(2) by (rule fixed_16384)
  have s: "align_up dot 16 = dot" using assms(2) by (intro fixed_16384) simp_all
  define v where "v = align_up (align_up (dot + in_text_start k) 32) 32"
  have v: "32 dvd v" "dot + in_text_start k \<le> v"
    using align_up_ge [of 32 "dot + in_text_start k"] by (simp_all add: v_def align_up_fixed)
  define c where "c = place v [vectors_in]"
  have c: "c = v + 60" using v(1) by (simp add: c_def vectors_in_def align_up_fixed)
  have "c \<le> place c ?code" using al by (intro place_ge [of 14]) simp
  also have "\<dots> \<le> align_up (place c ?code) 16" by (rule align_up_ge) simp
  finally show ?thesis using v c by (simp add: text_section_def Let_def t s v_def [symmetric] c_def [symmetric])
qed

lemma inputs_inside:
  "j < length ns \<Longrightarrow> dot \<le> input_starts dot (map (\<lambda>n. (16, n)) ns) ! j \<and>
     input_starts dot (map (\<lambda>n. (16, n)) ns) ! j + ns ! j \<le> place dot (map (\<lambda>n. (16, n)) ns)"
proof (induction ns arbitrary: dot j)
  case (Cons n ns)
  have "aligned_to 4 (map (\<lambda>n. (16, n)) ns)" by (auto simp: aligned_to_def intro: exI [of _ 4])
  then have "align_up dot 16 + n \<le> place (align_up dot 16 + n) (map (\<lambda>n. (16, n)) ns)" by (rule place_ge)
  moreover have "dot \<le> align_up dot 16" by (rule align_up_ge) simp
  moreover note Cons.IH [of "j - 1" "align_up dot 16 + n"] Cons.prems
  ultimately show ?case by (cases j) auto
qed simp

lemma user_section_spec:
  assumes "16 dvd dot"
  shows "\<exists>u. user_section k dot = (dot, u) \<and> 4 dvd u \<and> dot \<le> u \<and> place dot (user_binaries k) \<le> u"
proof -
  have "out_align (map (\<lambda>n. (16, n)) ns) = 1 \<or> out_align (map (\<lambda>n. (16, n)) ns) = 16" for ns
    by (induction ns) (auto simp: out_align_def)
  then have "out_align (user_binaries k) = 1 \<or> out_align (user_binaries k) = 16" by (simp add: user_binaries_def)
  then have "align_up dot (out_align (user_binaries k)) = dot" using assms by (auto intro: align_up_fixed)
  moreover have al: "aligned_to 4 (user_binaries k)" by (auto simp: user_binaries_def aligned_to_def intro: exI [of _ 4])
  moreover have "align_up dot 4 = dot" using assms by (intro align_up_fixed) (auto intro: dvd_trans [of 4 16])
  ultimately show ?thesis
    using place_ge [OF al, of dot] align_up_ge [of 4 "place dot (user_binaries k)"] by (simp add: user_section_def Let_def)
qed

lemma data_section_spec:
  assumes "objs_ok k" "4 dvd dot"
  shows "\<exists>d. data_section k dot = (dot, dot, d) \<and> 4 dvd d \<and> dot \<le> d"
proof -
  have al: "aligned_to 2 (in_data k)" using assms(1) by (simp add: objs_ok_def)
  have "out_align (in_data k) dvd 4" using out_align_le [OF al] by simp
  then have "align_up dot (out_align (in_data k)) = dot" using assms(2) by (rule align_up_dvd_fixed) simp
  then show ?thesis
    using place_ge [OF al, of dot] align_up_ge [of 4 "place dot (in_data k)"] assms(2)
    by (simp add: data_section_def Let_def align_up_fixed)
qed

lemma pgd_inputs: "boot_pgd_in = (16384, 16384)" "proc_pgd_in = (16384, 49152)"
  by (simp_all add: boot_pgd_in_def proc_pgd_in_def kernel_const PGD_ALIGN_def PGD_ENTRIES_def)

lemma bss_section_spec:
  assumes "objs_ok k"
  shows "\<exists>g e. bss_section k dot = (g, g, g + 16384, g + 65536, e) \<and> 16384 dvd g \<and> 8 dvd e \<and> g + 65536 \<le> e \<and> dot \<le> g"
proof -
  let ?rest = "in_bss k @ in_common k" and ?all = "boot_pgd_in # proc_pgd_in # in_bss k @ in_common k"
  have al: "aligned_to 14 ?all" using assms by (auto simp: objs_ok_def pgd_inputs intro: exI [of _ 14])
  then have "out_align ?all dvd 16384" using out_align_le [OF al] by simp
  moreover have "16384 dvd out_align ?all" using out_align_dvd [OF al, of boot_pgd_in] by (simp add: pgd_inputs)
  ultimately have o: "out_align ?all = 16384" by (rule dvd_antisym)
  note o = o [unfolded pgd_inputs]
  define g where "g = align_up dot 16384"
  have g: "16384 dvd g" "dot \<le> g" by (simp_all add: g_def align_up_ge)
  have f: "align_up g 8 = g" "align_up g 16384 = g" "align_up (g + 16384) 16384 = g + 16384"
    using g(1) by (simp_all add: fixed_16384)
  have "g + 65536 \<le> place (g + 65536) ?rest" using al by (intro place_ge [of 14]) simp
  also have "\<dots> \<le> align_up (place (g + 65536) ?rest) 8" by (rule align_up_ge) simp
  finally show ?thesis using g by (simp add: bss_section_def Let_def pgd_inputs o g_def [symmetric] f add.assoc)
qed

section \<open>The linked kernel\<close>

lemma origins: "16384 dvd virt_origin p" "virt_origin p - unat (PHYS_OFFSET (board_of p)) = phys_origin p"
  "0xC0000000 \<le> virt_origin p" "virt_origin p \<le> 0xC0100000" "unat (PHYS_OFFSET (board_of p)) \<le> 0x50000000"
  by (cases p; simp add: board_defs)+

text \<open>All addresses of a linked kernel, in their order.\<close>

lemma kernel_link_layout:
  assumes "kernel_link p k = Some e" "objs_ok k"
  obtains v t u d g b where
    "lk_vectors_start (elf_map e) = of_nat v" "32 dvd v" "virt_origin p \<le> v" "v + 60 \<le> t"
    "t \<le> u" "place t (user_binaries k) \<le> u" "u \<le> d" "d \<le> g"
    "elf_loads e = [(virt_origin p, phys_origin p), (t, phys_origin p + (t - virt_origin p)),
       (u, phys_origin p + (t - virt_origin p) + (u - t))]"
    "lk_boot_pgd (elf_map e) = of_nat g" "lk_proc_pgd (elf_map e) = of_nat (g + 16384)" "16384 dvd g"
    "lk_bss (elf_map e) = (of_nat g, of_nat b)" "g + 65536 \<le> b" "8 dvd b"
    "lk_svc_stack_top (elf_map e) = of_nat (b + 0x2E00)" "elf_end e = b + 0x2E00"
    "sy_start (elf_syms e) = of_nat (virt_origin p)" "elf_entry e = phys_origin p"
    "elf_images e = input_starts t (user_binaries k)" "lk_text (elf_map e) = (of_nat (virt_origin p), of_nat t)"
proof -
  obtain v c t where tx: "text_section k (virt_origin p) = (virt_origin p, v, c, t)" "32 dvd v" "16 dvd t"
      "virt_origin p + in_text_start k \<le> v" "v + 60 \<le> c" "c \<le> t"
    using text_section_spec [OF assms(2) origins(1)] by metis
  obtain u where user: "user_section k t = (t, u)" "4 dvd u" "t \<le> u" "place t (user_binaries k) \<le> u"
    using user_section_spec [OF tx(3)] by metis
  obtain d where data: "data_section k u = (u, u, d)" "4 dvd d" "u \<le> d"
    using data_section_spec [OF assms(2) user(2)] by metis
  obtain g b where bss: "bss_section k d = (g, g, g + 16384, g + 65536, b)" "16384 dvd g" "8 dvd b" "g + 65536 \<le> b" "d \<le> g"
    using bss_section_spec [OF assms(2)] by metis
  have al: "align_up b 8 = b" "align_up (virt_origin p) 16 = virt_origin p" "align_up t 4 = t"
    using bss(3) origins(1) [of p] tx(3) by (auto intro: align_up_fixed fixed_16384 align_up_dvd_fixed [of _ 16])
  show ?thesis
    by (rule that [of v t u d g b])
      (use assms(1) tx(2,4,5,6) user(3,4) data(3) bss(2-5) in
        \<open>auto simp: kernel_link_def Let_def tx(1) user(1) data(1) bss(1) al split: if_splits\<close>)
qed

lemma link_addr:
  assumes "0xC0000000 \<le> a" "a \<le> 0xC0200000"
  shows "unat (of_nat a :: u32) = a" "unat (of_nat a - PHYS_OFFSET (board_of p)) = a - unat (PHYS_OFFSET (board_of p))"
proof -
  show u: "unat (of_nat a :: u32) = a" using assms by (intro unat_u32_of_nat) simp
  have "PHYS_OFFSET (board_of p) \<le> of_nat a" using assms(1) origins(5) [of p] by (simp add: word_le_nat_alt u)
  then show "unat (of_nat a - PHYS_OFFSET (board_of p)) = a - unat (PHYS_OFFSET (board_of p))" by (simp add: unat_sub u)
qed

lemma below_slots:
  assumes "0xC0000000 \<le> a" "a < 0xC0200000" "i < 3"
  shows "of_nat a - PHYS_OFFSET (board_of p) \<notin> interval (user_slot (board_of p) i) 0x100000"
proof -
  have "0x200000 + unat (RAM_BASE (board_of p)) \<le> unat (user_slot (board_of p) i)"
    using less_3_cases [OF assms(3)] by (cases p) (auto simp: user_slot_def board_defs kernel_const)
  moreover have "unat (PHYS_OFFSET (board_of p)) = 0xC0000000 - unat (RAM_BASE (board_of p))" by (cases p; simp add: board_defs)
  moreover have "unat (RAM_BASE (board_of p)) \<le> 0xC0000000" by (cases p; simp add: board_defs)
  ultimately show ?thesis using link_addr(2) [of a p] assms(1,2) unfolding interval_def by auto
qed

lemma aligned_word: "2 ^ n dvd a \<Longrightarrow> take_bit n (of_nat a :: u32) = 0"
  by (auto elim!: dvdE simp: take_bit_eq_0_iff)

lemma adjacent_tables:
  assumes "lk_boot_pgd lk = of_nat g" "lk_proc_pgd lk = of_nat (g + 16384)" "16384 dvd g" "kernel_placed lk"
  shows "link_ok lk"
proof -
  have "take_bit 14 (of_nat g :: u32) = 0" "take_bit 14 (of_nat (g + 16384) :: u32) = 0"
    by (rule aligned_word, use assms(3) in simp)+
  moreover have "(of_nat g :: u32) \<noteq> of_nat g + 16384 + of_nat i * 16384" if "i < 3" for i
    using less_3_cases [OF that] by (elim disjE) (simp_all add: add.assoc)
  ultimately show ?thesis unfolding link_ok_def and_3FFF assms(1,2) using assms(4) by (simp add: add.assoc)
qed

lemma sections_placed:
  assumes "lk_text lk = (of_nat v, t)" "lk_bss lk = (of_nat g, of_nat b)" "lk_svc_stack_top lk = of_nat c"
    and "lk_boot_pgd lk = of_nat g" "lk_proc_pgd lk = of_nat (g + 16384)"
    and o: "0xC0000000 \<le> v" "v \<le> g" "g + 65536 \<le> b" "b \<le> c" "c \<le> 0xC0200000"
  shows "kernel_placed lk"
proof -
  have "unat (of_nat v :: u32) = v" "unat (of_nat g :: u32) = g" "unat (of_nat (g + 16384) :: u32) = g + 16384"
    "unat (of_nat b :: u32) = b" "unat (of_nat c :: u32) = c"
    by (rule link_addr(1); use o in linarith)+
  then show ?thesis using o unfolding kernel_placed_def assms(1-5) fst_conv snd_conv word_le_nat_alt by simp
qed

section \<open>Properties\<close>

text \<open>C14: the linker scripts of both boards place the kernel where the rest of the code takes it to be. If the image, with its zeroed data and its
  stacks, ends below the slots of the processes, then: the translation tables are aligned, distinct and inside the kernel's zeroed data; \<open>start.S\<close> finds the load address, the BSS and the stack it
  relies on; the vector table has the alignment VBAR needs; every section is loaded \<open>PHYS_OFFSET\<close> below the address it is linked at, without
  drift; and no byte of the kernel, the embedded programs included, lies in the slot of a process, so \<open>process_init_all\<close> cannot overwrite the kernel.\<close>

theorem kernel_image_placed:
  assumes "kernel_link p k = Some e" "objs_ok k" "elf_end e \<le> 0xC0200000"
  shows "link_ok (elf_map e) \<and> start_ok p (elf_map e) (elf_syms e) (of_nat (elf_entry e)) \<and>
    lk_vectors_start (elf_map e) AND 31 = 0 \<and>
    (\<forall>(vma, lma) \<in> set (elf_loads e). lma = vma - unat (PHYS_OFFSET (board_of p))) \<and>
    (\<forall>j < length (in_images k). virt_origin p \<le> elf_images e ! j \<and> elf_images e ! j + in_images k ! j \<le> elf_end e) \<and>
    (\<forall>a i. virt_origin p \<le> a \<and> a < elf_end e \<and> i < 3 \<longrightarrow>
       of_nat a - PHYS_OFFSET (board_of p) \<notin> interval (user_slot (board_of p) i) 0x100000)"
proof -
  obtain v t u d g b where v: "lk_vectors_start (elf_map e) = of_nat v" "32 dvd v" "virt_origin p \<le> v" "v + 60 \<le> t"
    and o: "t \<le> u" "place t (user_binaries k) \<le> u" "u \<le> d" "d \<le> g"
    and l: "elf_loads e = [(virt_origin p, phys_origin p), (t, phys_origin p + (t - virt_origin p)),
       (u, phys_origin p + (t - virt_origin p) + (u - t))]"
    and g: "lk_boot_pgd (elf_map e) = of_nat g" "lk_proc_pgd (elf_map e) = of_nat (g + 16384)" "16384 dvd g"
    and b: "lk_bss (elf_map e) = (of_nat g, of_nat b)" "g + 65536 \<le> b" "8 dvd b"
    and s: "lk_svc_stack_top (elf_map e) = of_nat (b + 0x2E00)" "elf_end e = b + 0x2E00"
       "sy_start (elf_syms e) = of_nat (virt_origin p)" "elf_entry e = phys_origin p" "elf_images e = input_starts t (user_binaries k)"
       "lk_text (elf_map e) = (of_nat (virt_origin p), of_nat t)"
    by (rule kernel_link_layout [OF assms(1,2)])
  note og = origins [of p]
  have r: "0xC0000000 \<le> g" "b \<le> 0xC01FD200" using og(3) v o s(2) assms(3) by linarith+
  have n: "unat (of_nat g :: u32) = g" "unat (of_nat b :: u32) = b" "unat (of_nat (b + 0x2E00) :: u32) = b + 0x2E00"
      "unat (of_nat (virt_origin p) :: u32) = virt_origin p"
    by (rule link_addr(1), use r b(2) og(3,4) in linarith, use r b(2) og(3,4) in linarith)+
  have "link_ok (elf_map e)" 
    by (rule adjacent_tables [OF g], rule sections_placed [OF s(6) b(1) s(1) g(1,2)]) (use og(3) v o b(2) s(2) assms(3) in linarith)+
  moreover have "start_ok p (elf_map e) (elf_syms e) (of_nat (elf_entry e))"
  proof -
    have "of_nat (phys_origin p) = (of_nat (virt_origin p) :: u32) - PHYS_OFFSET (board_of p)" by (cases p; simp add: board_defs)
    moreover have "4 dvd g" "4 dvd b" using g(3) b(3) by (auto intro: dvd_trans [of 4 16384] dvd_trans [of 4 8])
    ultimately show ?thesis unfolding start_ok_def s b(1) g fst_conv snd_conv n using r b(2) og(3,4) by simp
  qed
  moreover have "lk_vectors_start (elf_map e) AND 31 = 0"
    using aligned_word [of 5 v] v(1,2) by (simp add: take_bit_eq_mask mask_eq_exp_minus_1)
  moreover have "\<forall>(vma, lma) \<in> set (elf_loads e). lma = vma - unat (PHYS_OFFSET (board_of p))"
  proof -
    have "phys_origin p + unat (PHYS_OFFSET (board_of p)) = virt_origin p" by (cases p; simp add: board_defs)
    moreover have "virt_origin p \<le> t" using v(3,4) by linarith
    ultimately show ?thesis using o(1) unfolding l by simp linarith
  qed
  moreover have "\<forall>j < length (in_images k). virt_origin p \<le> elf_images e ! j \<and> elf_images e ! j + in_images k ! j \<le> elf_end e"
  proof (intro allI impI)
    fix j assume "j < length (in_images k)"
    from inputs_inside [OF this, of t] show "virt_origin p \<le> elf_images e ! j \<and> elf_images e ! j + in_images k ! j \<le> elf_end e"
      using v(3,4) o b(2) unfolding s(2,5) user_binaries_def by linarith
  qed
  moreover have "of_nat a - PHYS_OFFSET (board_of p) \<notin> interval (user_slot (board_of p) i) 0x100000"
    if "virt_origin p \<le> a" "a < elf_end e" "i < 3" for a i
    using below_slots [of a i p] that og(3) assms(3) by linarith
  ultimately show ?thesis by blast
qed

text \<open>A kernel with three programs of 16 KB.\<close>

definition sample_objs :: kernel_objs where
  "sample_objs = \<lparr>in_text_start = 0xB0, in_text = [(4, 0x3000), (4, 0x1A24)], in_rodata = [(4, 0x7F3)],
     in_images = [0x4000, 0x3F01, 0x4000], in_data = [(4, 0x30)], in_bss = [(8, 0xC000), (4, 0x400)], in_common = [],
     off_start_va = 0x4C, off_kmain = 0x100, off_ret_from_first_entry = 0x800, off_thread_kstack = 0\<rparr>"

lemma sample_sections:
  "text_section sample_objs 0xC0100000 = (0xC0100000, 0xC01000C0, 0xC01000FC, 0xC0105320)"
  "user_section sample_objs 0xC0105320 = (0xC0105320, 0xC0111230)"
  "data_section sample_objs 0xC0111230 = (0xC0111230, 0xC0111230, 0xC0111260)"
  "bss_section sample_objs 0xC0111260 = (0xC0114000, 0xC0114000, 0xC0118000, 0xC0124000, 0xC0130400)"
  by (simp_all add: sample_objs_def text_section_def user_section_def data_section_def bss_section_def user_binaries_def
      vectors_in_def pgd_inputs out_align_def align_up_def Let_def)

theorem kernel_image_placed_witness:
  "\<exists>e. kernel_link Qemu sample_objs = Some e \<and> link_ok (elf_map e) \<and>
     start_ok Qemu (elf_map e) (elf_syms e) 0x70100000 \<and> lk_boot_pgd (elf_map e) = 0xC0114000"
proof -
  have "map_option (\<lambda>e. (elf_end e, elf_entry e, lk_boot_pgd (elf_map e))) (kernel_link Qemu sample_objs) =
      Some (0xC0133200, 0x70100000, 0xC0114000)"
    by (simp add: kernel_link_def sample_sections align_up_def)
  then obtain e where e: "kernel_link Qemu sample_objs = Some e" "elf_end e = 0xC0133200" "elf_entry e = 0x70100000"
    "lk_boot_pgd (elf_map e) = 0xC0114000" by blast
  have "objs_ok sample_objs" by (auto simp: objs_ok_def sample_objs_def intro: exI [of _ 2] exI [of _ 3])
  from kernel_image_placed [OF e(1) this] e show ?thesis by auto
qed

text \<open>The scripts do not check the hypothesis about the end of the kernel: with programs of 384 KB, each of which fits its slot, the kernel still links for
  QEMU, and its zeroed data, the boot table first, lies in the slot of process 0: \<open>link_ok\<close> fails for it.\<close>

definition large_objs :: kernel_objs where
  "large_objs = sample_objs\<lparr>in_images := [0x60000, 0x60000, 0x60000]\<rparr>"

lemma large_sections:
  "text_section large_objs 0xC0100000 = (0xC0100000, 0xC01000C0, 0xC01000FC, 0xC0105320)"
  "user_section large_objs 0xC0105320 = (0xC0105320, 0xC0225320)"
  "data_section large_objs 0xC0225320 = (0xC0225320, 0xC0225320, 0xC0225350)"
  "bss_section large_objs 0xC0225350 = (0xC0228000, 0xC0228000, 0xC022C000, 0xC0238000, 0xC0244400)"
  by (simp_all add: large_objs_def sample_objs_def text_section_def user_section_def data_section_def bss_section_def user_binaries_def
      vectors_in_def pgd_inputs out_align_def align_up_def Let_def)

lemma large_programs_displace_kernel:
  "\<exists>e. kernel_link Qemu large_objs = Some e \<and> \<not> link_ok (elf_map e) \<and>
     lk_boot_pgd (elf_map e) - PHYS_OFFSET qemu_board \<in> interval (user_slot qemu_board 0) 0x100000"
proof -
  have "map_option (\<lambda>e. (lk_boot_pgd (elf_map e), lk_svc_stack_top (elf_map e))) (kernel_link Qemu large_objs) = Some (0xC0228000, 0xC0247200)"
    by (simp add: kernel_link_def large_sections align_up_def)
  then obtain e where "kernel_link Qemu large_objs = Some e" "lk_boot_pgd (elf_map e) = 0xC0228000"
    "lk_svc_stack_top (elf_map e) = 0xC0247200" by blast
  then show ?thesis by (simp add: interval_def user_slot_def board_defs link_ok_def kernel_placed_def)
qed

section \<open>User programs\<close>

text \<open>A program that links starts with \<open>_ustart\<close> at the address the kernel enters it, its image fits a slot, and its \<open>.bss\<close> lies behind the image within the
  window.\<close>

lemma user_link_layout:
  assumes "user_link u = Some e" "user_objs_ok u"
  shows "uelf_ustart e = 0x40000000" "uelf_length e \<le> 0x100000" "0x40000000 + uelf_length e \<le> fst (uelf_bss e)"
    "fst (uelf_bss e) \<le> snd (uelf_bss e)" "snd (uelf_bss e) \<le> 0x40100000"
proof -
  let ?text = "(4, uin_ustart u) # uin_text u"
  have al: "aligned_to 14 ?text" "aligned_to 14 (uin_data u)" "aligned_to 14 (uin_bss u)"
    using assms(2) by (auto simp: user_objs_ok_def intro: exI [of _ 2])
  have pos: "0 < out_align is" if "aligned_to 14 is" for "is" using out_align_pow2 [OF that] by auto
  have o: "align_up 0x40000000 (out_align ?text) = 0x40000000" "align_up 0x40000000 4 = 0x40000000"
    using out_align_le [OF al(1)] by (auto intro: fixed_16384)
  define t1 where "t1 = place 0x40000000 ?text"
  define d0 where "d0 = align_up t1 (out_align (uin_data u))"
  define d1 where "d1 = place d0 (uin_data u)"
  define b0 where "b0 = align_up d1 (out_align (uin_bss u))"
  define b1 where "b1 = place b0 (uin_bss u)"
  have "0x40000000 \<le> t1" "t1 \<le> d0" "d0 \<le> d1" "d1 \<le> b0" "b0 \<le> b1"
    unfolding t1_def d0_def d1_def b0_def b1_def by (rule place_ge [OF al(1)], rule align_up_ge [OF pos [OF al(2)]], rule place_ge [OF al(2)],
        rule align_up_ge [OF pos [OF al(3)]], rule place_ge [OF al(3)])
  moreover have "b1 \<le> 0x40100000" "e = \<lparr>uelf_ustart = 0x40000000, uelf_length = d1 - 0x40000000, uelf_bss = (b0, b1)\<rparr>"
    using assms(1) unfolding user_link_def Let_def o b1_def b0_def d1_def d0_def t1_def by (simp_all split: if_splits)
  ultimately show "uelf_ustart e = 0x40000000" "uelf_length e \<le> 0x100000" "0x40000000 + uelf_length e \<le> fst (uelf_bss e)"
    "fst (uelf_bss e) \<le> snd (uelf_bss e)" "snd (uelf_bss e) \<le> 0x40100000" by simp_all
qed

text \<open>So the images satisfy what the boot model asks of them, and although \<open>crt0.S\<close> does not clear it, \<open>.bss\<close> is zero when a program starts: the kernel
  has cleared the slot around the image.\<close>

lemma linked_images_ok:
  assumes "length imgs = 3" "\<And>im. im \<in> set imgs \<Longrightarrow> \<exists>u e. user_link u = Some e \<and> user_objs_ok u \<and> length im = uelf_length e"
  shows "images_ok imgs"
  unfolding images_ok_def using assms user_link_layout(2) by metis

lemma user_bss_zero:
  assumes "user_link u = Some e" "user_objs_ok u" "slots_loaded p imgs mem" "i < 3" "length (imgs ! i) = uelf_length e"
    and "fst (uelf_bss e) \<le> a" "a < snd (uelf_bss e)"
  shows "mem (user_slot (board_of p) i + of_nat (a - 0x40000000)) = CHR 0x00"
proof -
  note L = user_link_layout [OF assms(1,2)]
  let ?k = "a - 0x40000000"
  have k: "?k < 0x100000" "length (imgs ! i) \<le> ?k" using L(2-5) assms(5-7) by linarith+
  then have "mem (user_slot (board_of p) i + of_nat ?k) = slot_image (imgs ! i) ! ?k"
    using assms(3,4) unfolding slots_loaded_def by blast
  then show ?thesis using k by (simp add: slot_image_def nth_append)
qed

end
