(* ===== verification/Ulib.thy ===== *)
theory Ulib
  imports Uart_Format
begin

text \<open>
  The user library \<open>user/libc/ulib.c\<close> and the user actions its functions perform.

  User code reaches the rest of the system only through system calls, so a library function is
  modelled as the tree of its interactions: \<open>Call a k\<close> performs the action \<open>a\<close> and goes on with
  \<open>k\<close> applied to the answer, \<open>Finish x\<close> returns \<open>x\<close>, \<open>Spin\<close> is a loop without actions that never ends. Nothing is assumed about the answers: between two
  system calls other threads may run. \<open>urun\<close> runs such a tree in an environment and lists the actions.
  \<open>Undef\<close> stands for undefined behaviour.

  A C string is its list of characters without the terminator. A buffer with a write index \<open>n\<close> is the list of its
  first \<open>n\<close> bytes; \<open>put_ch\<close> is the only function that writes to one, and it checks the capacity.
\<close>

section \<open>Interactions\<close>

text \<open>The actions of user code: the system calls of \<open>user/libc/syscall.h\<close>, and a store to memory that
  the process does not own. \<open>UWrite bs\<close> is a write of the bytes \<open>bs\<close> of the caller's memory.\<close>

datatype uact = UWrite string | UGetpid | URead nat | UPs nat | UKill u32 | UTicks | UYield | UExit | UStore u32 u32

text \<open>An answer: the value in r0 and the bytes the kernel has stored in the caller's buffer.\<close>

type_synonym answer = "u32 \<times> string"

datatype 'a uprog = Finish 'a | Spin | Undef | Call uact "answer \<Rightarrow> 'a uprog"

primrec ubind :: "'a uprog \<Rightarrow> ('a \<Rightarrow> 'b uprog) \<Rightarrow> 'b uprog" where
  "ubind (Finish x) f = f x"
| "ubind Spin f = Spin"
| "ubind Undef f = Undef"
| "ubind (Call a k) f = Call a (\<lambda>r. ubind (k r) f)"

abbreviation useq :: "'a uprog \<Rightarrow> 'b uprog \<Rightarrow> 'b uprog" where
  "useq p q \<equiv> ubind p (\<lambda>_. q)"

text \<open>
  A run against an environment: \<open>h a w\<close> is the answer to the action \<open>a\<close> when the environment is in the state
  \<open>w\<close>, or \<open>None\<close> when there is none (the kernel never comes back). The result lists the actions performed and how the run ended.
\<close>

datatype 'a outcome = Returned 'a | Spins | Undefined | Pending

type_synonym 'w env = "uact \<Rightarrow> 'w \<Rightarrow> (answer \<times> 'w) option"

primrec urun :: "'w env \<Rightarrow> 'a uprog \<Rightarrow> 'w \<Rightarrow> uact list \<times> 'a outcome \<times> 'w" where
  "urun h (Finish x) w = ([], Returned x, w)"
| "urun h Spin w = ([], Spins, w)"
| "urun h Undef w = ([], Undefined, w)"
| "urun h (Call a k) w =
     (case h a w of
        None \<Rightarrow> ([a], Pending, w)
      | Some (r, w') \<Rightarrow> (case urun h (k r) w' of (as, x, w'') \<Rightarrow> (a # as, x, w'')))"

text \<open>The environment that gives the answers of a list.\<close>

definition script :: "answer list env" where
  "script a rs = (case rs of [] \<Rightarrow> None | r # rs' \<Rightarrow> Some (r, rs'))"

lemma script_simps [simp]: "script a [] = None" "script a (r # rs) = Some (r, rs)"
  by (simp_all add: script_def)

lemma ubind_assoc: "ubind (ubind p f) g = ubind p (\<lambda>x. ubind (f x) g)"
  by (induction p) auto

lemma ubind_Finish [simp]: "ubind p Finish = p"
  by (induction p) auto

lemma urun_bind:
  assumes "urun h p w = (as, Returned x, w')"
  shows "urun h (ubind p f) w = (case urun h (f x) w' of (bs, y, w'') \<Rightarrow> (as @ bs, y, w''))"
  using assms
proof (induction p arbitrary: w as)
  case (Call a k)
  then show ?case by (auto split: option.splits prod.splits)
qed (auto split: prod.splits)

section \<open>Formatted output\<close>

definition ULIB_LINE_MAX :: nat where "ULIB_LINE_MAX = 192"

definition put_ch :: "nat \<Rightarrow> char \<Rightarrow> string \<Rightarrow> string" where
  "put_ch cap c buf = (if length buf < cap then buf @ [c] else buf)"

definition put_str :: "nat \<Rightarrow> string option \<Rightarrow> string \<Rightarrow> string" where
  "put_str cap s buf = fold (put_ch cap) (case s of None \<Rightarrow> ''(null)'' | Some s \<Rightarrow> s) buf"

definition put_dec :: "nat \<Rightarrow> u32 \<Rightarrow> string \<Rightarrow> string" where
  "put_dec cap v buf =
     (if v = 0 then put_ch cap (CHR ''0'') buf else fold (put_ch cap) (rev (dec_buf v)) buf)"

text \<open>The loop of \<open>put_hex\<close> over the shifts, with its flag \<open>started\<close>.\<close>

primrec put_hex_loop :: "nat list \<Rightarrow> nat \<Rightarrow> u32 \<Rightarrow> bool \<Rightarrow> bool \<Rightarrow> string \<Rightarrow> string" where
  "put_hex_loop [] cap v pad8 started buf = buf"
| "put_hex_loop (shift # shifts) cap v pad8 started buf =
     (let nib = nibble v shift
      in if pad8 \<or> nib \<noteq> 0 \<or> started \<or> shift = 0
         then put_hex_loop shifts cap v pad8 True (put_ch cap (hex_lower ! nib) buf)
         else put_hex_loop shifts cap v pad8 started buf)"

definition put_hex :: "nat \<Rightarrow> u32 \<Rightarrow> bool \<Rightarrow> string \<Rightarrow> string" where
  "put_hex cap v pad8 buf = put_hex_loop nibble_shifts cap v pad8 False buf"

text \<open>The scan of \<open>ulib_printf\<close>; \<open>None\<close> when an argument is missing or of the wrong kind.\<close>

fun ulib_format :: "string \<Rightarrow> printf_arg list \<Rightarrow> string \<Rightarrow> string option" where
  "ulib_format [] ap buf = Some buf"
| "ulib_format (c # p) ap buf =
     (if c \<noteq> CHR ''%'' then ulib_format p ap (put_ch ULIB_LINE_MAX c buf)
      else case p of
        [] \<Rightarrow> Some buf
      | d # p' \<Rightarrow>
          if d = CHR ''u'' then
            (case ap of ArgInt v # ap' \<Rightarrow> ulib_format p' ap' (put_dec ULIB_LINE_MAX v buf) | _ \<Rightarrow> None)
          else if d = CHR ''x'' then
            (case ap of ArgInt v # ap' \<Rightarrow> ulib_format p' ap' (put_hex ULIB_LINE_MAX v False buf) | _ \<Rightarrow> None)
          else if d = CHR ''p'' then
            (case ap of
               ArgInt v # ap' \<Rightarrow>
                 ulib_format p' ap' (put_hex ULIB_LINE_MAX v True (put_str ULIB_LINE_MAX (Some ''0x'') buf))
             | _ \<Rightarrow> None)
          else if d = CHR ''s'' then
            (case ap of ArgStr s # ap' \<Rightarrow> ulib_format p' ap' (put_str ULIB_LINE_MAX s buf) | _ \<Rightarrow> None)
          else if d = CHR ''c'' then
            (case ap of
               ArgInt v # ap' \<Rightarrow> ulib_format p' ap' (put_ch ULIB_LINE_MAX (char_of (unat v)) buf)
             | _ \<Rightarrow> None)
          else if d = CHR ''%'' then ulib_format p' ap (put_ch ULIB_LINE_MAX (CHR ''%'') buf)
          else ulib_format p' ap (put_ch ULIB_LINE_MAX d (put_ch ULIB_LINE_MAX (CHR ''%'') buf)))"

text \<open>A write whose result is ignored.\<close>

definition uwrite :: "string \<Rightarrow> unit uprog" where
  "uwrite bs = Call (UWrite bs) (\<lambda>_. Finish ())"

definition ulib_printf :: "string \<Rightarrow> printf_arg list \<Rightarrow> unit uprog" where
  "ulib_printf fmt ap =
     (case ulib_format fmt ap [] of
        None \<Rightarrow> Undef
      | Some buf \<Rightarrow> if length buf > 0 then uwrite buf else Finish ())"

section \<open>Strings and numbers\<close>

definition ulib_strlen :: "string \<Rightarrow> nat" where
  "ulib_strlen s = length s"

definition ulib_putc :: "char \<Rightarrow> unit uprog" where
  "ulib_putc c = uwrite [c]"

definition ulib_puts :: "string \<Rightarrow> unit uprog" where
  "ulib_puts s = uwrite (take (ulib_strlen s) s)"

primrec putc_all :: "string \<Rightarrow> unit uprog" where
  "putc_all [] = Finish ()"
| "putc_all (c # cs) = useq (ulib_putc c) (putc_all cs)"

definition ulib_putu :: "u32 \<Rightarrow> unit uprog" where
  "ulib_putu v = (if v = 0 then ulib_putc (CHR ''0'') else putc_all (rev (dec_buf v)))"

definition ulib_putx :: "u32 \<Rightarrow> unit uprog" where
  "ulib_putx v = uwrite (put_hex 8 v True [])"

text \<open>The character a pointer into a string points at: the terminator at its end.\<close>

definition chead :: "string \<Rightarrow> char" where
  "chead s = (case s of [] \<Rightarrow> CHR 0x00 | c # _ \<Rightarrow> c)"

fun ulib_strcmp :: "string \<Rightarrow> string \<Rightarrow> int" where
  "ulib_strcmp (a # as) (b # bs) = (if a = b then ulib_strcmp as bs else of_char a - of_char b)"
| "ulib_strcmp as bs = of_char (chead as) - of_char (chead bs)"

fun ulib_strncmp :: "string \<Rightarrow> string \<Rightarrow> nat \<Rightarrow> int" where
  "ulib_strncmp as bs 0 = 0"
| "ulib_strncmp (a # as) (b # bs) (Suc n) =
     (if a = b then ulib_strncmp as bs n else of_char a - of_char b)"
| "ulib_strncmp as bs (Suc n) = of_char (chead as) - of_char (chead bs)"

text \<open>The arithmetic of \<open>ulib_atoi\<close> is on \<open>int\<close>: \<open>None\<close> when it overflows, which C leaves undefined.\<close>

definition int_fits :: "int \<Rightarrow> bool" where
  "int_fits v \<longleftrightarrow> - 2147483648 \<le> v \<and> v < 2147483648"

fun atoi_loop :: "string \<Rightarrow> int \<Rightarrow> int option" where
  "atoi_loop [] v = Some v"
| "atoi_loop (c # s) v =
     (if is_digit c
      then (if int_fits (v * 10) \<and> int_fits (v * 10 + (of_char c - 48))
            then atoi_loop s (v * 10 + (of_char c - 48)) else None)
      else Some v)"

definition ulib_atoi :: "string \<Rightarrow> int option" where
  "ulib_atoi s = atoi_loop s 0"

section \<open>Waiting\<close>

text \<open>The loop of \<open>ulib_delay_ticks\<close>, its first \<open>n\<close> rounds: \<open>Some ()\<close> when the wait is over,
  \<open>None\<close> when it goes on.\<close>

primrec delay_loop :: "nat \<Rightarrow> u32 \<Rightarrow> u32 \<Rightarrow> unit option uprog" where
  "delay_loop 0 start ticks = Finish None"
| "delay_loop (Suc n) start ticks =
     Call UTicks (\<lambda>(now, _).
       if now - start < ticks then Call UYield (\<lambda>_. delay_loop n start ticks) else Finish (Some ()))"

definition ulib_delay_ticks :: "nat \<Rightarrow> u32 \<Rightarrow> unit option uprog" where
  "ulib_delay_ticks n ticks = Call UTicks (\<lambda>(start, _). delay_loop n start ticks)"

text \<open>The system call wrapper \<open>sys_exit\<close> does not return: it spins should the kernel come back.\<close>

definition usys_exit :: "'a uprog" where
  "usys_exit = Call UExit (\<lambda>_. Spin)"

text \<open>The weak default body of a second thread.\<close>

definition weak_thread_main :: "u32 \<Rightarrow> unit uprog" where
  "weak_thread_main idx = usys_exit"

text \<open>\<open>_ustart\<close> of \<open>user/crt0.S\<close>, where the kernel starts every thread of a process, with the thread's index in r0.\<close>

definition ustart :: "'a uprog \<Rightarrow> (u32 \<Rightarrow> 'b uprog) \<Rightarrow> u32 \<Rightarrow> unit uprog" where
  "ustart main_fn thread_fn r0 = (if r0 = 0 then useq main_fn usys_exit else useq (thread_fn r0) usys_exit)"

text \<open>A thread whose function returns, and a second thread that the program does not use, retire themselves.\<close>

lemma ustart_exits:
  assumes "urun h main_fn w = (acts, Returned x, w')" "h UExit w' = None"
  shows "urun h (ustart main_fn thread_fn 0) w = (acts @ [UExit], Pending, w')"
  using urun_bind [OF assms(1), of "\<lambda>_. usys_exit"] assms(2) by (simp add: ustart_def usys_exit_def)

lemma ustart_unused_thread: "idx \<noteq> 0 \<Longrightarrow> ustart main_fn weak_thread_main idx = usys_exit"
  by (simp add: ustart_def weak_thread_main_def usys_exit_def)

section \<open>The buffer\<close>

lemma put_ch_take: "length buf \<le> cap \<Longrightarrow> put_ch cap c buf = take cap (buf @ [c])"
  by (auto simp: put_ch_def)

lemma put_chs_take: "length buf \<le> cap \<Longrightarrow> fold (put_ch cap) cs buf = take cap (buf @ cs)"
proof (induction cs arbitrary: buf)
  case Nil
  then show ?case by simp
next
  case (Cons c cs)
  have "length (put_ch cap c buf) \<le> cap" using Cons.prems by (auto simp: put_ch_def)
  with Cons show ?case by (cases "length buf < cap") (auto simp: put_ch_def take_Cons')
qed

lemma put_str_take: "length buf \<le> cap \<Longrightarrow>
  put_str cap s buf = take cap (buf @ (case s of None \<Rightarrow> ''(null)'' | Some s \<Rightarrow> s))"
  unfolding put_str_def by (rule put_chs_take)

lemma put_dec_take: "length buf \<le> cap \<Longrightarrow> put_dec cap v buf = take cap (buf @ uart_print_dec v)"
  by (auto simp: put_dec_def uart_print_dec_def put_chs_take put_ch_take)

lemma put_hex_loop_started:
  "pad8 \<or> started \<Longrightarrow>
   put_hex_loop shifts cap v pad8 started buf = fold (put_ch cap) (map (\<lambda>i. hex_lower ! nibble v i) shifts) buf"
  by (induction shifts arbitrary: started buf) (auto simp: Let_def)

lemma put_hex_loop_trim:
  "put_hex_loop shifts cap v False False buf =
     fold (put_ch cap) (map (\<lambda>i. hex_lower ! nibble v i) (dropWhile (\<lambda>i. \<not> (nibble v i \<noteq> 0 \<or> i = 0)) shifts)) buf"
  by (induction shifts arbitrary: buf) (auto simp: Let_def put_hex_loop_started)

lemma put_hex_take: "length buf \<le> cap \<Longrightarrow>
  put_hex cap v pad8 buf = take cap (buf @ (if pad8 then hex8 v else hex_trim v))"
  by (auto simp: put_hex_def put_hex_loop_started put_hex_loop_trim put_chs_take hex8_def hex_trim_def)

section \<open>The whole message\<close>

text \<open>What a format and its arguments stand for, with no limit on the length.\<close>

fun umessage :: "string \<Rightarrow> printf_arg list \<Rightarrow> string option" where
  "umessage [] ap = Some []"
| "umessage [c] ap = Some (if c = CHR ''%'' then [] else [c])"
| "umessage (c # d # p) ap =
     (if c \<noteq> CHR ''%'' then emit [c] (umessage (d # p) ap)
      else if d \<in> {CHR ''u'', CHR ''x'', CHR ''p'', CHR ''c''} then
        (case ap of
           ArgInt v # ap' \<Rightarrow>
             emit (if d = CHR ''u'' then uart_print_dec v else if d = CHR ''x'' then hex_trim v
                   else if d = CHR ''p'' then ''0x'' @ hex8 v else [char_of (unat v)]) (umessage p ap')
         | _ \<Rightarrow> None)
      else if d = CHR ''s'' then
        (case ap of ArgStr s # ap' \<Rightarrow> emit (case s of None \<Rightarrow> ''(null)'' | Some s \<Rightarrow> s) (umessage p ap') | _ \<Rightarrow> None)
      else emit (if d = CHR ''%'' then ''%'' else [CHR ''%'', d]) (umessage p ap))"

lemma take_cut: "take k (take k xs @ ys) = take k (xs @ ys)"
  by (simp add: min_def)

lemma emit_take: "map_option (\<lambda>m. take k (take k (buf @ out) @ m)) r = map_option (\<lambda>m. take k (buf @ m)) (emit out r)"
  by (cases r) (simp_all add: emit_def take_cut del: take_append)

lemmas put_take = put_ch_take put_str_take put_dec_take put_hex_take

lemma format_rest:
  assumes "\<And>buf. length buf \<le> k \<Longrightarrow> ulib_format p ap buf = map_option (\<lambda>m. take k (buf @ m)) (umessage p ap)"
  shows "ulib_format p ap (take k (buf @ out)) = map_option (\<lambda>m. take k (buf @ m)) (emit out (umessage p ap))"
  using assms [of "take k (buf @ out)"] by (simp only: emit_take [symmetric]) simp

lemma put_two_take:
  "length buf \<le> k \<Longrightarrow> put_ch k d (put_ch k c buf) = take k (buf @ [c, d])"
  using put_chs_take [of buf k "[c, d]"] by simp

lemma put_pointer_take:
  "length buf \<le> k \<Longrightarrow> put_hex k v True (put_str k (Some ''0x'') buf) = take k (buf @ ''0x'' @ hex8 v)"
  using put_str_take [of buf k "Some ''0x''"] put_hex_take [of "take k (buf @ ''0x'')" k v True]
  by (simp add: take_cut del: take_append)

lemma ulib_format_message:
  "length buf \<le> ULIB_LINE_MAX \<Longrightarrow>
   ulib_format fmt ap buf = map_option (\<lambda>m. take ULIB_LINE_MAX (buf @ m)) (umessage fmt ap)"
proof (induction fmt ap arbitrary: buf rule: umessage.induct)
  case (1 ap)
  then show ?case by simp
next
  case (2 c ap)
  then show ?case by (simp add: put_take)
next
  case (3 c d p ap)
  note go = format_rest [where buf = buf] and two = put_two_take [OF "3.prems"] and hex = put_pointer_take [OF "3.prems"]
  show ?case
  proof (cases "c = CHR ''%''")
    case False
    then show ?thesis using go [OF "3.IH"(1) [OF False]] "3.prems" by (simp only: ulib_format.simps umessage.simps put_take) simp
  next
    case True
    consider (int) "d \<in> {CHR ''u'', CHR ''x'', CHR ''p'', CHR ''c''}" | (str) "d = CHR ''s''"
      | (other) "d \<notin> {CHR ''u'', CHR ''x'', CHR ''p'', CHR ''c''}" "d \<noteq> CHR ''s''" by blast
    then show ?thesis
    proof cases
      case int
      show ?thesis
      proof (cases "\<exists>v ap'. ap = ArgInt v # ap'")
        case True
        then obtain v ap' where ap: "ap = ArgInt v # ap'" by blast
        note IH = go [OF "3.IH"(2) [OF _ int ap refl]]
        show ?thesis using int \<open>c = CHR ''%''\<close> ap IH "3.prems" hex [of v] by (auto simp: put_take simp del: take_append)
      next
        case False
        then show ?thesis using int \<open>c = CHR ''%''\<close> by (auto split: list.splits printf_arg.splits)
      qed
    next
      case str
      show ?thesis
      proof (cases "\<exists>x ap'. ap = ArgStr x # ap'")
        case True
        then obtain x ap' where ap: "ap = ArgStr x # ap'" by blast
        show ?thesis using str \<open>c = CHR ''%''\<close> ap go [OF "3.IH"(3) [OF _ _ str ap refl]] "3.prems"
          by (simp add: put_take del: take_append)
      next
        case False
        then show ?thesis using str \<open>c = CHR ''%''\<close> by (auto split: list.splits printf_arg.splits)
      qed
    next
      case other
      then show ?thesis using \<open>c = CHR ''%''\<close> go [OF "3.IH"(4) [OF _ other]] "3.prems" two
        by (auto simp: put_take simp del: take_append)
    qed
  qed
qed

section \<open>Strings\<close>

lemma strcmp_same [simp]: "ulib_strcmp s s = 0"
  by (induction s) (auto simp: chead_def)

text \<open>The characters of a C string are not the terminator.\<close>

definition c_string :: "string \<Rightarrow> bool" where
  "c_string s \<longleftrightarrow> CHR 0x00 \<notin> set s"

lemma of_char_eq_int: "(of_char c :: int) = of_char d \<longleftrightarrow> c = d"
  by (metis char_of_char)

lemma of_char_0: "(of_char c :: int) = 0 \<longleftrightarrow> c = CHR 0x00"
  using of_char_eq_int [of c "CHR 0x00"] by simp

lemma strcmp_zero: "c_string s \<Longrightarrow> c_string t \<Longrightarrow> ulib_strcmp s t = 0 \<longleftrightarrow> s = t"
  by (induction s t rule: ulib_strcmp.induct)
    (auto simp: c_string_def chead_def of_char_eq_int of_char_0 split: list.splits)

lemma strncmp_zero:
  "c_string s \<Longrightarrow> c_string t \<Longrightarrow> ulib_strncmp s t n = 0 \<longleftrightarrow> take n s = take n t"
  by (induction s t n rule: ulib_strncmp.induct)
    (auto simp: c_string_def chead_def of_char_eq_int of_char_0 split: list.splits)

text \<open>The sign of the result is the lexicographic order.\<close>

lemma strcmp_less:
  "c_string s \<Longrightarrow> c_string t \<Longrightarrow>
   ulib_strcmp s t < 0 \<longleftrightarrow> (s, t) \<in> lexord {(a, b). (of_char a :: int) < of_char b}"
proof (induction s arbitrary: t)
  case Nil
  have "(0::int) \<le> of_char c" for c by (simp add: of_char_def)
  with Nil show ?case by (cases t) (auto simp: chead_def c_string_def of_char_0 order_less_le)
next
  case (Cons a as)
  then show ?case by (cases t) (auto simp: c_string_def chead_def not_less of_char_def)
qed

section \<open>Reading numbers\<close>

lemma foldl_dec_mono: "(a::nat) \<le> foldl (\<lambda>a c. a * 10 + (of_char c - 48)) a s"
proof (induction s arbitrary: a)
  case (Cons c s)
  have "a \<le> a * 10 + (of_char c - 48)" by simp
  also have "\<dots> \<le> foldl (\<lambda>a c. a * 10 + (of_char c - 48)) \<dots> s" by (rule Cons.IH)
  finally show ?case by simp
qed simp

lemma atoi_loop_digits:
  assumes "\<forall>c \<in> set ds. is_digit c" "foldl (\<lambda>a c. a * 10 + (of_char c - 48)) v ds < 2147483648"
    and "rest = [] \<or> \<not> is_digit (hd rest)"
  shows "atoi_loop (ds @ rest) (int v) = Some (int (foldl (\<lambda>a c. a * 10 + (of_char c - 48)) v ds))"
  using assms(1,2)
proof (induction ds arbitrary: v)
  case Nil
  show ?case using assms(3) by (cases rest) auto
next
  case (Cons c ds)
  let ?v = "v * 10 + (of_char c - 48)"
  have d: "is_digit c" "48 \<le> (of_char c :: nat)" using Cons.prems(1) by (auto simp: is_digit_def)
  have le: "?v < 2147483648" using foldl_dec_mono [of ?v ds] Cons.prems(2) by simp
  have v: "int v * 10 + (of_char c - 48) = int ?v"
    using d(2) by (simp add: of_nat_diff of_nat_of_char)
  have "int_fits (int v * 10)" "int_fits (int v * 10 + (of_char c - 48))"
    unfolding v using le by (auto simp: int_fits_def)
  then show ?case using Cons.IH [of ?v] Cons.prems d(1) v by simp
qed

section \<open>Waiting\<close>

text \<open>The answers a waiting thread gets: one for each reading of the tick counter, one for each yield.\<close>

definition tick_answers :: "(nat \<Rightarrow> u32) \<Rightarrow> nat \<Rightarrow> nat \<Rightarrow> answer list" where
  "tick_answers f i k = concat (map (\<lambda>j. [(f j, []), (0, [])]) [i..<i + k]) @ [(f (i + k), [])]"

lemma tick_answers_Suc: "tick_answers f i (Suc k) = (f i, []) # (0, []) # tick_answers f (Suc i) k"
  by (simp add: tick_answers_def upt_conv_Cons del: upt_Suc)

lemma delay_loop_acts:
  assumes "\<forall>j < k. f (i + j) - start < ticks" "\<not> f (i + k) - start < ticks" "k < n"
  shows "urun script (delay_loop n start ticks) (tick_answers f i k) =
    (concat (replicate k [UTicks, UYield]) @ [UTicks], Returned (Some ()), [])"
  using assms
proof (induction k arbitrary: i n)
  case 0
  then obtain m where "n = Suc m" by (cases n) auto
  with 0 show ?case by (simp add: tick_answers_def)
next
  case (Suc k)
  then obtain m where m: "n = Suc m" "k < m" by (cases n) auto
  have "\<forall>j < k. f (Suc i + j) - start < ticks" using Suc.prems(1) by auto
  with Suc m have IH: "urun script (delay_loop m start ticks) (tick_answers f (Suc i) k) =
      (concat (replicate k [UTicks, UYield]) @ [UTicks], Returned (Some ()), [])" by simp
  have "f i - start < ticks" using Suc.prems(1) by force
  then show ?case using IH by (simp add: m tick_answers_Suc)
qed

lemma u32_of_nat_diff: "a \<le> b \<Longrightarrow> b - a < 4294967296 \<Longrightarrow> unat (of_nat b - of_nat a :: u32) = b - a"
  by (metis of_nat_diff unat_u32_of_nat)

section \<open>Properties\<close>

text \<open>\<open>ulib_printf\<close> emits a message with a single write, never beyond its 192-byte
  buffer. If the arguments fit the format, the message is what the format stands for, cut off after 192
  characters; an empty message makes no system call; and a trailing \<open>%\<close> is dropped.\<close>

theorem ulib_printf_one_write:
  "ulib_printf fmt ap =
     (case umessage fmt ap of
        None \<Rightarrow> Undef
      | Some m \<Rightarrow> if m = [] then Finish () else uwrite (take 192 m))"
  using ulib_format_message [of "[]" fmt ap] by (auto simp: ulib_printf_def ULIB_LINE_MAX_def split: option.split)

text \<open>The decimal digits that \<open>put_dec\<close> produces are read back by \<open>ulib_atoi\<close>, up to the largest
  \<open>int\<close>, whatever follows them but a digit.\<close>

theorem atoi_put_dec:
  assumes "unat v < 2147483648" "rest = [] \<or> \<not> is_digit (hd rest)"
  shows "ulib_atoi (put_dec 10 v [] @ rest) = Some (int (unat v))"
proof -
  have eq: "put_dec 10 v [] = uart_print_dec v"
    using dec_buf_fits [of v] put_dec_take [of "[]" 10 v] by (simp add: uart_print_dec_def)
  have d: "\<forall>c \<in> set (uart_print_dec v). is_digit c"
    by (auto simp: uart_print_dec_def is_digit_def dest: dec_buf_digits)
  have val: "dec_val (uart_print_dec v) = unat v"
    using dec_buf_val [of v] by (auto simp: uart_print_dec_def dec_val_def)
  show ?thesis
    using atoi_loop_digits [OF d _ assms(2), of 0] val assms(1) by (simp add: eq ulib_atoi_def dec_val_def)
qed

theorem atoi_put_dec_witness: "ulib_atoi (put_dec 10 2147483647 [] @ '' rest'') = Some 2147483647"
  using atoi_put_dec [of 2147483647 "'' rest''"] by (simp add: is_digit_def)

text \<open>\<open>ulib_strcmp\<close> is the lexicographic order of C strings on unsigned characters, and zero exactly
  for equal strings; \<open>ulib_strncmp\<close> is zero exactly when the first \<open>n\<close> characters agree.\<close>

theorem string_comparison:
  assumes "c_string s" "c_string t"
  shows "(ulib_strcmp s t = 0 \<longleftrightarrow> s = t) \<and>
    (ulib_strcmp s t < 0 \<longleftrightarrow> (s, t) \<in> lexord {(a, b). (of_char a :: int) < of_char b}) \<and>
    (ulib_strncmp s t n = 0 \<longleftrightarrow> take n s = take n t)"
  using assms strcmp_zero strcmp_less strncmp_zero by simp

text \<open>\<open>ulib_delay_ticks\<close> waits for at least the given number of ticks and returns at the first
  reading of the counter that shows them, also when the 32-bit counter wraps around
  meanwhile; it yields between any two readings. \<open>T i\<close> is the number of ticks since boot at the \<open>i\<close>-th reading.\<close>

theorem delay_waits:
  assumes "mono T" "T (Suc k) - T 0 < 4294967296" "unat ticks \<le> T (Suc k) - T 0"
    and "\<forall>j < k. T (Suc j) - T 0 < unat ticks" "k < n"
  shows "urun script (ulib_delay_ticks n ticks) ((of_nat (T 0), []) # tick_answers (\<lambda>i. of_nat (T i)) 1 k) =
    (UTicks # concat (replicate k [UTicks, UYield]) @ [UTicks], Returned (Some ()), [])"
proof -
  have d: "unat (of_nat (T (Suc j)) - of_nat (T 0) :: u32) = T (Suc j) - T 0" if "j \<le> k" for j
  proof (rule u32_of_nat_diff)
    have "T (Suc j) \<le> T (Suc k)" "T 0 \<le> T (Suc j)" using assms(1) that by (simp_all add: monoD)
    then show "T 0 \<le> T (Suc j)" "T (Suc j) - T 0 < 4294967296" using assms(2) by auto
  qed
  have "of_nat (T (Suc j)) - of_nat (T 0) < ticks \<longleftrightarrow> T (Suc j) - T 0 < unat ticks" if "j \<le> k" for j
    using d [OF that] by (simp add: word_less_nat_alt)
  then have "\<forall>j < k. of_nat (T (1 + j)) - of_nat (T 0) < ticks" "\<not> of_nat (T (1 + k)) - of_nat (T 0) < ticks"
    using assms(3,4) by auto
  from delay_loop_acts [OF this assms(5)] show ?thesis by (simp add: ulib_delay_ticks_def)
qed

theorem delay_waits_witness:
  "urun script (ulib_delay_ticks 9 4) [(4294967294, []), (4294967295, []), (0, []), (3, [])] =
     ([UTicks, UTicks, UYield, UTicks], Returned (Some ()), [])"
proof -
  define T :: "nat \<Rightarrow> nat" where "T i = (if i = 0 then 4294967294 else if i = 1 then 4294967295 else 4294967299)" for i
  have w: "(4294967299 :: u32) = 3" by (simp add: word_eq_iff_unsigned)
  have "mono T" by (auto simp: mono_def T_def)
  then show ?thesis using delay_waits [of T 1 4 9] w by (simp add: T_def tick_answers_def)
qed

end
