(* ===== verification/Shell.thy ===== *)
theory Shell
  imports Ulib
begin

text \<open>
  The shell \<open>user/apps/shell/shell.c\<close>: its line editor, its parser and its six commands, and the
  two other programs of the system, \<open>user/apps/counter/counter.c\<close> and \<open>user/apps/runaway/runaway.c\<close>.

  The line editor keeps the buffer \<open>line\<close>, whose initial contents are arbitrary, and the index \<open>n\<close>, an unsigned integer; a store outside the buffer is
  undefined behaviour. The endless loops are modelled
  by their body (\<open>shell_round\<close>, \<open>heartbeat_round\<close>, \<open>counter_round\<close>, \<open>watch_round\<close>); \<open>shell_rounds\<close>
  composes the first rounds of the loop of \<open>main\<close>.
\<close>

section \<open>Parsing\<close>

definition LINE_MAX :: u32 where "LINE_MAX = 64"

definition blank :: "char \<Rightarrow> bool" where
  "blank c \<longleftrightarrow> c = CHR '' '' \<or> c = CHR 0x09"

definition skip_spaces :: "string \<Rightarrow> string" where
  "skip_spaces s = dropWhile blank s"

definition match_word :: "string \<Rightarrow> string \<Rightarrow> string option" where
  "match_word s word =
     (let n = ulib_strlen word
      in if ulib_strncmp s word n \<noteq> 0 then None
         else if chead (drop n s) \<noteq> CHR 0x00 \<and> chead (drop n s) \<noteq> CHR '' '' \<and> chead (drop n s) \<noteq> CHR 0x09
         then None
         else Some (skip_spaces (drop n s)))"

section \<open>Commands\<close>

definition prompt :: "unit uprog" where
  "prompt = ulib_puts ''shell> ''"

definition cmd_help :: "unit uprog" where
  "cmd_help = ulib_puts
     (''commands:\<newline>'' @ ''  help         '' @ em_dash @ '' this list\<newline>'' @
      ''  ps           '' @ em_dash @ '' list processes\<newline>'' @
      ''  kill <pid>   '' @ em_dash @ '' kill a process\<newline>'' @
      ''  echo <text>  '' @ em_dash @ '' print text\<newline>'' @
      ''  clear        '' @ em_dash @ '' clear the screen\<newline>'' @
      ''  crash        '' @ em_dash @ '' dereference NULL (demo)\<newline>'')"

definition cmd_ps :: "unit uprog" where
  "cmd_ps = Call (UPs 256) (\<lambda>(n, buf). if sint n > 0 then uwrite (take (unat n) buf) else Finish ())"

definition cmd_kill :: "string \<Rightarrow> unit uprog" where
  "cmd_kill arg =
     (if chead arg = CHR 0x00 then ulib_puts ''usage: kill <pid>\<newline>''
      else case ulib_atoi arg of
             None \<Rightarrow> Undef
           | Some pid \<Rightarrow>
               Call (UKill (word_of_int pid)) (\<lambda>(rc, _). if rc \<noteq> 0 then ulib_puts ''kill: bad pid\<newline>'' else Finish ()))"

definition cmd_echo :: "string \<Rightarrow> unit uprog" where
  "cmd_echo arg = useq (ulib_puts arg) (ulib_putc (CHR 0x0A))"

definition cmd_clear :: "unit uprog" where
  "cmd_clear = ulib_puts ([CHR 0x1B] @ ''[2J'' @ [CHR 0x1B] @ ''[H'')"

definition cmd_crash :: "unit uprog" where
  "cmd_crash =
     useq (ulib_puts (''crash: about to NULL-deref '' @ em_dash @ '' kernel should survive\<newline>''))
       (Call (UStore 0 0xDEADBEEF) (\<lambda>_. Finish ()))"

definition dispatch :: "string \<Rightarrow> unit uprog" where
  "dispatch line =
     (let p = skip_spaces line
      in if chead p = CHR 0x00 then Finish ()
         else case match_word p ''help'' of Some rest \<Rightarrow> cmd_help
         | None \<Rightarrow> (case match_word p ''ps'' of Some rest \<Rightarrow> cmd_ps
         | None \<Rightarrow> (case match_word p ''kill'' of Some rest \<Rightarrow> cmd_kill rest
         | None \<Rightarrow> (case match_word p ''echo'' of Some rest \<Rightarrow> cmd_echo rest
         | None \<Rightarrow> (case match_word p ''clear'' of Some rest \<Rightarrow> cmd_clear
         | None \<Rightarrow> (case match_word p ''crash'' of Some rest \<Rightarrow> cmd_crash
         | None \<Rightarrow> ulib_puts (''unknown command '' @ em_dash @ '' try '' @ [CHR 0x27] @ ''help'' @ [CHR 0x27] @ [CHR 0x0A])))))))"

section \<open>The line editor\<close>

type_synonym line_buffer = "char list \<times> u32"

text \<open>\<open>line[n] = c\<close>.\<close>

definition line_put :: "u32 \<Rightarrow> char \<Rightarrow> char list \<Rightarrow> char list option" where
  "line_put n c line = (if unat n < length line then Some (line[unat n := c]) else None)"

text \<open>The C string that starts at the beginning of a buffer.\<close>

definition c_line :: "char list \<Rightarrow> string" where
  "c_line line = takeWhile (\<lambda>c. c \<noteq> CHR 0x00) line"

definition shell_key :: "char \<Rightarrow> line_buffer \<Rightarrow> line_buffer uprog" where
  "shell_key c ed =
     (case ed of (line, n) \<Rightarrow>
        if c = CHR 0x0D \<or> c = CHR 0x0A
        then useq (ulib_puts [CHR 0x0D, CHR 0x0A])
               (case line_put n (CHR 0x00) line of
                  None \<Rightarrow> Undef
                | Some line' \<Rightarrow> useq (dispatch (c_line line')) (useq prompt (Finish (line', 0))))
        else if c = CHR 0x08 \<or> c = CHR 0x7F
        then (if n > 0
              then useq (ulib_puts [CHR 0x08, CHR '' '', CHR 0x08]) (Finish (line, n - 1))
              else Finish (line, n))
        else if n + 1 < LINE_MAX
        then (case line_put n c line of
                None \<Rightarrow> Undef
              | Some line' \<Rightarrow> useq (uwrite [c]) (Finish (line', n + 1)))
        else Finish (line, n))"

text \<open>One round of the loop of \<open>main\<close>. A positive result of the read says that the kernel has stored a byte.\<close>

definition shell_round :: "line_buffer \<Rightarrow> line_buffer uprog" where
  "shell_round ed =
     Call (URead 1) (\<lambda>(r, bs). if sint r \<le> 0 then Finish ed
       else case bs of [] \<Rightarrow> Undef | c # _ \<Rightarrow> shell_key c ed)"

primrec shell_rounds :: "nat \<Rightarrow> line_buffer \<Rightarrow> line_buffer uprog" where
  "shell_rounds 0 ed = Finish ed"
| "shell_rounds (Suc k) ed = ubind (shell_round ed) (shell_rounds k)"

text \<open>\<open>main\<close> with an uninitialised buffer \<open>line0\<close>.\<close>

definition shell_main :: "nat \<Rightarrow> char list \<Rightarrow> line_buffer uprog" where
  "shell_main k line0 =
     useq (ulib_puts (''\<newline>Cortex-A-OS shell '' @ em_dash @ '' type '' @ [CHR 0x27] @ ''help'' @ [CHR 0x27] @ '' for commands\<newline>''))
       (useq prompt (shell_rounds k (line0, 0)))"

section \<open>The second threads and the other programs\<close>

definition HEARTBEAT_TICKS :: u32 where "HEARTBEAT_TICKS = 500"

text \<open>A round of a loop that waits and prints; \<open>n\<close> bounds the readings of the counter that one wait takes.\<close>

definition heartbeat_round :: "nat \<Rightarrow> u32 \<Rightarrow> unit option uprog" where
  "heartbeat_round n idx =
     ubind (ulib_delay_ticks n HEARTBEAT_TICKS) (\<lambda>r. case r of
         None \<Rightarrow> Finish None
       | Some u \<Rightarrow> useq (ulib_printf ([CHR 0x0D, CHR 0x0A] @ ''[shell   t%u] heartbeat'' @ [CHR 0x0D, CHR 0x0A] @ ''shell> '')
                           [ArgInt idx]) (Finish (Some ())))"

definition DELAY_TICKS :: u32 where "DELAY_TICKS = 300"
definition WATCH_TICKS :: u32 where "WATCH_TICKS = 500"

text \<open>\<open>counter\<close>: the loop state is \<open>prev\<close> and the shared counter; \<open>mark\<close> is the address of the local variable.\<close>

definition counter_round :: "nat \<Rightarrow> u32 \<Rightarrow> u32 \<times> u32 \<Rightarrow> (u32 \<times> u32) option uprog" where
  "counter_round n mark st =
     (case st of (prev, shared_count) \<Rightarrow>
        Call UTicks (\<lambda>(now, _).
          let dt = now - prev
          in useq (ulib_printf ''[counter t0] writes count=%u  dt=%ums  &mark=%p\<newline>''
                     [ArgInt shared_count, ArgInt (dt * 10), ArgInt mark])
               (ubind (ulib_delay_ticks n DELAY_TICKS) (\<lambda>r. Finish (map_option (\<lambda>_. (now, shared_count + 1)) r)))))"

definition watch_round :: "nat \<Rightarrow> u32 \<Rightarrow> u32 \<Rightarrow> u32 \<Rightarrow> unit option uprog" where
  "watch_round n mark idx shared_count =
     useq (ulib_printf (''[counter t%u] reads  count=%u'' @ ''             &mark=%p\<newline>'')
             [ArgInt idx, ArgInt shared_count, ArgInt mark])
       (ulib_delay_ticks n WATCH_TICKS)"

definition spin_forever :: "unit uprog" where
  "spin_forever = Spin"

definition runaway_main :: "unit uprog" where
  "runaway_main = useq (ulib_printf (''[runaway t0] spinning '' @ em_dash @ '' never calls sys_yield\<newline>'') []) spin_forever"

definition runaway_thread_main :: "u32 \<Rightarrow> unit uprog" where
  "runaway_thread_main idx =
     useq (ulib_printf (''[runaway t%u] spinning '' @ em_dash @ '' never calls sys_yield\<newline>'') [ArgInt idx]) spin_forever"

section \<open>The parser finds the first word\<close>

text \<open>A line as a person reads it: the first blank-separated word, and what follows it.\<close>

definition first_word :: "string \<Rightarrow> string" where
  "first_word s = takeWhile (\<lambda>c. \<not> blank c) (dropWhile blank s)"

definition after_word :: "string \<Rightarrow> string" where
  "after_word s = dropWhile blank (dropWhile (\<lambda>c. \<not> blank c) (dropWhile blank s))"

lemma blank_not_nul: "c \<noteq> CHR 0x00 \<Longrightarrow> (c \<noteq> CHR 0x00 \<and> c \<noteq> CHR '' '' \<and> c \<noteq> CHR 0x09) = (\<not> blank c)"
  by (auto simp: blank_def)

lemma takeWhile_eq_word:
  assumes "\<forall>c \<in> set w. \<not> blank c"
  shows "takeWhile (\<lambda>c. \<not> blank c) s = w \<longleftrightarrow>
    take (length w) s = w \<and> (drop (length w) s = [] \<or> blank (hd (drop (length w) s)))"
proof
  assume w: "takeWhile (\<lambda>c. \<not> blank c) s = w"
  then have "take (length w) s = w" by (metis takeWhile_eq_take)
  moreover have "drop (length w) s = dropWhile (\<lambda>c. \<not> blank c) s" using w by (metis dropWhile_eq_drop)
  ultimately show "take (length w) s = w \<and> (drop (length w) s = [] \<or> blank (hd (drop (length w) s)))"
    using hd_dropWhile [of "\<lambda>c. \<not> blank c" s] by auto
next
  assume w: "take (length w) s = w \<and> (drop (length w) s = [] \<or> blank (hd (drop (length w) s)))"
  then have s: "s = w @ drop (length w) s" by (metis append_take_drop_id)
  have "takeWhile (\<lambda>c. \<not> blank c) (w @ r) = w" if "r = [] \<or> blank (hd r)" for r
    using assms that by (cases r) (auto simp: takeWhile_append2)
  with w s show "takeWhile (\<lambda>c. \<not> blank c) s = w" by metis
qed

lemma c_string_drop: "c_string s \<Longrightarrow> c_string (drop n s)" "c_string s \<Longrightarrow> c_string (dropWhile P s)"
  by (auto simp: c_string_def dest: in_set_dropD set_dropWhileD)

lemma chead_end: "c_string s \<Longrightarrow>
  (chead s \<noteq> CHR 0x00 \<and> chead s \<noteq> CHR '' '' \<and> chead s \<noteq> CHR 0x09) \<longleftrightarrow> \<not> (s = [] \<or> blank (hd s))"
  by (cases s) (auto simp: chead_def c_string_def blank_def)

lemma chead_nul: "c_string s \<Longrightarrow> chead s = CHR 0x00 \<longleftrightarrow> s = []"
  by (cases s) (auto simp: chead_def c_string_def)

lemma match_word_first:
  assumes "c_string s" "c_string w" "\<forall>c \<in> set w. \<not> blank c"
  shows "match_word s w =
    (if takeWhile (\<lambda>c. \<not> blank c) s = w then Some (dropWhile blank (dropWhile (\<lambda>c. \<not> blank c) s)) else None)"
proof -
  have "match_word s w = (if take (length w) s = w \<and> (drop (length w) s = [] \<or> blank (hd (drop (length w) s)))
      then Some (dropWhile blank (drop (length w) s)) else None)"
    using strncmp_zero [OF assms(1,2), of "length w"] chead_end [OF c_string_drop(1) [OF assms(1)], of "length w"]
    by (auto simp: match_word_def ulib_strlen_def skip_spaces_def)
  also have "\<dots> = (if takeWhile (\<lambda>c. \<not> blank c) s = w
      then Some (dropWhile blank (drop (length w) s)) else None)"
    by (simp only: takeWhile_eq_word [OF assms(3), symmetric])
  also have "\<dots> = (if takeWhile (\<lambda>c. \<not> blank c) s = w then Some (dropWhile blank (dropWhile (\<lambda>c. \<not> blank c) s)) else None)"
    by (auto simp: dropWhile_eq_drop)
  finally show ?thesis .
qed

text \<open>The commands by their first word.\<close>

definition command :: "string \<Rightarrow> string \<Rightarrow> unit uprog" where
  "command w arg =
     (if w = ''help'' then cmd_help else if w = ''ps'' then cmd_ps else if w = ''kill'' then cmd_kill arg
      else if w = ''echo'' then cmd_echo arg else if w = ''clear'' then cmd_clear else if w = ''crash'' then cmd_crash
      else ulib_puts (''unknown command '' @ em_dash @ '' try '' @ [CHR 0x27] @ ''help'' @ [CHR 0x27] @ [CHR 0x0A]))"

lemma dispatch_command:
  assumes "c_string line"
  shows "dispatch line = (if first_word line = [] then Finish () else command (first_word line) (after_word line))"
proof -
  let ?p = "dropWhile blank line"
  have p: "c_string ?p" using assms by (rule c_string_drop)
  have nb: "c_string w \<and> (\<forall>c \<in> set w. \<not> blank c)"
    if "w \<in> {''help'', ''ps'', ''kill'', ''echo'', ''clear'', ''crash''}" for w
    using that by (auto simp: c_string_def blank_def)
  have m: "match_word ?p w = (if first_word line = w then Some (after_word line) else None)"
    if "w \<in> {''help'', ''ps'', ''kill'', ''echo'', ''clear'', ''crash''}" for w
    using match_word_first [OF p, of w] nb [OF that] by (simp add: first_word_def after_word_def)
  have e: "first_word line = [] \<longleftrightarrow> ?p = []"
    using hd_dropWhile [of blank line] by (cases ?p) (auto simp: first_word_def simp del: dropWhile_eq_Nil_conv)
  show ?thesis
  proof (cases "?p = []")
    case True
    then show ?thesis using e by (simp add: dispatch_def skip_spaces_def chead_def del: dropWhile_eq_Nil_conv)
  next
    case False
    then have "chead ?p \<noteq> CHR 0x00" using chead_nul [OF p] by simp
    then show ?thesis using False e
      by (simp add: dispatch_def skip_spaces_def Let_def m command_def del: dropWhile_eq_Nil_conv)
  qed
qed

section \<open>What the editor keeps\<close>

text \<open>Editing as a function on the text: a key is appended while there is room, backspace removes the last one.\<close>

definition edit :: "string \<Rightarrow> char \<Rightarrow> string" where
  "edit line c =
     (if c = CHR 0x08 \<or> c = CHR 0x7F then butlast line
      else if length line < 63 then line @ [c] else line)"

definition is_enter :: "char \<Rightarrow> bool" where
  "is_enter c \<longleftrightarrow> c = CHR 0x0D \<or> c = CHR 0x0A"

lemma edit_length: "length line \<le> 63 \<Longrightarrow> length (edit line c) \<le> 63"
  by (auto simp: edit_def)

lemma edited_length: "length line \<le> 63 \<Longrightarrow> length (foldl edit line ks) \<le> 63"
  by (induction ks arbitrary: line) (auto simp: edit_length)

lemma puts_uwrite [simp]: "ulib_puts s = uwrite s"
  by (simp add: ulib_puts_def ulib_strlen_def)

text \<open>What is left of a program after the calls of a list have been answered, each with the answer given there; \<open>None\<close> when the program does not make these calls.\<close>

fun after :: "'a uprog \<Rightarrow> (uact \<times> answer) list \<Rightarrow> 'a uprog option" where
  "after P [] = Some P"
| "after (Call a k) ((b, r) # tr) = (if a = b then after (k r) tr else None)"
| "after P (x # tr) = None"

lemma after_append: "after P (tr @ ls) = Option.bind (after P tr) (\<lambda>Q. after Q ls)"
  by (induction P tr rule: after.induct) auto

text \<open>The keys that the reads have delivered; a read with a positive result has stored a byte.\<close>

definition key_of :: "uact \<times> answer \<Rightarrow> char list" where
  "key_of x = (case x of (a, r, bs) \<Rightarrow> if a = URead 1 \<and> sint r > 0 then take 1 bs else [])"

definition keys_read :: "(uact \<times> answer) list \<Rightarrow> string" where
  "keys_read tr = concat (map key_of tr)"

definition reads_store :: "(uact \<times> answer) list \<Rightarrow> bool" where
  "reads_store tr \<longleftrightarrow> (\<forall>(a, r, bs) \<in> set tr. a = URead 1 \<and> sint r > 0 \<longrightarrow> bs \<noteq> [])"

lemma keys_read_simps [simp]:
  "keys_read [] = []" "keys_read (x # tr) = key_of x @ keys_read tr" "keys_read (tr @ ls) = keys_read tr @ keys_read ls"
  by (simp_all add: keys_read_def)

lemma reads_store_simps [simp]: "reads_store []" "reads_store (x # tr) \<Longrightarrow> reads_store tr" "reads_store (tr @ ls) \<longleftrightarrow> reads_store tr \<and> reads_store ls"
  by (auto simp: reads_store_def)

text \<open>The buffer holds the text \<open>T\<close>: the index is within the first 63 places, and the text is what is before it.\<close>

definition holds :: "string \<Rightarrow> line_buffer \<Rightarrow> bool" where
  "holds T ed \<longleftrightarrow> length (fst ed) = 64 \<and> unat (snd ed) \<le> 63 \<and> take (unat (snd ed)) (fst ed) = T"

lemma holds_length: "holds T ed \<Longrightarrow> length T = unat (snd ed)"
  by (auto simp: holds_def)

lemma holds_empty: "length line = 64 \<Longrightarrow> holds [] (line, 0)"
  by (simp add: holds_def)

lemma holds_backspace:
  assumes "holds T (line, n)" "n > 0"
  shows "holds (butlast T) (line, n - 1)"
proof -
  have n: "unat n > 0" using assms(2) by (simp add: word_less_nat_alt)
  then have "unat (n - 1) = unat n - 1" using unat_sub [of 1 n] by (simp add: word_le_nat_alt)
  then show ?thesis using assms(1) n butlast_take [of "unat n" line] by (auto simp: holds_def)
qed

lemma holds_append:
  assumes "holds T (line, n)" "n + 1 < LINE_MAX"
  shows "line_put n c line = Some (line[unat n := c])" "holds (T @ [c]) (line[unat n := c], n + 1)"
proof -
  have l: "length line = 64" "unat n \<le> 63" "take (unat n) line = T" using assms(1) by (simp_all add: holds_def)
  have s: "unat (n + 1) = unat n + 1" using l(2) by (simp add: unat_u32_add)
  then have "unat n + 1 < 64" using assms(2) by (simp add: LINE_MAX_def word_less_nat_alt)
  then show "line_put n c line = Some (line[unat n := c])" "holds (T @ [c]) (line[unat n := c], n + 1)"
    using l s by (simp_all add: line_put_def holds_def take_Suc_conv_app_nth)
qed

lemma holds_full: "holds T (line, n) \<Longrightarrow> \<not> n + 1 < LINE_MAX \<Longrightarrow> length T = 63"
  using holds_length [of T "(line, n)"] by (simp add: holds_def LINE_MAX_def word_less_nat_alt unat_u32_add)

lemma holds_enter:
  assumes "holds T (line, n)"
  shows "\<exists>line'. line_put n (CHR 0x00) line = Some line' \<and> length line' = 64 \<and> c_line line' = c_line T"
proof -
  have l: "length line = 64" "unat n \<le> 63" "take (unat n) line = T" using assms by (simp_all add: holds_def)
  have "line[unat n := CHR 0x00] = T @ CHR 0x00 # drop (Suc (unat n)) line"
    using l by (simp add: upd_conv_take_nth_drop)
  then have "c_line (line[unat n := CHR 0x00]) = c_line T" by (simp add: c_line_def takeWhile_tail)
  then show ?thesis using l by (simp add: line_put_def)
qed

text \<open>A key other than Enter leaves an editor that holds the edited text, possibly after an echo.\<close>

lemma shell_key_edit:
  assumes "holds T ed" "\<not> is_enter c"
  shows "\<exists>ed'. holds (edit T c) ed' \<and> (shell_key c ed = Finish ed' \<or> (\<exists>bs. shell_key c ed = useq (uwrite bs) (Finish ed')))"
proof -
  obtain line n where ed: "ed = (line, n)" by (cases ed)
  note h = assms(1) [unfolded ed]
  have T: "length T = unat n" using holds_length [OF h] by simp
  consider "c = CHR 0x08 \<or> c = CHR 0x7F" "n > 0" | "c = CHR 0x08 \<or> c = CHR 0x7F" "n = 0"
    | "\<not> (c = CHR 0x08 \<or> c = CHR 0x7F)" "n + 1 < LINE_MAX" | "\<not> (c = CHR 0x08 \<or> c = CHR 0x7F)" "\<not> n + 1 < LINE_MAX"
    using word_neq_0_conv [of n] by blast
  then show ?thesis
  proof cases
    case 1
    have "shell_key c ed = useq (uwrite [CHR 0x08, CHR '' '', CHR 0x08]) (Finish (line, n - 1))"
      using 1 assms(2) by (auto simp: shell_key_def ed is_enter_def)
    moreover have "edit T c = butlast T" using 1(1) by (simp add: edit_def)
    ultimately show ?thesis using holds_backspace [OF h 1(2)] by auto
  next
    case 2
    then have "T = []" using T by simp
    then show ?thesis using 2 assms(2) h by (intro exI [of _ ed]) (auto simp: shell_key_def ed is_enter_def edit_def)
  next
    case 3
    note a = holds_append [OF h 3(2), of c]
    have "length (T @ [c]) \<le> 63" using holds_length [OF a(2)] a(2) by (simp add: holds_def)
    then have "edit T c = T @ [c]" using 3(1) by (simp add: edit_def)
    moreover have "shell_key c ed = useq (uwrite [c]) (Finish (line[unat n := c], n + 1))"
      using 3 assms(2) a(1) by (simp add: shell_key_def ed is_enter_def)
    ultimately show ?thesis using a(2) by auto
  next
    case 4
    have "edit T c = T" using 4(1) holds_full [OF h 4(2)] by (simp add: edit_def)
    then show ?thesis using 4 assms(2) h by (intro exI [of _ ed]) (simp add: shell_key_def ed is_enter_def)
  qed
qed

text \<open>Until Enter is read, the shell is at the next round of its loop or about to echo, with the edited text of all keys read so far in its buffer.\<close>

definition editing :: "string \<Rightarrow> line_buffer uprog \<Rightarrow> bool" where
  "editing T Q \<longleftrightarrow> (\<exists>k ed. holds T ed \<and> (Q = shell_rounds k ed \<or> (\<exists>bs. Q = useq (uwrite bs) (shell_rounds k ed))))"

lemma editing_start: "holds T ed \<Longrightarrow> editing T (shell_rounds k ed)"
  unfolding editing_def by blast

lemma editing_step:
  assumes "editing T P" "after P [x] = Some Q" "reads_store [x]" "\<forall>c \<in> set (key_of x). \<not> is_enter c"
  shows "editing (foldl edit T (key_of x)) Q"
proof -
  obtain a r bs where x: "x = (a, r, bs)" by (cases x)
  from assms(1) obtain k ed where h: "holds T ed" and P: "P = shell_rounds k ed \<or> (\<exists>bs. P = useq (uwrite bs) (shell_rounds k ed))"
    unfolding editing_def by blast
  from P show ?thesis
  proof
    assume "\<exists>bs. P = useq (uwrite bs) (shell_rounds k ed)"
    then have "Q = shell_rounds k ed" "key_of x = []" using assms(2) x by (auto simp: uwrite_def key_of_def split: if_splits)
    then show ?thesis using h by (simp add: editing_start)
  next
    assume P: "P = shell_rounds k ed"
    with assms(2) x obtain j where k: "k = Suc j" by (cases k) simp_all
    have a: "a = URead 1" using assms(2) x by (auto simp: P k shell_round_def split: if_splits)
    show ?thesis
    proof (cases "sint r \<le> 0")
      case True
      then have "Q = shell_rounds j ed" "key_of x = []" using assms(2) x a by (simp_all add: P k shell_round_def key_of_def)
      then show ?thesis using h by (simp add: editing_start)
    next
      case False
      then obtain c cs where bs: "bs = c # cs" using assms(3) x a by (cases bs) (auto simp: reads_store_def)
      have key: "key_of x = [c]" using False by (simp add: key_of_def x a bs)
      have Q: "Q = ubind (shell_key c ed) (shell_rounds j)" using assms(2) False by (simp add: P k x a bs shell_round_def)
      have "\<not> is_enter c" using assms(4) key by simp
      from shell_key_edit [OF h this] obtain ed' where e: "holds (edit T c) ed'"
        "shell_key c ed = Finish ed' \<or> (\<exists>bs. shell_key c ed = useq (uwrite bs) (Finish ed'))" by blast
      then have "Q = shell_rounds j ed' \<or> (\<exists>bs. Q = useq (uwrite bs) (shell_rounds j ed'))" unfolding Q by (auto simp: ubind_assoc)
      then have "editing (edit T c) Q" using e(1) unfolding editing_def by blast
      then show ?thesis by (simp add: key)
    qed
  qed
qed

lemma editing_after:
  assumes "editing T P" "after P tr = Some Q" "reads_store tr" "\<forall>c \<in> set (keys_read tr). \<not> is_enter c"
  shows "editing (foldl edit T (keys_read tr)) Q"
  using assms
proof (induction tr arbitrary: T P)
  case (Cons x tr)
  have "Option.bind (after P [x]) (\<lambda>P1. after P1 tr) = Some Q" using after_append [of P "[x]" tr] Cons.prems(2) by simp
  then obtain P1 where "after P [x] = Some P1" "after P1 tr = Some Q" by (auto simp: bind_eq_Some_conv)
  moreover have "reads_store [x]" "reads_store tr" using Cons.prems(3) by (auto simp: reads_store_def)
  ultimately show ?case using Cons.IH [of "foldl edit T (key_of x)" P1] editing_step [OF Cons.prems(1), of x P1] Cons.prems(4) by simp
qed simp

text \<open>When Enter is read, the shell dispatches the text and begins the next line.\<close>

lemma editing_enter:
  assumes "editing T P" "after P [(URead 1, r, e # bs)] = Some Q" "sint r > 0" "is_enter e"
  shows "\<exists>line k. length line = 64 \<and>
    Q = useq (uwrite [CHR 0x0D, CHR 0x0A]) (useq (dispatch (c_line T)) (useq prompt (shell_rounds k (line, 0))))"
proof -
  from assms(1) obtain k ed where h: "holds T ed" and P: "P = shell_rounds k ed \<or> (\<exists>bs. P = useq (uwrite bs) (shell_rounds k ed))"
    unfolding editing_def by blast
  obtain line n where ed: "ed = (line, n)" by (cases ed)
  obtain line' where l: "line_put n (CHR 0x00) line = Some line'" "length line' = 64" "c_line line' = c_line T"
    using holds_enter h ed by blast
  have P: "P = shell_rounds k ed" using P assms(2) by (auto simp: uwrite_def)
  with assms(2) obtain j where k: "k = Suc j" by (cases k) simp_all
  have "Q = ubind (shell_key e ed) (shell_rounds j)" using assms(2,3) by (simp add: P k shell_round_def)
  then have "Q = useq (uwrite [CHR 0x0D, CHR 0x0A]) (useq (dispatch (c_line T)) (useq prompt (shell_rounds j (line', 0))))"
    using assms(4) l by (simp add: shell_key_def ed is_enter_def ubind_assoc)
  then show ?thesis using l(2) by blast
qed

lemma editing_defined: "editing T Q \<Longrightarrow> Q \<noteq> Undef"
proof -
  assume "editing T Q"
  then obtain k ed where "Q = shell_rounds k ed \<or> (\<exists>bs. Q = useq (uwrite bs) (shell_rounds k ed))" unfolding editing_def by blast
  then show ?thesis by (cases k) (auto simp: shell_round_def uwrite_def)
qed

section \<open>Properties\<close>

text \<open>C37: the parser of the shell. \<open>dispatch\<close> runs the command named by the first blank-separated word of
  the line, with the text after that word and the blanks behind it as its argument; an empty line does nothing; a word that only begins
  with the name of a command is unknown.\<close>

theorem shell_dispatch_first_word:
  assumes "c_string line"
  shows "dispatch line = (if first_word line = [] then Finish () else command (first_word line) (after_word line))"
  using assms by (rule dispatch_command)

theorem shell_dispatch_first_word_witness:
  "dispatch ''  kill  2'' = cmd_kill ''2'' \<and> dispatch ''killer'' = command ''killer'' []"
  using shell_dispatch_first_word [of "''  kill  2''"] shell_dispatch_first_word [of "''killer''"]
  by (simp add: c_string_def first_word_def after_word_def blank_def command_def)

text \<open>\<open>kill\<close> with an argument that does not begin with a digit, such as a name or a negative number, is not
  refused: \<open>ulib_atoi\<close> returns 0 for it and the shell kills process 0.\<close>

theorem kill_without_number_kills_pid_0:
  assumes "c_string arg" "arg \<noteq> []" "\<not> blank (hd arg)" "\<not> is_digit (hd arg)"
  shows "\<exists>k. dispatch (''kill '' @ arg) = Call (UKill 0) k"
proof -
  obtain c cs where arg: "arg = c # cs" using assms(2) by (cases arg) auto
  have "first_word (''kill '' @ arg) = ''kill''" "after_word (''kill '' @ arg) = arg"
    using assms(3) by (simp_all add: first_word_def after_word_def blank_def arg)
  moreover have "ulib_atoi arg = Some 0" using assms(4) by (simp add: arg ulib_atoi_def)
  moreover have "chead arg \<noteq> CHR 0x00" using chead_nul [OF assms(1)] assms(2) by simp
  moreover have "c_string (''kill '' @ arg)" using assms(1) by (simp add: c_string_def)
  ultimately show ?thesis by (simp add: dispatch_command command_def cmd_kill_def)
qed

theorem kill_without_number_kills_pid_0_witness: "\<exists>k. dispatch ''kill shell'' = Call (UKill 0) k"
  using kill_without_number_kills_pid_0 [of "''shell''"] by (simp add: c_string_def blank_def is_digit_def)

end
