(* ===== verification/User_Calls.thy ===== *)
theory User_Calls
  imports Ulib Syscall_Properties Sample_Runs
begin

text \<open>
  The two sides of a system call. The wrappers of \<open>user/libc/syscall.h\<close> load the registers and execute
  \<open>svc #0\<close>; here a wrapper is the register file it leaves for the kernel. The numbers are those of the user
  header, which repeats the ones of \<open>kernel/include/syscall.h\<close>. The properties join the wrappers and the
  user library to the kernel's dispatcher and handlers.
\<close>

section \<open>Model\<close>

definition U_SYS_WRITE :: u32 where "U_SYS_WRITE = 0"
definition U_SYS_GETPID :: u32 where "U_SYS_GETPID = 1"
definition U_SYS_YIELD :: u32 where "U_SYS_YIELD = 2"
definition U_SYS_EXIT :: u32 where "U_SYS_EXIT = 3"
definition U_SYS_READ :: u32 where "U_SYS_READ = 4"
definition U_SYS_PS :: u32 where "U_SYS_PS = 5"
definition U_SYS_KILL :: u32 where "U_SYS_KILL = 6"
definition U_SYS_TICKS :: u32 where "U_SYS_TICKS = 7"

definition usys_write :: "u32 \<Rightarrow> u32 \<Rightarrow> u32 \<Rightarrow> exception_context \<Rightarrow> exception_context" where
  "usys_write fd buf len x = x\<lparr>ec_r := (ec_r x)[0 := fd, 1 := buf, 2 := len, 7 := U_SYS_WRITE]\<rparr>"

definition usys_getpid :: "exception_context \<Rightarrow> exception_context" where
  "usys_getpid x = x\<lparr>ec_r := (ec_r x)[7 := U_SYS_GETPID]\<rparr>"

definition usys_read :: "u32 \<Rightarrow> u32 \<Rightarrow> u32 \<Rightarrow> exception_context \<Rightarrow> exception_context" where
  "usys_read fd buf len x = x\<lparr>ec_r := (ec_r x)[0 := fd, 1 := buf, 2 := len, 7 := U_SYS_READ]\<rparr>"

definition usys_ps :: "u32 \<Rightarrow> u32 \<Rightarrow> exception_context \<Rightarrow> exception_context" where
  "usys_ps buf sz x = x\<lparr>ec_r := (ec_r x)[0 := buf, 1 := sz, 7 := U_SYS_PS]\<rparr>"

definition usys_kill :: "u32 \<Rightarrow> exception_context \<Rightarrow> exception_context" where
  "usys_kill kpid x = x\<lparr>ec_r := (ec_r x)[0 := kpid, 7 := U_SYS_KILL]\<rparr>"

definition usys_ticks :: "exception_context \<Rightarrow> exception_context" where
  "usys_ticks x = x\<lparr>ec_r := (ec_r x)[7 := U_SYS_TICKS]\<rparr>"

definition usys_yield :: "exception_context \<Rightarrow> exception_context" where
  "usys_yield x = x\<lparr>ec_r := (ec_r x)[7 := U_SYS_YIELD]\<rparr>"

definition usys_exit_call :: "exception_context \<Rightarrow> exception_context" where
  "usys_exit_call x = x\<lparr>ec_r := (ec_r x)[7 := U_SYS_EXIT]\<rparr>"

lemmas wrapper_defs = usys_write_def usys_getpid_def usys_read_def usys_ps_def usys_kill_def usys_ticks_def
  usys_yield_def usys_exit_call_def U_SYS_WRITE_def U_SYS_GETPID_def U_SYS_YIELD_def U_SYS_EXIT_def
  U_SYS_READ_def U_SYS_PS_def U_SYS_KILL_def U_SYS_TICKS_def

section \<open>Lemmas\<close>

text \<open>What the dispatcher makes of the result of a handler.\<close>

definition answered :: "exception_context \<Rightarrow> sys_result \<times> kstate \<Rightarrow> dispatch_result \<times> kstate" where
  "answered x r = (case r of
     (Ret v, s) \<Rightarrow> (Done (set_r0 v x), s) | (Wait, s) \<Rightarrow> (Waiting, s) | (Abort, s) \<Rightarrow> (Aborted, s))"

lemma dispatch_answered: "ec_r x ! 7 < 8 \<Longrightarrow> syscall_dispatch x s = answered x (handler_result x s)"
  by (simp add: dispatch_handler answered_def)

lemma schedule_console [simp]: "console_out (schedule k s) = console_out s"
  by (auto simp: schedule_def Let_def split: option.split)

lemma usys_write_svc:
  assumes k: "kinv p s" and cur: "current s = Some c" and x: "user_ctx x" and v: "valid_user_ptr buf len"
  shows "handle_svc (usys_write fd buf len x) s =
    schedule (ToUser (set_r0 len (usys_write fd buf len x)))
      (kputs (user_bytes p (c div 2) s buf (unat len)) s)"
proof -
  have l: "kernel_layout p s" and i: "core_inv s" using k by (simp_all add: kinv_def)
  have "length (ec_r x) = 13" using x by (simp add: user_ctx_def)
  then show ?thesis
    using sys_write_spec [OF user_access_current [OF l i cur] v]
    by (simp add: handle_svc_def dispatch_answered answered_def handler_result_def syscall_table_eq wrapper_defs)
qed

text \<open>After boot the image of a process is at the start of its window.\<close>

lemma booted_image:
  assumes "slots_loaded p imgs mem" "images_ok imgs" "i < 3"
  shows "user_bytes p i (booted p lk imgs co mem tb) 0x40000000 (length (imgs ! i)) = imgs ! i"
proof (rule nth_equalityI)
  fix k assume "k < length (user_bytes p i (booted p lk imgs co mem tb) 0x40000000 (length (imgs ! i)))"
  then have k: "k < length (imgs ! i)" by (simp add: user_bytes_def)
  moreover have "length (imgs ! i) \<le> 0x100000" using assms(2,3) by (simp add: images_ok_def)
  ultimately have "mem (user_slot (board_of p) i + of_nat k) = (imgs ! i) ! k"
    using assms(1,3) by (simp add: slots_loaded_def slot_image_def nth_append)
  then show "user_bytes p i (booted p lk imgs co mem tb) 0x40000000 (length (imgs ! i)) ! k = imgs ! i ! k"
    using k by (simp add: user_bytes_def upa_def USER_VIRT_BASE_def)
qed (simp add: user_bytes_def)

section \<open>Properties\<close>

text \<open>The user library and the kernel agree on the system call interface: every wrapper of the user header reaches the
  handler of the same name with the same arguments, although the two headers repeat the numbers by hand.\<close>

theorem wrappers_reach_handlers:
  assumes "length (ec_r x) = 13"
  shows "syscall_dispatch (usys_write a b d x) s = answered (usys_write a b d x) (sys_write a b d (ec_r x ! 3) s) \<and>
    syscall_dispatch (usys_read a b d x) s = answered (usys_read a b d x) (sys_read a b d (ec_r x ! 3) s) \<and>
    syscall_dispatch (usys_ps a b x) s = answered (usys_ps a b x) (sys_ps a b (ec_r x ! 2) (ec_r x ! 3) s) \<and>
    syscall_dispatch (usys_kill a x) s =
      answered (usys_kill a x) (sys_kill a (ec_r x ! 1) (ec_r x ! 2) (ec_r x ! 3) s) \<and>
    syscall_dispatch (usys_getpid x) s =
      answered (usys_getpid x) (sys_getpid (ec_r x ! 0) (ec_r x ! 1) (ec_r x ! 2) (ec_r x ! 3) s) \<and>
    syscall_dispatch (usys_ticks x) s =
      answered (usys_ticks x) (sys_ticks (ec_r x ! 0) (ec_r x ! 1) (ec_r x ! 2) (ec_r x ! 3) s) \<and>
    syscall_dispatch (usys_yield x) s =
      answered (usys_yield x) (sys_yield (ec_r x ! 0) (ec_r x ! 1) (ec_r x ! 2) (ec_r x ! 3) s) \<and>
    syscall_dispatch (usys_exit_call x) s =
      answered (usys_exit_call x) (sys_exit (ec_r x ! 0) (ec_r x ! 1) (ec_r x ! 2) (ec_r x ! 3) s)"
  using assms by (simp add: dispatch_answered handler_result_def syscall_table_eq wrapper_defs)

theorem wrappers_reach_handlers_witness:
  "syscall_dispatch (usys_kill 7 (call_ctx 0 1 2)) sample = (Done (set_r0 (- 1) (usys_kill 7 (call_ctx 0 1 2))), sample)"
  using wrappers_reach_handlers [of "call_ctx 0 1 2" 7 0 0 sample]
  by (simp add: call_ctx_def answered_def sys_kill_def kernel_const E_BADCALL_def)

text \<open>A message of \<open>ulib_printf\<close> reaches the console in one piece. The library makes a single
  write of the first 192 characters of the message; when the caller's buffer holds them, that one step of the
  kernel appends exactly these characters to the console, with nothing of another thread in between.\<close>

theorem printf_message_untorn:
  assumes "umessage fmt ap = Some m" "m \<noteq> []"
    and "reachable p s" "cpu s = ToUser x" "current s = Some c"
    and "valid_user_ptr buf (of_nat (length (take 192 m)))"
    and "user_bytes p (c div 2) s buf (length (take 192 m)) = take 192 m"
  shows "ulib_printf fmt ap = uwrite (take 192 m) \<and>
    console_out (handle_svc (usys_write 1 buf (of_nat (length (take 192 m))) x) s) =
      console_out s @ console_bytes (take 192 m)"
proof
  show "ulib_printf fmt ap = uwrite (take 192 m)"
    using ulib_format_message [of "[]" fmt ap] assms(1,2) by (simp add: ulib_printf_def ULIB_LINE_MAX_def)
  have k: "kinv p s" using reachable_inv(1) [OF assms(3)] .
  then have x: "user_ctx x" using assms(4,5) by (auto simp: kinv_def fits_cpu_def)
  have "unat (of_nat (length (take 192 m)) :: u32) = length (take 192 m)"
    by (rule unat_u32_of_nat) simp
  then show "console_out (handle_svc (usys_write 1 buf (of_nat (length (take 192 m))) x) s) =
      console_out s @ console_bytes (take 192 m)"
    using assms(7) unfolding usys_write_svc [OF k assms(5) x assms(6)] by (simp add: kputs_def)
qed

theorem printf_message_untorn_witness:
  "\<exists>s x. reachable Qemu s \<and> console_out (handle_svc (usys_write 1 0x40000000 2 x) s) = console_out s @ ''17''"
proof -
  let ?imgs = "[''17'', [], []]"
  have im: "images_ok ?imgs" by (simp add: images_ok_def)
  from boot_reaches [OF sample_link_ok im, of Qemu "[]" "[]" 0 0 "\<lambda>_. CHR 0x00"] obtain co mem tb where
    b: "boot Qemu sample_link ?imgs [] [] 0 0 (\<lambda>_. CHR 0x00) = Some (booted Qemu sample_link ?imgs co mem tb)"
      "slots_loaded Qemu ?imgs mem" by blast
  let ?s = "booted Qemu sample_link ?imgs co mem tb"
  have r: "reachable Qemu ?s" unfolding reachable_def using sample_link_ok im b(1) ksteps.stop by blast
  have "user_bytes Qemu 0 ?s 0x40000000 2 = ''17''"
    using booted_image [OF b(2) im, of 0 sample_link co tb] by (simp add: numeral_2_eq_2)
  moreover have "umessage ''%u'' [ArgInt 17] = Some ''17''"
    by (simp add: emit_def uart_print_dec_def dec_buf_pos) code_simp
  moreover have "valid_user_ptr 0x40000000 2" by (simp add: valid_user_ptr_nat)
  ultimately have "console_out (handle_svc (usys_write 1 0x40000000 2 (first_ctx USER_VIRT_BASE 0)) ?s) =
      console_out ?s @ console_bytes ''17''"
    using printf_message_untorn [OF _ _ r, of "''%u''" "[ArgInt 17]" "''17''" "first_ctx USER_VIRT_BASE 0" 0 "0x40000000"]
    by (simp add: numeral_2_eq_2)
  moreover have "console_bytes ''17'' = ''17''" by (simp add: console_bytes_def uart_putc_def)
  ultimately show ?thesis using r by metis
qed

end
