(* ===== verification/User_Runs.thy ===== *)
theory User_Runs
  imports User_Calls Shell Kernel_Static
begin

text \<open>
  User programs on the running kernel. \<open>Ulib\<close> and \<open>Shell\<close> describe a user function as the tree of its system calls, \<open>Exceptions\<close> the kernel as a step
  relation. Here one thread executes such a tree while the whole system runs: it computes, puts the arguments of the next call where the wrappers of
  \<open>user/libc/syscall.h\<close> put them and traps; the answer is what it finds in r0 and in its buffer when it is back in user mode. Meanwhile it is
  interrupted at any instruction, and all other threads do whatever they like, in any order; its own registers and stack are the thread's alone.

  The properties follow a command typed at the shell, or a message, through the library, the system call, the scheduler and back.
\<close>

section \<open>Model\<close>

datatype 'a uthread = Running "'a uprog" | InCall uact u32 "answer \<Rightarrow> 'a uprog"

text \<open>The registers of a call, as the wrappers set them; a store to foreign memory is not a call.\<close>

primrec call_frame :: "uact \<Rightarrow> u32 \<Rightarrow> exception_context \<Rightarrow> exception_context option" where
  "call_frame (UWrite bs) buf x = Some (usys_write 1 buf (of_nat (length bs)) x)"
| "call_frame UGetpid buf x = Some (usys_getpid x)"
| "call_frame (URead n) buf x = Some (usys_read 0 buf (of_nat n) x)"
| "call_frame (UPs n) buf x = Some (usys_ps buf (of_nat n) x)"
| "call_frame (UKill kpid) buf x = Some (usys_kill kpid x)"
| "call_frame UTicks buf x = Some (usys_ticks x)"
| "call_frame UYield buf x = Some (usys_yield x)"
| "call_frame UExit buf x = Some (usys_exit_call x)"
| "call_frame (UStore a v) buf x = None"

text \<open>The caller's buffer lies in the user window, and holds what a write is to print.\<close>

fun buffer_ready :: "platform \<Rightarrow> nat \<Rightarrow> kstate \<Rightarrow> uact \<Rightarrow> u32 \<Rightarrow> bool" where
  "buffer_ready p i s (UWrite bs) buf \<longleftrightarrow>
     length bs < 4294967296 \<and> valid_user_ptr buf (of_nat (length bs)) \<and> user_bytes p i s buf (length bs) = bs"
| "buffer_ready p i s (URead n) buf \<longleftrightarrow> n < 4294967296 \<and> valid_user_ptr buf (of_nat n)"
| "buffer_ready p i s (UPs n) buf \<longleftrightarrow> n < 4294967296 \<and> valid_user_ptr buf (of_nat n)"
| "buffer_ready p i s _ buf \<longleftrightarrow> True"

fun answer_bytes :: "platform \<Rightarrow> nat \<Rightarrow> kstate \<Rightarrow> uact \<Rightarrow> u32 \<Rightarrow> u32 \<Rightarrow> string" where
  "answer_bytes p i s (URead n) buf r = (if sint r > 0 then user_bytes p i s buf (unat r) else [])"
| "answer_bytes p i s (UPs n) buf r = (if sint r > 0 then user_bytes p i s buf (unat r) else [])"
| "answer_bytes p i s _ buf r = []"

inductive ustep :: "platform \<Rightarrow> tptr \<Rightarrow> kstate \<times> 'a uthread \<Rightarrow> kstate \<times> 'a uthread \<Rightarrow> bool" for p t where
  elsewhere: "current s \<noteq> Some t \<Longrightarrow> kstep s e s' \<Longrightarrow> ustep p t (s, u) (s', u)"
| interrupted: "current s = Some t \<Longrightarrow> kstep s (Irq n bs) s' \<Longrightarrow> ustep p t (s, u) (s', u)"
| in_kernel: "current s = Some t \<Longrightarrow> kstep s KernelResume s' \<Longrightarrow> ustep p t (s, u) (s', u)"
| computes: "current s = Some t \<Longrightarrow> kstep s (UserRun ws x sp lr) s' \<Longrightarrow> ustep p t (s, Running P) (s', Running P)"
| calls: "current s = Some t \<Longrightarrow> cpu s = ToUser y \<Longrightarrow> call_frame a buf x = Some y \<Longrightarrow> length (ec_r x) = 13 \<Longrightarrow>
    buffer_ready p (t div 2) s a buf \<Longrightarrow> kstep s Svc s' \<Longrightarrow> ustep p t (s, Running (Call a k)) (s', InCall a buf k)"
| returns: "current s = Some t \<Longrightarrow> cpu s = ToUser y \<Longrightarrow>
    ustep p t (s, InCall a buf k) (s, Running (k (ec_r y ! 0, answer_bytes p (t div 2) s a buf (ec_r y ! 0))))"
| stores: "current s = Some t \<Longrightarrow> kstep s (UserRun [(a, char_of (unat v mod 256)), (a + 1, char_of (unat v div 256 mod 256)),
      (a + 2, char_of (unat v div 65536 mod 256)), (a + 3, char_of (unat v div 16777216))] x sp lr) s' \<Longrightarrow>
    ustep p t (s, Running (Call (UStore a v) k)) (s', Running (k (0, [])))"
| faults: "current s = Some t \<Longrightarrow> translate (active_table s) Usr True a = None \<Longrightarrow> kstep s (DataAbort fs a) s' \<Longrightarrow>
    ustep p t (s, Running (Call (UStore a v) k)) (s', InCall (UStore a v) a k)"

inductive usteps :: "platform \<Rightarrow> tptr \<Rightarrow> kstate \<times> 'a uthread \<Rightarrow> kstate \<times> 'a uthread \<Rightarrow> bool" for p t where
  none: "usteps p t x x"
| more: "usteps p t x y \<Longrightarrow> ustep p t y z \<Longrightarrow> usteps p t x z"

text \<open>The same runs with the list of the calls that have been answered, and the answers.\<close>

primrec program :: "'a uthread \<Rightarrow> 'a uprog" where
  "program (Running P) = P"
| "program (InCall a buf k) = Call a k"

inductive utrace :: "platform \<Rightarrow> tptr \<Rightarrow> kstate \<times> 'a uthread \<Rightarrow> (uact \<times> answer) list \<Rightarrow> kstate \<times> 'a uthread \<Rightarrow> bool" for p t where
  start: "utrace p t x [] x"
| silent: "utrace p t x tr (s, u) \<Longrightarrow> ustep p t (s, u) (s', u') \<Longrightarrow> program u' = program u \<Longrightarrow> utrace p t x tr (s', u')"
| answer: "utrace p t x tr (s, InCall a buf k) \<Longrightarrow> current s = Some t \<Longrightarrow> cpu s = ToUser y \<Longrightarrow>
    r = (ec_r y ! 0, answer_bytes p (t div 2) s a buf (ec_r y ! 0)) \<Longrightarrow> utrace p t x (tr @ [(a, r)]) (s, Running (k r))"
| stored: "utrace p t x tr (s, Running (Call (UStore a v) k)) \<Longrightarrow>
    ustep p t (s, Running (Call (UStore a v) k)) (s', Running (k (0, []))) \<Longrightarrow>
    utrace p t x (tr @ [(UStore a v, 0, [])]) (s', Running (k (0, [])))"

text \<open>Every run has such a list.\<close>

lemma usteps_utrace: "usteps p t x y \<Longrightarrow> \<exists>tr. utrace p t x tr y"
proof (induction rule: usteps.induct)
  case (none x)
  then show ?case using utrace.start by blast
next
  case (more x y z)
  then obtain tr where tr: "utrace p t x tr y" by blast
  obtain s u s' u' where y: "y = (s, u)" "z = (s', u')" by (cases y, cases z)
  note tr = tr [unfolded y] and st = more.hyps(2) [unfolded y]
  show ?case
  proof (cases "program u' = program u")
    case True
    then show ?thesis using utrace.silent [OF tr st] y by blast
  next
    case False
    from st False show ?thesis
    proof cases
      case (returns w a buf k)
      then show ?thesis using utrace.answer [OF tr [unfolded returns] returns(4,5) refl] y by auto
    next
      case (stores a v w sp lr k)
      then show ?thesis using utrace.stored [OF tr [unfolded stores]] st y by auto
    qed auto
  qed
qed

section \<open>Every step of a program is a step of the system\<close>

lemma ustep_kstep: "ustep p t (s, u) (s', u') \<Longrightarrow> s' = s \<or> (\<exists>e. kstep s e s')"
  by (erule ustep.cases) auto

text \<open>An invariant of program and system: it holds at the start, and every step keeps it in reachable states.\<close>

lemma usteps_invariant:
  assumes "usteps p t (s, u) (s', u')" "reachable p s" "I s u"
    and "\<And>s u s' u'. reachable p s \<Longrightarrow> I s u \<Longrightarrow> ustep p t (s, u) (s', u') \<Longrightarrow> I s' u'"
  shows "reachable p s' \<and> I s' u'"
proof -
  have "reachable p (fst y) \<and> I (fst y) (snd y)" if "usteps p t x y" "reachable p (fst x)" "I (fst x) (snd x)" for x y
    using that
  proof (induction rule: usteps.induct)
    case (more x y z)
    obtain s1 u1 s2 u2 where y: "y = (s1, u1)" "z = (s2, u2)" by (cases y, cases z)
    have "reachable p s2" using more y ustep_kstep [of p t s1 u1 s2 u2] reachable_step by auto
    then show ?case using more y assms(4) [of s1 u1 s2 u2] by auto
  qed simp
  from this [OF assms(1)] assms(2,3) show ?thesis by simp
qed

section \<open>kill\<close>

text \<open>Both threads of process \<open>i\<close> are dead and off the CPU.\<close>

definition gone :: "nat \<Rightarrow> kstate \<Rightarrow> bool" where
  "gone i s \<longleftrightarrow> (\<forall>u < 6. u div 2 = i \<longrightarrow> state_of s u = TASK_DEAD \<and> current s \<noteq> Some u)"

lemma gone_step: "kstep s e s' \<Longrightarrow> kinv p s \<Longrightarrow> gone i s \<Longrightarrow> gone i s'"
  using kstep_dead unfolding gone_def by blast

lemma gone_schedule:
  assumes "kernel_layout p s" "core_inv s" "gone i s"
  shows "gone i (schedule k s)"
proof -
  obtain c where cur: "current s = Some c" using assms(2) by (auto simp: core_inv_def)
  show ?thesis
    unfolding gone_def
  proof (intro allI impI)
    fix u :: nat assume u: "u < 6" "u div 2 = i"
    then have d: "state_of s u = TASK_DEAD" "u \<noteq> c" using assms(3) cur by (auto simp: gone_def)
    show "state_of (schedule k s) u = TASK_DEAD \<and> current (schedule k s) \<noteq> Some u"
      using schedule_others [OF assms(1,2) cur u(1) d(2), of k] d by (auto simp: runnable_def)
  qed
qed

lemma kill_svc_gone:
  assumes k: "kinv p s" and cur: "current s = Some c" and x: "length (ec_r x) = 13" and pid: "kpid < 3" "unat kpid \<noteq> c div 2"
  shows "gone (unat kpid) (handle_svc (usys_kill kpid x) s)"
proof -
  have l: "kernel_layout p s" and i: "core_inv s" using k by (simp_all add: kinv_def)
  have c: "c < 6" using core_invD(1) [OF i cur] .
  let ?i = "unat kpid" and ?a = "\<lambda>j. ec_r x ! j"
  have i3: "?i < 3" using pid(1) by (simp add: word_less_nat_alt)
  obtain r s' where h: "sys_kill kpid (?a 1) (?a 2) (?a 3) s = (r, s')" by (meson surj_pair)
  have u: "u div 2 = ?i \<longleftrightarrow> u = 2 * ?i \<or> u = 2 * ?i + 1" for u by auto
  note spec = sys_kill_spec [OF l cur c pid(1), of "?a 1" "?a 2" "?a 3"]
  have r: "r = Ret 0" using spec h by (auto simp: Let_def split: if_splits)
  have "state_of s' t = TASK_DEAD" if "t < 6" "t div 2 = ?i" for t
    using spec h that i3 layout_lengths [OF l]
    by (auto simp: Let_def u nth_set_state scheduler_request_resched_def split: if_splits)
  moreover have kp: "keeps p c s s'"
    using sys_kill_ok [OF l i cur, of 0 0 kpid "?a 1" "?a 2" "?a 3"] h by (simp add: sys_ok_def sys_keeps_def)
  ultimately have "gone ?i s'" using pid(2) by (auto simp: gone_def keeps_def)
  then have "gone ?i (schedule k s')" for k using gone_schedule kp by (auto simp: keeps_def)
  then show ?thesis
    using h r x by (simp add: handle_svc_def dispatch_answered answered_def handler_result_def syscall_table_eq wrapper_defs)
qed

lemma kill_runs:
  assumes "usteps p t (s, Running (Call (UKill kpid) k)) (s', u)" "reachable p s" "kpid < 3" "unat kpid \<noteq> t div 2"
  shows "u = Running (Call (UKill kpid) k) \<or> gone (unat kpid) s'"
proof -
  let ?I = "\<lambda>s u. u = Running (Call (UKill kpid) k) \<or> gone (unat kpid) s"
  have step: "?I s2 u2" if r: "reachable p s1" and I: "?I s1 u1" and st: "ustep p t (s1, u1) (s2, u2)" for s1 u1 s2 u2
  proof (cases "gone (unat kpid) s1")
    case True
    then show ?thesis using ustep_kstep [OF st] gone_step reachable_inv(1) [OF r] by blast
  next
    case False
    with I have u1: "u1 = Running (Call (UKill kpid) k)" by simp
    from st show ?thesis
      unfolding u1
    proof cases
      case (calls y buf x)
      then have "s2 = handle_svc (usys_kill kpid x) s1" by (auto elim: kstep_svcE)
      then show ?thesis using kill_svc_gone [OF reachable_inv(1) [OF r] calls(2,5) assms(3,4)] by simp
    qed simp_all
  qed
  have "reachable p s' \<and> ?I s' u" by (rule usteps_invariant [OF assms(1,2), where I = ?I]) (use step in simp_all)
  then show ?thesis by blast
qed

text \<open>C33: \<open>kill\<close> typed at the shell kills. A thread of the shell executes a line whose first word is \<open>kill\<close> and whose argument is the number of another
  process, while the rest of the system does whatever it likes. When the command has returned, both threads of that process are dead and neither has the CPU.\<close>

theorem shell_kill_end_to_end:
  assumes "reachable p s" "usteps p t (s, Running (dispatch line)) (s', Running (Finish ()))"
    and "c_string line" "first_word line = ''kill''" "after_word line \<noteq> []" "ulib_atoi (after_word line) = Some v"
    and "0 \<le> v" "v < 3" "nat v \<noteq> t div 2"
  shows "\<forall>u < 6. u div 2 = nat v \<longrightarrow> state_of s' u = TASK_DEAD \<and> current s' \<noteq> Some u"
proof -
  let ?w = "word_of_int v :: u32"
  have w: "unat ?w = nat v" "?w < 3"
    using assms(7,8) by (simp_all add: unsigned_of_int take_bit_int_eq_self word_less_nat_alt)
  have "chead (after_word line) \<noteq> CHR 0x00"
    using chead_nul c_string_drop(2) assms(3,5) unfolding after_word_def by metis
  then have "dispatch line = Call (UKill ?w) (\<lambda>(rc, _). if rc \<noteq> 0 then ulib_puts ''kill: bad pid\<newline>'' else Finish ())"
    using dispatch_command [OF assms(3)] assms(4,6) by (simp add: command_def cmd_kill_def)
  then have "gone (unat ?w) s'"
    using kill_runs [of p t s ?w _ s' "Running (Finish ())"] assms(1,2,9) w by auto
  then show ?thesis using w(1) by (simp add: gone_def)
qed

text \<open>The last thread runs, all others sleep in \<open>sys_read\<close>; it kills process 0, finds no thread to switch to, and goes on.\<close>

theorem shell_kill_end_to_end_witness:
  "\<exists>s s'. reachable Qemu s \<and> state_of s 1 = TASK_BLOCKED \<and>
     usteps Qemu 5 (s, Running (dispatch ''kill 0'')) (s', Running (Finish ())) \<and> state_of s' 1 = TASK_DEAD"
proof -
  obtain s where "readers 5 s" using readers_exist [of 5] by auto
  then obtain x where s: "reachable Qemu s" "current s = Some 5" "cpu s = ToUser x" and b: "\<forall>t < 5. state_of s t = TASK_BLOCKED"
    unfolding readers_def by (auto split: if_splits)
  let ?k = "\<lambda>(rc, _). if rc \<noteq> 0 then ulib_puts ''kill: bad pid\<newline>'' else Finish ()"
  let ?y = "usys_kill 0 (call_ctx 0 0 0)" and ?line = "''kill 0''"
  have line: "c_string ?line" "first_word ?line = ''kill''" "after_word ?line = ''0''" "ulib_atoi ''0'' = Some 0" by code_simp+
  then have P: "dispatch ?line = Call (UKill 0) ?k"
    using dispatch_command [OF line(1)] by (simp add: command_def cmd_kill_def chead_def)
  let ?s1 = "s\<lparr>cpu := ToUser ?y\<rparr>"
  have "user_ctx ?y" by (simp add: user_ctx_def usys_kill_def call_ctx_def)
  then have st1: "kstep s (UserRun [] ?y (sp_usr s) (lr_usr s)) ?s1"
    using kstep.user [OF s(3), of ?y "[]" s "sp_usr s" "lr_usr s"] by simp
  have k1: "kernel_layout Qemu ?s1" "core_inv ?s1" using reachable_inv(1) [OF reachable_step [OF s(1) st1]] by (simp_all add: kinv_def)
  obtain s2 where s2: "sys_kill 0 (ec_r ?y ! 1) (ec_r ?y ! 2) (ec_r ?y ! 3) ?s1 = (Ret 0, s2)" "current s2 = Some 5" "need_reschedule s2"
    "\<forall>t < 5. state_of s2 t = TASK_BLOCKED \<or> state_of s2 t = TASK_DEAD"
    using sys_kill_spec [OF k1(1), of 5 0 "ec_r ?y ! 1" "ec_r ?y ! 2" "ec_r ?y ! 3"] s(2) b layout_lengths [OF k1(1)]
    by (auto simp: Let_def nth_set_state scheduler_request_resched_def)
  have "keeps Qemu 5 ?s1 s2"
    using sys_kill_ok [OF k1, of 5 0 0 0 "ec_r ?y ! 1" "ec_r ?y ! 2" "ec_r ?y ! 3"] s(2) s2(1) by (simp add: sys_ok_def sys_keeps_def)
  then have k2: "kernel_layout Qemu s2" "core_inv s2" by (simp_all add: keeps_def)
  have idle: "\<not> runnable s2 t" if "t < 6" "t \<noteq> 5" for t using s2(4) that by (auto simp: runnable_def dest: spec [of _ t])
  let ?s3 = "s2\<lparr>need_reschedule := False, wake_hint := None, cpu := ToUser (set_r0 0 ?y)\<rparr>"
  have "schedule (ToUser (set_r0 0 ?y)) s2 = ?s3"
    using k2 s2(2) by (cases rule: schedule_cases [where k = "ToUser (set_r0 0 ?y)"]) (use idle s2(3) in auto)
  then have "handle_svc ?y ?s1 = ?s3"
    using s2(1) by (simp add: handle_svc_def dispatch_answered answered_def handler_result_def syscall_table_eq wrapper_defs call_ctx_def)
  then have svc: "kstep ?s1 Svc ?s3" using kstep.svc [of ?s1 ?y] by simp
  have run: "usteps Qemu 5 (s, Running (dispatch ?line)) (?s3, Running (Finish ()))"
  proof -
    have 1: "ustep Qemu 5 (s, Running (dispatch ?line)) (?s1, Running (dispatch ?line))"
      using st1 s(2) by (intro ustep.computes)
    have 2: "ustep Qemu 5 (?s1, Running (dispatch ?line)) (?s3, InCall (UKill 0) 0 ?k)"
      unfolding P by (rule ustep.calls [OF _ _ _ _ _ svc, where x = "call_ctx 0 0 0"]) (use s(2) in \<open>simp_all add: call_ctx_def\<close>)
    have 3: "ustep Qemu 5 (?s3, InCall (UKill 0) 0 ?k) (?s3, Running (?k (0, [])))"
      using ustep.returns [of ?s3 5 "set_r0 0 ?y" Qemu "UKill 0" 0 ?k] s2(2) by (simp add: set_r0_def usys_kill_def call_ctx_def)
    show ?thesis using usteps.more [OF usteps.more [OF usteps.more [OF usteps.none 1] 2] 3] by simp
  qed
  have "state_of ?s3 1 = TASK_DEAD"
    using shell_kill_end_to_end [OF s(1) run line(1,2), of 0] line(3,4) by (auto dest: spec [of _ "1::nat"])
  moreover have "state_of s 1 = TASK_BLOCKED" using b by simp
  ultimately show ?thesis using s(1) run by blast
qed

section \<open>Lines\<close>

lemma utrace_after:
  assumes "utrace p t (s, Running P) tr (s', u)"
  shows "after P tr = Some (program u) \<and> reads_store tr"
proof -
  have "after P tr = Some (program (snd y)) \<and> reads_store tr" if "utrace p t x tr y" "program (snd x) = P" for x y
    using that
  proof (induction rule: utrace.induct)
    case (answer x tr s a buf k y r)
    have "reads_store [(a, r)]"
      using answer.hyps(4) by (auto simp: reads_store_def user_bytes_def unat_eq_0)
    then show ?case using answer by (simp add: after_append)
  qed (auto simp: after_append reads_store_def)
  from this [OF assms] show ?thesis by simp
qed

text \<open>C36: the line editor of the shell, on the running kernel. A thread of the shell is in the loop of \<open>main\<close> at the beginning of a line, with arbitrary contents of its
  64-byte buffer, while it is interrupted and the other threads do whatever they like. As long as no read has delivered Enter, the program has met no undefined
  behaviour, in particular no store outside the buffer, and its buffer and its unsigned index hold the edited text of the keys the reads have
  delivered: every key appended while there is room, the last one removed by backspace, nothing removed from an empty line. When the read has delivered Enter, the text has
  at most 63 characters, so that it and its terminator stay within the buffer, \<open>dispatch\<close> gets exactly this text (up to a typed null
  character), and the editor starts the next line empty.\<close>

theorem shell_line_editor:
  assumes "utrace p t (s, Running (shell_rounds m (line, 0))) tr (s', u)" "length line = 64"
  shows "((\<forall>c \<in> set (keys_read tr). \<not> is_enter c) \<longrightarrow>
      program u \<noteq> Undef \<and> editing (foldl edit [] (keys_read tr)) (program u)) \<and>
    (\<forall>tr0 r e bs. tr = tr0 @ [(URead 1, r, e # bs)] \<and> sint r > 0 \<and> is_enter e \<and> (\<forall>c \<in> set (keys_read tr0). \<not> is_enter c) \<longrightarrow>
      length (foldl edit [] (keys_read tr0)) \<le> 63 \<and>
      (\<exists>line' k. length line' = 64 \<and> program u =
         useq (uwrite [CHR 0x0D, CHR 0x0A]) (useq (dispatch (c_line (foldl edit [] (keys_read tr0)))) (useq prompt (shell_rounds k (line', 0))))))"
proof (intro conjI allI impI)
  have T: "after (shell_rounds m (line, 0)) tr = Some (program u)" "reads_store tr" using utrace_after [OF assms(1)] by simp_all
  have E: "editing [] (shell_rounds m (line, 0))" by (rule editing_start [OF holds_empty [OF assms(2)]])
  show ed: "editing (foldl edit [] (keys_read tr)) (program u)" if "\<forall>c \<in> set (keys_read tr). \<not> is_enter c"
    by (rule editing_after [OF E T that])
  show "program u \<noteq> Undef" if "\<forall>c \<in> set (keys_read tr). \<not> is_enter c" by (rule editing_defined [OF ed [OF that]])
  fix tr0 r e bs
  assume a: "tr = tr0 @ [(URead 1, r, e # bs)] \<and> sint r > 0 \<and> is_enter e \<and> (\<forall>c \<in> set (keys_read tr0). \<not> is_enter c)"
  then have "Option.bind (after (shell_rounds m (line, 0)) tr0) (\<lambda>P. after P [(URead 1, r, e # bs)]) = Some (program u)" "reads_store tr0"
    using T by (simp_all add: after_append)
  then obtain P where P: "after (shell_rounds m (line, 0)) tr0 = Some P" "after P [(URead 1, r, e # bs)] = Some (program u)" "reads_store tr0"
    by (auto simp: bind_eq_Some_conv simp del: after.simps)
  have "editing (foldl edit [] (keys_read tr0)) P" using editing_after [OF E P(1,3)] a by blast
  from editing_enter [OF this P(2)] a show "\<exists>line' k. length line' = 64 \<and> program u =
      useq (uwrite [CHR 0x0D, CHR 0x0A]) (useq (dispatch (c_line (foldl edit [] (keys_read tr0)))) (useq prompt (shell_rounds k (line', 0))))"
    by blast
  show "length (foldl edit [] (keys_read tr0)) \<le> 63" by (rule edited_length) simp
qed

text \<open>A read that finds a byte in the ring, when no reschedule is pending.\<close>

lemma read_run_exists:
  assumes tr: "utrace p t z tr (s, Running (Call (URead 1) k))" and r: "reachable p s"
    and c: "current s = Some t" "cpu s = ToUser x" "\<not> need_reschedule s" and rx: "rx_contents (rx s) = ch # cs"
  shows "\<exists>s' y. utrace p t z (tr @ [(URead 1, 1, [ch])]) (s', Running (k (1, [ch]))) \<and> reachable p s' \<and>
    current s' = Some t \<and> cpu s' = ToUser y \<and> \<not> need_reschedule s' \<and> rx_contents (rx s') = cs"
proof -
  let ?x = "call_ctx 0 0 0" and ?i = "t div 2"
  let ?y = "usys_read 0 0x40000000 1 ?x"
  have x: "length (ec_r ?x) = 13" "user_ctx ?y" by (simp_all add: user_ctx_def usys_read_def call_ctx_def)
  let ?s1 = "s\<lparr>cpu := ToUser ?y\<rparr>"
  have st1: "kstep s (UserRun [] ?y (sp_usr s) (lr_usr s)) ?s1"
    using kstep.user [OF c(2) x(2), of "[]" s "sp_usr s" "lr_usr s"] by simp
  then have r1: "reachable p ?s1" by (rule reachable_step [OF r])
  have k1: "kernel_layout p ?s1" "core_inv ?s1" using reachable_inv(1) [OF r1] by (simp_all add: kinv_def)
  have cur: "current ?s1 = Some t" using c(1) by simp
  have v: "valid_user_ptr 0x40000000 1" by (simp add: valid_user_ptr_nat)
  from sys_read_spec [OF user_access_current [OF k1 cur] core_invD(5) [OF k1(2) cur] v, of 0 "ec_r ?y ! 3"] rx
  obtain q mem where q: "sys_read 0 0x40000000 1 (ec_r ?y ! 3) ?s1 = (Ret 1, ?s1\<lparr>rx := q, pmem := mem\<rparr>)"
    "rx_contents q = cs" "user_bytes p ?i (?s1\<lparr>rx := q, pmem := mem\<rparr>) 0x40000000 1 = [ch]"
    by auto
  let ?s2 = "?s1\<lparr>rx := q, pmem := mem, cpu := ToUser (set_r0 1 ?y)\<rparr>"
  have "handle_svc ?y ?s1 = schedule (ToUser (set_r0 1 ?y)) (?s1\<lparr>rx := q, pmem := mem\<rparr>)"
    using q(1) by (simp add: handle_svc_def dispatch_answered answered_def handler_result_def syscall_table_eq wrapper_defs call_ctx_def)
  also have "\<dots> = ?s2" using c(3) by (simp add: schedule_idle)
  finally have svc: "kstep ?s1 Svc ?s2" using kstep.svc [of ?s1 ?y] by simp
  have u1: "utrace p t z tr (?s1, Running (Call (URead 1) k))"
    by (rule utrace.silent [OF tr ustep.computes [OF c(1) st1]]) simp
  have "ustep p t (?s1, Running (Call (URead 1) k)) (?s2, InCall (URead 1) 0x40000000 k)"
    using c(1) x(1) v by (intro ustep.calls [OF _ _ _ _ _ svc, where x = ?x]) simp_all
  then have u2: "utrace p t z tr (?s2, InCall (URead 1) 0x40000000 k)" by (rule utrace.silent [OF u1]) simp
  have "utrace p t z (tr @ [(URead 1, 1, [ch])]) (?s2, Running (k (1, [ch])))"
    by (rule utrace.answer [OF u2, of "set_r0 1 ?y"])
      (use c(1) q(3) in \<open>simp_all add: set_r0_def usys_read_def call_ctx_def user_bytes_def\<close>)
  then show ?thesis
    using reachable_step [OF r1 svc] c(1,3) q(2) by (intro exI [of _ ?s2] exI [of _ "set_r0 1 ?y"]) simp
qed

text \<open>A booted system that has received two bytes which nobody has read.\<close>

lemma typed_before_read:
  "\<exists>s x. reachable Qemu s \<and> current s = Some 0 \<and> cpu s = ToUser x \<and> \<not> need_reschedule s \<and> rx_contents (rx s) = [a, b]"
proof -
  obtain co mem tb where r: "reachable Qemu (booted Qemu sample_link sample_images co mem tb)" (is "reachable Qemu ?s") using booted_reachable by blast
  let ?q = "uart_rx_push b (uart_rx_push a uart_rx_init)"
  have inv: "rx_invar uart_rx_init" using reachable_inv(1) [OF r] core_invD(5) [of ?s 0] by (simp add: kinv_def)
  have q: "rx_contents ?q = [a, b]"
    using rx_push_contents [OF inv, of a] rx_push_contents [of "uart_rx_push a uart_rx_init" b] by simp
  have "kstep ?s (Irq 44 [a, b]) (handle_irq 44 [a, b] (first_ctx USER_VIRT_BASE 0) ?s)" by (rule kstep.irq) simp
  moreover have "waitq_pop waitq_init = (None, waitq_init)" by (simp add: waitq_pop_def waitq_init_def)
  then have "handle_irq 44 [a, b] (first_ctx USER_VIRT_BASE 0) ?s =
      ?s\<lparr>rx := ?q, waitq := waitq_init, eois := eois ?s @ [44], cpu := ToUser (first_ctx USER_VIRT_BASE 0)\<rparr>"
    by (simp add: handle_irq_def irq_dispatch_def run_handler_def uart_rx_irq_def scheduler_wake_reader.simps irq_lines_def board_defs
        kernel_const schedule_idle)
  ultimately show ?thesis using reachable_step [OF r] q by fastforce
qed

theorem shell_line_editor_witness:
  "\<exists>s s' tr u. reachable Qemu s \<and> utrace Qemu 0 (s, Running (shell_rounds 2 (replicate 64 (CHR ''z''), 0))) tr (s', u) \<and>
     keys_read tr = [CHR 0x7F, CHR 0x0D] \<and>
     (\<exists>line' k. program u = useq (uwrite [CHR 0x0D, CHR 0x0A]) (useq (dispatch []) (useq prompt (shell_rounds k (line', 0)))))"
proof -
  let ?ed = "(replicate 64 (CHR ''z''), 0 :: u32)"
  obtain s x where s: "reachable Qemu s" "current s = Some 0" "cpu s = ToUser x" "\<not> need_reschedule s"
    "rx_contents (rx s) = [CHR 0x7F, CHR 0x0D]" using typed_before_read by blast
  let ?z = "(s, Running (shell_rounds 2 ?ed))"
  have P: "shell_rounds 2 ?ed = Call (URead 1) (\<lambda>r. ubind (case r of (r, bs) \<Rightarrow> if sint r \<le> 0 then Finish ?ed
      else case bs of [] \<Rightarrow> Undef | c # _ \<Rightarrow> shell_key c ?ed) (shell_rounds 1))" (is "_ = Call _ ?k")
    by (simp add: numeral_2_eq_2 shell_round_def)
  have "utrace Qemu 0 ?z [] (s, Running (Call (URead 1) ?k))" unfolding P by (rule utrace.start)
  from read_run_exists [OF this s] obtain s1 x1 where s1: "utrace Qemu 0 ?z [(URead 1, 1, [CHR 0x7F])] (s1, Running (?k (1, [CHR 0x7F])))"
    "reachable Qemu s1" "current s1 = Some 0" "cpu s1 = ToUser x1" "\<not> need_reschedule s1" "rx_contents (rx s1) = [CHR 0x0D]" by auto
  let ?k1 = "\<lambda>r :: answer. ubind (case r of (r, bs) \<Rightarrow> if sint r \<le> 0 then Finish ?ed
      else case bs of [] \<Rightarrow> Undef | c # _ \<Rightarrow> shell_key c ?ed) (shell_rounds 0)"
  have "?k (1, [CHR 0x7F]) = Call (URead 1) ?k1" by (simp add: shell_key_def shell_round_def)
  with s1(1) have "utrace Qemu 0 ?z [(URead 1, 1, [CHR 0x7F])] (s1, Running (Call (URead 1) ?k1))" by simp
  from read_run_exists [OF this s1(2-6)] obtain s2 where
    s2: "utrace Qemu 0 ?z [(URead 1, 1, [CHR 0x7F]), (URead 1, 1, [CHR 0x0D])] (s2, Running (?k1 (1, [CHR 0x0D])))" by auto
  let ?tr0 = "[(URead 1, 1, [CHR 0x7F])] :: (uact \<times> answer) list"
  have keys: "keys_read ?tr0 = [CHR 0x7F]" "keys_read (?tr0 @ [(URead 1, 1, [CHR 0x0D])]) = [CHR 0x7F, CHR 0x0D]"
    by (simp_all add: key_of_def)
  have h: "[(URead 1, 1, [CHR 0x7F]), (URead 1, 1, [CHR 0x0D])] = ?tr0 @ [(URead 1, 1, CHR 0x0D # [])] \<and> sint (1 :: u32) > 0 \<and>
      is_enter (CHR 0x0D) \<and> (\<forall>c \<in> set (keys_read ?tr0). \<not> is_enter c)"
    unfolding keys(1) by (simp add: is_enter_def)
  have "\<exists>line' k. length line' = 64 \<and> program (Running (?k1 (1, [CHR 0x0D]))) =
      useq (uwrite [CHR 0x0D, CHR 0x0A]) (useq (dispatch (c_line (foldl edit [] (keys_read ?tr0)))) (useq prompt (shell_rounds k (line', 0))))"
    using conjunct2 [OF shell_line_editor [OF s2], rule_format, OF _ h] by simp
  moreover have "c_line (foldl edit [] [CHR 0x7F]) = []" by (simp add: edit_def c_line_def)
  ultimately have "\<exists>line' k. program (Running (?k1 (1, [CHR 0x0D]))) =
      useq (uwrite [CHR 0x0D, CHR 0x0A]) (useq (dispatch []) (useq prompt (shell_rounds k (line', 0))))"
    unfolding keys(1) by metis
  then show ?thesis
    using s(1) s2 keys(2) by (intro exI [of _ s] exI [of _ s2] exI [of _ "?tr0 @ [(URead 1, 1, [CHR 0x0D])]"] exI [of _ "Running (?k1 (1, [CHR 0x0D]))"]) simp
qed

section \<open>crash\<close>

text \<open>Both threads of process \<open>i\<close> are dead; if one of them is still current, the kernel is about to stop or has stopped.\<close>

definition stopped :: "nat \<Rightarrow> kstate \<Rightarrow> bool" where
  "stopped i s \<longleftrightarrow> (\<forall>u < 6. u div 2 = i \<longrightarrow> state_of s u = TASK_DEAD \<and> (current s = Some u \<longrightarrow> cpu s = AfterFault \<or> cpu s = Halted))"

lemma gone_stopped: "gone i s \<Longrightarrow> stopped i s"
  by (simp add: gone_def stopped_def)

lemma stopped_step:
  assumes "kstep s e s'" "kinv p s" "stopped i s"
  shows "stopped i s'"
proof -
  obtain c where c: "current s = Some c" "c < 6" using assms(2) by (metis kinvD)
  show ?thesis
  proof (cases "c div 2 = i")
    case False
    then have "gone i s" using assms(3) c(1) by (auto simp: gone_def stopped_def)
    then show ?thesis using gone_step [OF assms(1,2)] gone_stopped by blast
  next
    case True
    then have "cpu s = AfterFault \<or> cpu s = Halted" using assms(3) c by (auto simp: stopped_def)
    then have "s' = user_fault_panic s" using assms(1) by (auto elim: kstep.cases)
    then show ?thesis using assms(3) by (auto simp: stopped_def user_fault_panic_def halt_forever_def)
  qed
qed

lemma fault_stops:
  assumes k: "kinv p s" and st: "kstep s e s'" "is_fault e" and cur: "current s = Some c"
  shows "stopped (c div 2) s'"
proof -
  from fault_shape [OF k st cur] obtain s1 where s1: "s' = schedule AfterFault s1" "keeps p c s s1" "sched_arg c AfterFault s1" "retired c s s1"
    by blast
  have P: "kernel_layout p s1" "core_inv s1" "current s1 = Some c" "need_reschedule s1"
    using s1(2,3) by (simp_all add: keeps_def sched_arg_def)
  have c: "c < 6" using core_invD(1) [OF P(2,3)] .
  have d: "state_of s1 u = TASK_DEAD" if "u < 6" "u div 2 = c div 2" for u using s1(4) that by (simp add: retired_def)
  from P(1-3) show ?thesis
  proof (cases rule: schedule_cases [where k = AfterFault])
    case (switch t)
    let ?s = "s1\<lparr>need_reschedule := False, wake_hint := None\<rparr>"
    have ct: "c < length (threads ?s)" "t < length (threads ?s)" "c \<noteq> t"
      using switch c layout_lengths [OF P(1)] by auto
    have "t div 2 \<noteq> c div 2" using d [OF switch(1)] switch(3) by (auto simp: runnable_def)
    then show ?thesis
      using d switch(6) perform_switch_threads [OF ct, of AfterFault] c unfolding s1(1) by (auto simp: stopped_def)
  next
    case stay
    then show ?thesis using d unfolding s1(1) by (simp add: stopped_def)
  qed (use P(4) in simp)
qed

text \<open>No user store to the null page succeeds.\<close>

lemma null_faults: "reachable p s \<Longrightarrow> translate (active_table s) Usr w 0 = None"
proof -
  assume r: "reachable p s"
  obtain c where "current s = Some c" "kernel_layout p s" "core_inv s" using reachable_inv(1) [OF r] by (metis kinvD)
  then obtain old where "active_table s = proc_table p (c div 2) old" using active_table_current by blast
  then show ?thesis by (simp add: proc_table_user kernel_const)
qed

text \<open>C34: \<open>crash\<close> takes down the shell and nothing comes back. A thread executes a line whose first word is \<open>crash\<close>, which stores through a null pointer, while
  the rest of the system does whatever it likes. The command never returns; and from the moment the store has been attempted, both threads of the
  process are dead, and the thread that crashed does not run again (if no other thread could run, the kernel stops).\<close>

theorem shell_crash_contained:
  assumes "reachable p s" "usteps p t (s, Running (dispatch line)) (s', u)" "c_string line" "first_word line = ''crash''"
  shows "u \<noteq> Running (Finish ()) \<and>
    (\<forall>a v buf k. u = InCall (UStore a v) buf k \<longrightarrow>
       (\<forall>j < 6. j div 2 = t div 2 \<longrightarrow> state_of s' j = TASK_DEAD \<and> (current s' = Some j \<longrightarrow> cpu s' = AfterFault \<or> cpu s' = Halted)))"
proof -
  let ?m = "''crash: about to NULL-deref '' @ em_dash @ '' kernel should survive\<newline>''"
  let ?k2 = "\<lambda>_::answer. Finish ()" and ?st = "UStore 0 0xDEADBEEF"
  let ?k1 = "\<lambda>_::answer. Call ?st ?k2"
  let ?P = "Call (UWrite ?m) ?k1"
  let ?I = "\<lambda>s u. u = Running ?P \<or> (\<exists>buf. u = InCall (UWrite ?m) buf ?k1) \<or> u = Running (Call ?st ?k2) \<or> (u = InCall ?st 0 ?k2 \<and> stopped (t div 2) s)"
  have P: "dispatch line = ?P"
    using dispatch_command [OF assms(3)] assms(4) by (simp add: command_def cmd_crash_def uwrite_def)
  have step: "?I s2 u2" if r: "reachable p s1" and I: "?I s1 u1" and st: "ustep p t (s1, u1) (s2, u2)" for s1 u1 s2 u2
  proof (cases "u1 = InCall ?st 0 ?k2")
    case True
    then have d: "stopped (t div 2) s1" using I by auto
    have t6: "current s1 = Some t \<Longrightarrow> t < 6" using reachable_inv(1) [OF r] by (metis kinvD option.inject)
    from st have "u2 = u1" using True d t6 by cases (auto simp: stopped_def)
    then show ?thesis using True d ustep_kstep [OF st] stopped_step reachable_inv(1) [OF r] by blast
  next
    case False
    note null = null_faults [OF r]
    from st show ?thesis
    proof cases
      case (faults a fs v k)
      have "stopped (t div 2) s2" using fault_stops [OF reachable_inv(1) [OF r] faults(5) _ faults(3)] by simp
      then show ?thesis using I False faults by auto
    next
      case (stores a v x sp lr k)
      then show ?thesis using I False null by (auto elim!: kstep_userE)
    qed (use I False in auto)
  qed
  have "reachable p s' \<and> ?I s' u"
    by (rule usteps_invariant [OF assms(2) [unfolded P] assms(1), where I = ?I]) (use step in simp_all)
  then show ?thesis by (auto simp: stopped_def)
qed

section \<open>Messages\<close>

lemma call_user_ctx:
  assumes "kinv p s" "current s = Some c" "cpu s = ToUser (usys_write fd buf n x)" "length (ec_r x) = 13"
  shows "user_ctx x"
  using assms by (auto simp: kinv_def fits_cpu_def user_ctx_def usys_write_def)

lemma write_svc_console:
  assumes "kinv p s" "current s = Some c" "cpu s = ToUser (usys_write fd buf (of_nat (length bs)) x)" "length (ec_r x) = 13"
    and "buffer_ready p (c div 2) s (UWrite bs) buf"
  shows "console_out (handle_svc (usys_write fd buf (of_nat (length bs)) x) s) = console_out s @ console_bytes bs"
proof -
  have "unat (of_nat (length bs) :: u32) = length bs" using assms(5) by (simp add: unat_u32_of_nat)
  then show ?thesis
    using usys_write_svc [OF assms(1,2) call_user_ctx [OF assms(1-4)], of buf "of_nat (length bs)" fd] assms(5) by simp
qed

lemma write_runs:
  assumes "usteps p t (s, Running (Call (UWrite bs) k)) (s', u)" "reachable p s"
  shows "u = Running (Call (UWrite bs) k) \<or> (\<exists>pre post. console_out s' = console_out s @ pre @ console_bytes bs @ post)"
proof -
  let ?done = "\<lambda>s1. \<exists>pre. grew (console_out s @ pre @ console_bytes bs) s1"
  let ?I = "\<lambda>s1 u. (u = Running (Call (UWrite bs) k) \<and> grew (console_out s) s1) \<or> ?done s1"
  have step: "?I s2 u2" if r: "reachable p s1" and I: "?I s1 u1" and st: "ustep p t (s1, u1) (s2, u2)" for s1 u1 s2 u2
  proof (cases "?done s1")
    case True
    then show ?thesis using ustep_kstep [OF st] kstep_grew by blast
  next
    case False
    with I have u1: "u1 = Running (Call (UWrite bs) k)" "grew (console_out s) s1" by auto
    from st show ?thesis
      unfolding u1(1)
    proof cases
      case (calls y buf x)
      then have y: "y = usys_write 1 buf (of_nat (length bs)) x" "s2 = handle_svc y s1" by (auto elim: kstep_svcE)
      obtain pre where "console_out s1 = console_out s @ pre" using u1(2) by (auto simp: grew_def)
      then have "console_out s2 = (console_out s @ pre @ console_bytes bs) @ []"
        using write_svc_console [OF reachable_inv(1) [OF r] calls(2)] calls(3,5,6) y by simp
      then show ?thesis unfolding grew_def by blast
    qed (use u1(2) kstep_grew in auto)
  qed
  have "reachable p s' \<and> ?I s' u" by (rule usteps_invariant [OF assms, where I = ?I]) (use step in auto)
  then show ?thesis by (auto simp: grew_def)
qed

text \<open>C35: a message reaches the console in one piece, however the system is loaded. A thread executes \<open>ulib_printf\<close> while it is interrupted at any
  point and the other threads, its sibling included, do whatever they like. When the function has returned, the console shows the first 192 characters of the
  message, uninterrupted by anything else, after what it showed before.\<close>

theorem printf_reaches_console:
  assumes "umessage fmt ap = Some m" "m \<noteq> []" "reachable p s"
    and "usteps p t (s, Running (ulib_printf fmt ap)) (s', Running (Finish ()))"
  shows "\<exists>pre post. console_out s' = console_out s @ pre @ console_bytes (take 192 m) @ post"
proof -
  have "ulib_printf fmt ap = Call (UWrite (take 192 m)) (\<lambda>_. Finish ())"
    using ulib_format_message [of "[]" fmt ap] assms(1,2) by (simp add: ulib_printf_def ULIB_LINE_MAX_def uwrite_def)
  then show ?thesis using write_runs [of p t s "take 192 m" _ s' "Running (Finish ())"] assms(3,4) by auto
qed

section \<open>Runs that exist\<close>

text \<open>A write whose buffer is ready, when no reschedule is pending: the thread sets up the registers, traps, and is back.\<close>

lemma write_run_exists:
  assumes r: "reachable p s" and c: "current s = Some t" "cpu s = ToUser x" "\<not> need_reschedule s"
    and b: "buffer_ready p (t div 2) s (UWrite bs) buf"
  shows "\<exists>s' y. usteps p t (s, Running (Call (UWrite bs) k)) (s', Running (k (of_nat (length bs), []))) \<and>
    reachable p s' \<and> current s' = Some t \<and> cpu s' = ToUser y \<and> console_out s' = console_out s @ console_bytes bs"
proof -
  let ?n = "of_nat (length bs) :: u32" and ?x = "call_ctx 0 0 0"
  let ?y = "usys_write 1 buf ?n ?x"
  have x: "length (ec_r ?x) = 13" "user_ctx ?x" "user_ctx ?y" by (simp_all add: user_ctx_def usys_write_def call_ctx_def)
  let ?s1 = "s\<lparr>cpu := ToUser ?y\<rparr>"
  have st1: "kstep s (UserRun [] ?y (sp_usr s) (lr_usr s)) ?s1"
    using kstep.user [OF c(2) x(3), of "[]" s "sp_usr s" "lr_usr s"] by simp
  then have r1: "reachable p ?s1" by (rule reachable_step [OF r])
  have b1: "buffer_ready p (t div 2) ?s1 (UWrite bs) buf" using b by (simp add: user_bytes_def)
  then have n: "unat ?n = length bs" by (simp add: unat_u32_of_nat)
  let ?s2 = "(kputs bs ?s1)\<lparr>cpu := ToUser (set_r0 ?n ?y)\<rparr>"
  have "handle_svc ?y ?s1 = schedule (ToUser (set_r0 ?n ?y)) (kputs bs ?s1)"
    using usys_write_svc [OF reachable_inv(1) [OF r1] _ x(2), of t buf ?n 1] b1 n c(1) by simp
  also have "\<dots> = ?s2" using c(1,3) by (simp add: schedule_def)
  finally have svc: "kstep ?s1 Svc ?s2" using kstep.svc [of ?s1 ?y] by simp
  have 1: "ustep p t (s, Running (Call (UWrite bs) k)) (?s1, Running (Call (UWrite bs) k))"
    using st1 c(1) by (intro ustep.computes)
  have 2: "ustep p t (?s1, Running (Call (UWrite bs) k)) (?s2, InCall (UWrite bs) buf k)"
    using c(1) x(1) b1 by (intro ustep.calls [OF _ _ _ _ _ svc, where x = ?x]) simp_all
  have 3: "ustep p t (?s2, InCall (UWrite bs) buf k) (?s2, Running (k (?n, [])))"
    using ustep.returns [of ?s2 t "set_r0 ?n ?y" p "UWrite bs" buf k] c(1) by (simp add: set_r0_def usys_write_def call_ctx_def)
  show ?thesis
    using usteps.more [OF usteps.more [OF usteps.more [OF usteps.none 1] 2] 3] reachable_step [OF r1 svc] c(1)
    by (intro exI [of _ ?s2] exI [of _ "set_r0 ?n ?y"]) (simp add: kputs_def)
qed

text \<open>A booted system whose first program starts with the given bytes.\<close>

lemma booted_with:
  assumes "length bs \<le> 0x100000"
  shows "\<exists>s x. reachable Qemu s \<and> current s = Some 0 \<and> cpu s = ToUser x \<and> \<not> need_reschedule s \<and> buffer_ready Qemu 0 s (UWrite bs) 0x40000000"
proof -
  let ?imgs = "[bs, [], []]"
  have im: "images_ok ?imgs" using assms by (simp add: images_ok_def)
  from boot_reaches [OF sample_link_ok im, of Qemu "[]" "[]" 0 0 "\<lambda>_. CHR 0x00"] obtain co mem tb where
    b: "boot Qemu sample_link ?imgs [] [] 0 0 (\<lambda>_. CHR 0x00) = Some (booted Qemu sample_link ?imgs co mem tb)"
      "slots_loaded Qemu ?imgs mem" by blast
  let ?s = "booted Qemu sample_link ?imgs co mem tb"
  have "reachable Qemu ?s" unfolding reachable_def using sample_link_ok im b(1) ksteps.stop by blast
  moreover have "valid_user_ptr 0x40000000 (of_nat (length bs))"
    using assms by (simp add: valid_user_ptr_nat unat_u32_of_nat)
  ultimately show ?thesis
    using booted_image [OF b(2) im, of 0 sample_link co tb] assms by (intro exI [of _ ?s]) auto
qed

theorem printf_reaches_console_witness:
  "\<exists>s s'. reachable Qemu s \<and> usteps Qemu 0 (s, Running (ulib_printf ''%u'' [ArgInt 17])) (s', Running (Finish ())) \<and>
     (\<exists>pre post. console_out s' = console_out s @ pre @ ''17'' @ post)"
proof -
  have m: "umessage ''%u'' [ArgInt 17] = Some ''17''"
    by (simp add: emit_def uart_print_dec_def dec_buf_pos) code_simp
  then have P: "ulib_printf ''%u'' [ArgInt 17] = Call (UWrite ''17'') (\<lambda>_. Finish ())"
    using ulib_format_message [of "[]" "''%u''" "[ArgInt 17]"] by (simp add: ulib_printf_def ULIB_LINE_MAX_def uwrite_def)
  obtain s x where s: "reachable Qemu s" "current s = Some 0" "cpu s = ToUser x" "\<not> need_reschedule s"
    "buffer_ready Qemu (0 div 2) s (UWrite ''17'') 0x40000000"
    using booted_with [of "''17''"] by auto
  obtain s' where run: "usteps Qemu 0 (s, Running (ulib_printf ''%u'' [ArgInt 17])) (s', Running (Finish ()))"
    using write_run_exists [OF s, of "\<lambda>_. Finish ()"] P by auto
  have "console_bytes (take 192 ''17'') = ''17''" by (simp add: console_bytes_def uart_putc_def)
  then show ?thesis using printf_reaches_console [OF m _ s(1) run] s(1) run by (intro exI [of _ s] exI [of _ s']) simp
qed

theorem shell_crash_contained_witness:
  "\<exists>s s' k. reachable Qemu s \<and> usteps Qemu 0 (s, Running (dispatch ''crash'')) (s', InCall (UStore 0 0xDEADBEEF) 0 k) \<and>
     state_of s' 0 = TASK_DEAD \<and> state_of s' 1 = TASK_DEAD"
proof -
  let ?m = "''crash: about to NULL-deref '' @ em_dash @ '' kernel should survive\<newline>''"
  let ?k2 = "\<lambda>_::answer. Finish ()"
  let ?k1 = "\<lambda>_::answer. Call (UStore 0 0xDEADBEEF) ?k2"
  have line: "c_string ''crash''" "first_word ''crash'' = ''crash''" by code_simp+
  then have P: "dispatch ''crash'' = Call (UWrite ?m) ?k1"
    using dispatch_command [OF line(1)] by (simp add: command_def cmd_crash_def uwrite_def)
  obtain s x where s: "reachable Qemu s" "current s = Some 0" "cpu s = ToUser x" "\<not> need_reschedule s"
    "buffer_ready Qemu (0 div 2) s (UWrite ?m) 0x40000000"
    using booted_with [of ?m] by (auto simp: em_dash_def)
  obtain s1 y where s1: "usteps Qemu 0 (s, Running (dispatch ''crash'')) (s1, Running (Call (UStore 0 0xDEADBEEF) ?k2))"
    "reachable Qemu s1" "current s1 = Some 0" "cpu s1 = ToUser y"
    using write_run_exists [OF s, of ?k1] P by auto
  have st: "kstep s1 (DataAbort 5 0) (handle_data_abort 5 0 y s1)" using s1(4) by (rule kstep.data_abort)
  have "ustep Qemu 0 (s1, Running (Call (UStore 0 0xDEADBEEF) ?k2)) (handle_data_abort 5 0 y s1, InCall (UStore 0 0xDEADBEEF) 0 ?k2)"
    by (rule ustep.faults [OF s1(3) null_faults [OF s1(2)] st])
  from usteps.more [OF s1(1) this] have run: "usteps Qemu 0 (s, Running (dispatch ''crash''))
      (handle_data_abort 5 0 y s1, InCall (UStore 0 0xDEADBEEF) 0 ?k2)" .
  from shell_crash_contained [OF s(1) run line] have "state_of (handle_data_abort 5 0 y s1) 0 = TASK_DEAD"
    "state_of (handle_data_abort 5 0 y s1) 1 = TASK_DEAD" by auto
  with s(1) run show ?thesis by blast
qed

end
