(* ===== verification/Kernel_Streams.thy ===== *)
theory Kernel_Streams
  imports Sample_Runs Kernel_Static "HOL-Library.Sublist"
begin

text \<open>
  Input and time along whole runs: the bytes that the UART delivers, as they pass through the ring into the buffers of the readers, and
  the tick counter.

  Each step of the system is looked at from outside: \<open>arrived\<close> is what the interrupts bring, \<open>accepted\<close> what the ring has room for of it (\<open>uart_rx_push\<close>
  drops the rest), \<open>delivered\<close> what the thread that
  executes \<open>sys_read\<close> finds in its buffer afterwards. The theorems say that the ring is a pipe between the two, and that the counter
  counts the interrupts of the timer.
\<close>

section \<open>What goes in and out\<close>

definition timer_event :: "platform \<Rightarrow> event \<Rightarrow> bool" where
  "timer_event p e = (case e of Irq n bs \<Rightarrow> n = IRQ_TIMER (board_of p) | _ \<Rightarrow> False)"

text \<open>Of a burst, the ring takes what fits its 127 places.\<close>

definition accepted :: "platform \<Rightarrow> kstate \<Rightarrow> event \<Rightarrow> string" where
  "accepted p s e =
     (case e of
        Irq n bs \<Rightarrow> if n = IRQ_UART0 (board_of p) then take (127 - length (rx_contents (rx s))) bs else []
      | _ \<Rightarrow> [])"

fun arrived :: "platform \<Rightarrow> event list \<Rightarrow> string" where
  "arrived p [] = []"
| "arrived p (Irq n bs # es) = (if n = IRQ_UART0 (board_of p) then bs else []) @ arrived p es"
| "arrived p (_ # es) = arrived p es"

text \<open>The buffer and the length of the \<open>sys_read\<close> that a step executes: the call itself, or its continuation after a wait.\<close>

definition reading :: "kstate \<Rightarrow> event \<Rightarrow> (u32 \<times> u32) option" where
  "reading s e =
     (case (cpu s, e) of
        (ToUser x, Svc) \<Rightarrow> if ec_r x ! 7 = 4 then Some (ec_r x ! 1, ec_r x ! 2) else None
      | (InSysRead x, KernelResume) \<Rightarrow> Some (ec_r x ! 1, ec_r x ! 2)
      | _ \<Rightarrow> None)"

definition delivered :: "platform \<Rightarrow> kstate \<Rightarrow> event \<Rightarrow> kstate \<Rightarrow> string" where
  "delivered p s e s' =
     (case (current s, reading s e) of
        (Some c, Some (a, len)) \<Rightarrow>
          if valid_user_ptr a len then user_bytes p (c div 2) s' a (min (unat len) (length (rx_contents (rx s)))) else []
      | _ \<Rightarrow> [])"

inductive input_run :: "platform \<Rightarrow> kstate \<Rightarrow> event list \<Rightarrow> kstate \<Rightarrow> string \<Rightarrow> string \<Rightarrow> bool" for p where
  stop: "input_run p s [] s [] []"
| more: "kstep s e s' \<Longrightarrow> input_run p s' es s'' ins outs \<Longrightarrow>
    input_run p s (e # es) s'' (accepted p s e @ ins) (delivered p s e s' @ outs)"

section \<open>The two frames\<close>

interpretation ring: kernel_frame "\<lambda>s. rx s = r" for r
  by unfold_locales auto

interpretation clock: kernel_frame_rx "\<lambda>s. tick_count s = n" for n
  by unfold_locales auto

lemma reachable_irq_table: "reachable p s \<Longrightarrow> irq_table s = irq_lines (board_of p)"
proof -
  assume "reachable p s"
  then obtain lk imgs date time cpsr sctlr ram s0 es where b: "link_ok lk" "images_ok imgs"
    "boot p lk imgs date time cpsr sctlr ram = Some s0" "ksteps s0 es s" unfolding reachable_def by blast
  from boot_reaches [OF b(1,2), of p date time cpsr sctlr ram] b(3) obtain co mem tb where
    "s0 = booted p lk imgs co mem tb" by auto
  then show ?thesis using static_partD(3) [OF ksteps_static [OF b(4)]] by simp
qed

lemma irq_line:
  assumes "n < MAX_IRQS"
  shows "irq_lines (board_of p) ! unat n =
    (if n = IRQ_UART0 (board_of p) then Some H_uart_rx_irq else if n = IRQ_TIMER (board_of p) then Some H_timer_irq else None)"
proof -
  have "unat n < 128" using assms by (simp add: word_less_nat_alt kernel_const)
  then show ?thesis
    by (cases p) (auto simp: irq_lines_def board_defs nth_list_update word_unat_eq_iff)
qed

section \<open>Time\<close>

lemma kstep_ticks:
  assumes "kstep s e s'" "irq_table s = irq_lines (board_of p)"
  shows "tick_count s' = tick_count s + (if timer_event p e then 1 else 0)"
  using assms(1)
proof cases
  case (irq x n bs)
  have "tick_count (irq_dispatch n bs s) = tick_count s + (if timer_event p e then 1 else 0)"
    using clock.uart_rx_irq_I [OF refl, of bs s] irq_line [of n p] assms(2) irq(1)
    by (cases p) (auto simp: irq_dispatch_def run_handler_def timer_irq_def timer_tick_def scheduler_tick_def timer_event_def Let_def
        board_defs kernel_const split: option.split timer_handler.split)
  then show ?thesis using clock.schedule_I [OF refl] irq by (simp add: handle_irq_def)
qed (use clock.svc_I [OF refl] clock.resume_read_I [OF refl] clock.handle_fault_I [OF refl] clock.fault_I [OF refl]
      clock.user_stores_I [OF refl] in \<open>auto simp: timer_event_def\<close>)

lemma ksteps_ticks:
  "ksteps s es s' \<Longrightarrow> irq_table s = irq_lines (board_of p) \<Longrightarrow>
   tick_count s' = tick_count s + of_nat (length (filter (timer_event p) es))"
proof (induction rule: ksteps.induct)
  case (more s e s' es s'')
  have "irq_table s' = irq_lines (board_of p)" using static_partD(3) [OF kstep_static [OF more.hyps(1)]] more.prems by simp
  then show ?case using more.IH kstep_ticks [OF more.hyps(1) more.prems] by simp
qed simp

section \<open>Input\<close>

lemma user_bytes_cong: "pmem s' = pmem s \<Longrightarrow> user_bytes p i s' a n = user_bytes p i s a n"
  by (simp add: user_bytes_def)

text \<open>A read on behalf of the current thread, with the handler that follows it.\<close>

lemma sys_read_stream:
  assumes l: "kernel_layout p s" "core_inv s" and cur: "current s = Some c" and v: "valid_user_ptr a len"
    and s': "s' = (case sys_read fd a len u s of
      (Ret v, s1) \<Rightarrow> schedule (k v) s1 | (Wait, s1) \<Rightarrow> scheduler_block_on_input k' s1 | (Abort, s1) \<Rightarrow> kernel_abort s1)"
  shows "rx_contents (rx s) = user_bytes p (c div 2) s' a (min (unat len) (length (rx_contents (rx s)))) @ rx_contents (rx s')"
proof -
  consider (zero) "len = 0" | (empty) "len \<noteq> 0" "rx_contents (rx s) = []" | (bytes) "len \<noteq> 0" "rx_contents (rx s) \<noteq> []" by blast
  then show ?thesis
  proof cases
    case zero
    then show ?thesis using s' by (simp add: sys_read_def user_bytes_def)
  next
    case empty
    have "uart_rx_empty (rx s)" using empty(2) core_invD(5) [OF l(2) cur] by (simp add: rx_empty_iff)
    then show ?thesis using empty s' sys_read_waits [OF v empty(1)] ring.block_I [OF refl] by (simp add: user_bytes_def)
  next
    case bytes
    from sys_read_spec [OF user_access_current [OF l cur] core_invD(5) [OF l(2) cur] v bytes, of fd u] obtain r mem where
      "sys_read fd a len u s = (Ret (of_nat (min (unat len) (length (rx_contents (rx s))))), s\<lparr>rx := r, pmem := mem\<rparr>)"
      "rx_contents r = drop (min (unat len) (length (rx_contents (rx s)))) (rx_contents (rx s))"
      "user_bytes p (c div 2) (s\<lparr>rx := r, pmem := mem\<rparr>) a (min (unat len) (length (rx_contents (rx s)))) =
        take (min (unat len) (length (rx_contents (rx s)))) (rx_contents (rx s))" by blast
    then show ?thesis using s' user_bytes_cong [of s' "s\<lparr>rx := r, pmem := mem\<rparr>"] by simp
  qed
qed

lemma svc_stream:
  assumes k: "kinv p s" and cur: "current s = Some c" and x: "cpu s = ToUser x"
  shows "rx_contents (rx s) = delivered p s Svc (handle_svc x s) @ rx_contents (rx (handle_svc x s))"
proof (cases "ec_r x ! 7 = 4")
  case False
  then have "rx (handle_svc x s) = rx s" by (intro ring.svc_ends_I ring.dispatch_not_read_I) simp_all
  then show ?thesis using False x cur by (simp add: delivered_def reading_def)
next
  case True
  then have d: "syscall_dispatch x s = (case sys_read (ec_r x ! 0) (ec_r x ! 1) (ec_r x ! 2) (ec_r x ! 3) s of
      (Ret v, s') \<Rightarrow> (Done (set_r0 v x), s') | (Wait, s') \<Rightarrow> (Waiting, s') | (Abort, s') \<Rightarrow> (Aborted, s'))"
    by (simp add: dispatch_handler handler_result_def syscall_table_eq)
  show ?thesis
  proof (cases "valid_user_ptr (ec_r x ! 1) (ec_r x ! 2)")
    case False
    then have "rx (snd (syscall_dispatch x s)) = rx s" by (simp add: d sys_read_def)
    then have "rx (handle_svc x s) = rx s" by (rule ring.svc_ends_I)
    then show ?thesis using False True x cur by (simp add: delivered_def reading_def)
  next
    case v: True
    have "kernel_layout p s" "core_inv s" using k by (simp_all add: kinv_def)
    moreover have "handle_svc x s = (case sys_read (ec_r x ! 0) (ec_r x ! 1) (ec_r x ! 2) (ec_r x ! 3) s of
        (Ret v, s1) \<Rightarrow> schedule (ToUser (set_r0 v x)) s1 | (Wait, s1) \<Rightarrow> scheduler_block_on_input (InSysRead x) s1
      | (Abort, s1) \<Rightarrow> kernel_abort s1)"
      by (simp add: handle_svc_def d split: prod.split sys_result.split)
    ultimately show ?thesis using True x cur v sys_read_stream [OF _ _ cur v] by (simp add: delivered_def reading_def)
  qed
qed

lemma resume_stream:
  assumes k: "kinv p s" and cur: "current s = Some c" and x: "cpu s = InSysRead x"
  shows "rx_contents (rx s) = delivered p s KernelResume (resume_read x s) @ rx_contents (rx (resume_read x s))"
proof -
  have l: "kernel_layout p s" "core_inv s" and rc: "read_ctx x" using k cur x by (auto simp: kinv_def fits_cpu_def)
  then have v: "valid_user_ptr (ec_r x ! 1) (ec_r x ! 2)" by (simp add: read_ctx_def)
  from sys_read_stream [OF l cur v resume_read_def [of x s, unfolded read_ctx_sys_read [OF rc, where fd = 0 and u = 0]]] show ?thesis
    using x cur v by (simp add: delivered_def reading_def)
qed

lemma irq_stream:
  assumes "rx_invar (rx s)" "irq_table s = irq_lines (board_of p)"
  shows "rx_contents (rx (handle_irq n bs x s)) = rx_contents (rx s) @ accepted p s (Irq n bs)"
proof -
  have w: "rx (uart_rx_irq bs s) = fold uart_rx_push bs (rx s)"
    unfolding uart_rx_irq_def by (rule ring.wake_reader_I) simp
  have "rx_contents (fold uart_rx_push bs (rx s)) = rx_contents (rx s) @ take (127 - length (rx_contents (rx s))) bs"
    using rxq.burst [OF assms(1) _ rx_contents_bound [OF assms(1)]] by simp
  then have "rx_contents (rx (irq_dispatch n bs s)) = rx_contents (rx s) @ accepted p s (Irq n bs)"
    using irq_line [of n p] assms(2) w
    by (cases p) (auto simp: irq_dispatch_def run_handler_def timer_irq_def timer_tick_def scheduler_tick_def accepted_def Let_def
        board_defs kernel_const split: option.split timer_handler.split)
  then show ?thesis using ring.schedule_I [OF refl] by (simp add: handle_irq_def)
qed

text \<open>Only a read takes bytes out, only an interrupt puts bytes in.\<close>

lemma no_reading [simp]: "reading s e = None \<Longrightarrow> delivered p s e s' = []"
  by (simp add: delivered_def split: option.split)

lemma kstep_stream:
  assumes st: "kstep s e s'" and k: "kinv p s" and t: "irq_table s = irq_lines (board_of p)"
  shows "rx_contents (rx s) @ accepted p s e = delivered p s e s' @ rx_contents (rx s')"
proof -
  obtain c where c: "current s = Some c" "core_inv s" using k by (metis kinvD)
  from st show ?thesis
  proof cases
    case (user x y ws s1 sp lr)
    then show ?thesis using ring.user_stores_I [OF refl user(5)] by (simp add: accepted_def reading_def)
  next
    case (svc x)
    then show ?thesis using svc_stream [OF k c(1)] by (simp add: accepted_def)
  next
    case (irq x n bs)
    then show ?thesis using irq_stream [OF core_invD(5) [OF c(2,1)] t] by (simp add: reading_def)
  next
    case (resume_read x)
    then show ?thesis using resume_stream [OF k c(1)] by (simp add: accepted_def)
  next
    case resume_fault
    then show ?thesis using ring.fault_I(4) [OF refl] by (simp add: accepted_def reading_def)
  qed (simp_all add: accepted_def reading_def ring.handle_fault_I [OF refl])
qed

lemma input_run_stream:
  "input_run p s es s' ins outs \<Longrightarrow> reachable p s \<Longrightarrow> rx_contents (rx s) @ ins = outs @ rx_contents (rx s')"
proof (induction rule: input_run.induct)
  case (more s e s' es s'' ins outs)
  have "rx_contents (rx s) @ accepted p s e = delivered p s e s' @ rx_contents (rx s')"
    by (rule kstep_stream [OF more.hyps(1) reachable_inv(1) [OF more.prems] reachable_irq_table [OF more.prems]])
  then show ?case using more.IH [OF reachable_step [OF more.prems more.hyps(1)]] by (metis append.assoc)
qed simp

lemma arrived_Cons: "arrived p (e # es) = arrived p [e] @ arrived p es"
  by (cases e) simp_all

lemma accepted_prefix: "accepted p s e = take (127 - length (rx_contents (rx s))) (arrived p [e])"
  by (cases e) (simp_all add: accepted_def)

lemma input_run_accepts: "input_run p s es s' ins outs \<Longrightarrow> subseq ins (arrived p es)"
proof (induction rule: input_run.induct)
  case (more s e s' es s'' ins outs)
  have "prefix (accepted p s e) (arrived p [e])" unfolding accepted_prefix by (rule take_is_prefix)
  then have "subseq (accepted p s e) (arrived p [e])" by (rule prefix_imp_subseq)
  then show ?case using more.IH unfolding arrived_Cons [of p e es] by (rule list_emb_append_mono)
qed simp

lemma input_run_all:
  "input_run p s es s' ins outs \<Longrightarrow> reachable p s \<Longrightarrow> length (rx_contents (rx s)) + length (arrived p es) \<le> 127 \<Longrightarrow> ins = arrived p es"
proof (induction rule: input_run.induct)
  case (more s e s' es s'' ins outs)
  have a: "accepted p s e = arrived p [e]"
    using more.prems(2) arrived_Cons [of p e es] unfolding accepted_prefix by simp
  have "rx_contents (rx s) @ accepted p s e = delivered p s e s' @ rx_contents (rx s')"
    by (rule kstep_stream [OF more.hyps(1) reachable_inv(1) [OF more.prems(1)] reachable_irq_table [OF more.prems(1)]])
  then have "length (rx_contents (rx s')) \<le> length (rx_contents (rx s)) + length (arrived p [e])" using a by (metis le_add2 length_append)
  then have "ins = arrived p es"
    using more.IH [OF reachable_step [OF more.prems(1) more.hyps(1)]] more.prems(2) arrived_Cons [of p e es] by simp
  then show ?case using a arrived_Cons [of p e es] by simp
qed simp

section \<open>Properties\<close>

text \<open>C17: accepted input is a stream. In any run of the system from any reachable state, with any readers, interrupts, faults and switches in
  between, what is in the ring at the start followed by the bytes the ring accepts is what the readers find in their buffers, in the order of the reads,
  followed by what is in the ring at the end: of the accepted bytes none is lost, none is delivered twice, none overtakes another. The accepted bytes are those of the
  arriving ones for which one of the 127 places of the ring is free; the others of a burst are dropped. They come in the order of their arrival, and as long as
  all that arrives fits the ring together with what is in it, every byte is accepted.\<close>

theorem input_is_a_stream:
  assumes "reachable p s" "input_run p s es s' ins outs"
  shows "rx_contents (rx s) @ ins = outs @ rx_contents (rx s') \<and> subseq ins (arrived p es) \<and>
    (length (rx_contents (rx s)) + length (arrived p es) \<le> 127 \<longrightarrow> ins = arrived p es)"
  using input_run_stream [OF assms(2,1)] input_run_accepts [OF assms(2)] input_run_all [OF assms(2,1)] by blast

theorem input_is_a_stream_witness:
  "\<exists>s s' x sp lr. reachable Qemu s \<and> input_run Qemu s [Irq 44 ''a'', UserRun [] x sp lr, Svc] s' ''a'' ''a'' \<and> rx_contents (rx s') = []"
proof -
  obtain co mem tb where s0: "reachable Qemu (booted Qemu sample_link sample_images co mem tb)" (is "reachable Qemu ?s0")
    using booted_reachable by blast
  let ?x = "first_ctx USER_VIRT_BASE 0"
  define s1 where "s1 = handle_irq 44 ''a'' ?x ?s0"
  have st1: "kstep ?s0 (Irq 44 ''a'') s1" unfolding s1_def by (rule kstep.irq) simp
  have line: "irq_lines qemu_board ! 44 = Some H_uart_rx_irq" by (simp add: irq_lines_def qemu_board_def)
  have wake: "scheduler_wake_reader (?s0\<lparr>rx := r\<rparr>) = ?s0\<lparr>rx := r\<rparr>" for r
    by (subst scheduler_wake_reader.simps) (simp add: waitq_pop_def waitq_init_def)
  have a: "accepted Qemu ?s0 (Irq 44 ''a'') = ''a''" by (simp add: accepted_def qemu_board_def rx_init_contents)
  have "irq_dispatch 44 ''a'' ?s0 = ?s0\<lparr>rx := uart_rx_push CHR ''a'' (rx ?s0), eois := eois ?s0 @ [44]\<rparr>"
    by (simp add: irq_dispatch_def run_handler_def uart_rx_irq_def line wake Let_def kernel_const)
  then have "s1 = schedule (ToUser ?x) (?s0\<lparr>rx := uart_rx_push CHR ''a'' (rx ?s0), eois := eois ?s0 @ [44]\<rparr>)"
    by (simp add: s1_def handle_irq_def)
  then have s1: "cpu s1 = ToUser ?x" "current s1 = Some 0" by (simp_all add: schedule_def)
  have s1': "rx_contents (rx s1) = ''a''"
    unfolding s1_def using irq_stream [of ?s0 Qemu 44 "''a''" ?x] a rx_init_contents rx_init_invar by simp
  define s2 where "s2 = s1\<lparr>cpu := ToUser read_ctx1\<rparr>"
  have st2: "kstep s1 (UserRun [] read_ctx1 (sp_usr s1) (lr_usr s1)) s2"
    using kstep.user [OF s1(1), of read_ctx1 "[]" s1 "sp_usr s1" "lr_usr s1"] by (simp add: s2_def)
  have st3: "kstep s2 Svc (handle_svc read_ctx1 s2)" by (rule kstep.svc) (simp add: s2_def)
  let ?out = "user_bytes Qemu 0 (handle_svc read_ctx1 s2) 0x40000000 1"
  have "input_run Qemu ?s0 [Irq 44 ''a'', UserRun [] read_ctx1 (sp_usr s1) (lr_usr s1), Svc] (handle_svc read_ctx1 s2) ''a'' ?out"
    using input_run.more [OF st1 input_run.more [OF st2 input_run.more [OF st3 input_run.stop]], of Qemu] s1 s1' a
    by (simp add: accepted_def [of _ _ "UserRun _ _ _ _"] accepted_def [of _ _ Svc] delivered_def reading_def s2_def board_defs rx_init_contents valid_user_ptr_def kernel_const)
  moreover from input_is_a_stream [OF s0 this] have "?out = ''a'' \<and> rx_contents (rx (handle_svc read_ctx1 s2)) = []"
    by (simp add: rx_init_contents user_bytes_def)
  ultimately show ?thesis using s0 by metis
qed

text \<open>C18: \<open>sys_ticks\<close> tells the time. After any run from boot, the value it returns is the number of timer interrupts since, modulo
  two to the 32; nothing else moves the counter.\<close>

theorem ticks_count_timer_interrupts:
  assumes "link_ok lk" "images_ok imgs" "boot p lk imgs date time cpsr sctlr ram = Some s0" "ksteps s0 es s" "ec_r x ! 7 = 7"
  shows "syscall_dispatch x s = (Done (set_r0 (of_nat (length (filter (timer_event p) es))) x), s)"
proof -
  from boot_reaches [OF assms(1,2), of p date time cpsr sctlr ram] assms(3) obtain co mem tb where
    s0: "s0 = booted p lk imgs co mem tb" by auto
  have "tick_count s = of_nat (length (filter (timer_event p) es))"
    using ksteps_ticks [OF assms(4), of p] s0 by (simp add: booted_def)
  then show ?thesis using assms(5)
    by (simp add: dispatch_handler handler_result_def syscall_table_eq sys_ticks_def timer_get_ticks_def)
qed

theorem ticks_count_timer_interrupts_witness:
  "\<exists>s0 s. boot Qemu sample_link sample_images [] [] 0 0 (\<lambda>_. CHR 0x00) = Some s0 \<and> ksteps s0 [Irq 36 []] s \<and>
     syscall_dispatch (call_ctx 7 0 0) s = (Done (set_r0 1 (call_ctx 7 0 0)), s)"
proof -
  obtain co mem tb where b: "boot Qemu sample_link sample_images [] [] 0 0 (\<lambda>_. CHR 0x00) =
      Some (booted Qemu sample_link sample_images co mem tb)" (is "_ = Some ?s0")
    using boot_reaches [OF sample_link_ok sample_images_ok] by blast
  have st: "ksteps ?s0 [Irq 36 []] (handle_irq 36 [] (first_ctx USER_VIRT_BASE 0) ?s0)"
    by (rule ksteps.more [OF kstep.irq ksteps.stop]) simp
  have "ec_r (call_ctx 7 0 0) ! 7 = 7" by (simp add: call_ctx_def)
  from ticks_count_timer_interrupts [OF sample_link_ok sample_images_ok b st this] b st show ?thesis
    by (auto simp: timer_event_def board_defs)
qed

end
