(* ===== verification/Noninterference.thy ===== *)
theory Noninterference
  imports Sample_Runs
begin

text \<open>
  Confidentiality: what a process keeps to itself does not influence anything else while it is off the CPU.

  The secrets of a process are the bytes of its memory and, of its threads, the saved registers and the place where they go on. \<open>conceal\<close>
  replaces all of them by arbitrary values. Every operation of the kernel commutes with the replacement (\<open>hide\<close>), so the run from the changed
  state is the same run; the argument about runs is made once in the locale \<open>unwinding\<close>.
\<close>

section \<open>Secrets\<close>

record secret =
  sec_mem :: "u32 \<Rightarrow> char"
  sec_ctx :: "tptr \<Rightarrow> cpu_context"
  sec_cont :: "tptr \<Rightarrow> kcont"

definition hide_mem :: "platform \<Rightarrow> nat \<Rightarrow> secret \<Rightarrow> (u32 \<Rightarrow> char) \<Rightarrow> u32 \<Rightarrow> char" where
  "hide_mem p j x mem pa = (if pa \<in> slot_range p j then sec_mem x pa else mem pa)"

definition hide_thread :: "nat \<Rightarrow> secret \<Rightarrow> tptr \<Rightarrow> thread \<Rightarrow> thread" where
  "hide_thread j x t th = (if t div 2 = j then th\<lparr>ctx := sec_ctx x t, resume_at := sec_cont x t\<rparr> else th)"

definition hide :: "platform \<Rightarrow> nat \<Rightarrow> secret \<Rightarrow> kstate \<Rightarrow> kstate" where
  "hide p j x s = s\<lparr>threads := map (\<lambda>t. hide_thread j x t (threads s ! t)) [0..<length (threads s)],
                     pmem := hide_mem p j x (pmem s)\<rparr>"

text \<open>When a thread of the process has the CPU, its registers are secret too.\<close>

definition conceal :: "platform \<Rightarrow> nat \<Rightarrow> secret \<Rightarrow> kstate \<Rightarrow> kstate" where
  "conceal p j x s =
     (case current s of
        Some c \<Rightarrow>
          if c div 2 = j \<and> c < length (threads s)
          then (hide p j x s)\<lparr>cpu := sec_cont x c, sp_usr := ctx_sp_usr (sec_ctx x c), lr_usr := ctx_lr_usr (sec_ctx x c)\<rparr>
          else hide p j x s
      | None \<Rightarrow> hide p j x s)"

definition off_cpu :: "nat \<Rightarrow> kstate \<Rightarrow> bool" where
  "off_cpu j s = (case current s of Some c \<Rightarrow> c div 2 \<noteq> j | None \<Rightarrow> True)"

section \<open>Runs\<close>

inductive run_while :: "('s \<Rightarrow> 'e \<Rightarrow> 's \<Rightarrow> bool) \<Rightarrow> ('s \<Rightarrow> bool) \<Rightarrow> 's \<Rightarrow> 'e list \<Rightarrow> 's \<Rightarrow> bool" for step quiet where
  stop: "run_while step quiet s [] s"
| more: "quiet s \<Longrightarrow> step s e s' \<Longrightarrow> run_while step quiet s' es s'' \<Longrightarrow> run_while step quiet s (e # es) s''"

inductive_simps run_while_Nil [simp]: "run_while step quiet s [] s'"
inductive_simps run_while_Cons: "run_while step quiet s (e # es) s'"

text \<open>A deterministic system in which a quiet step commutes with a replacement of the state.\<close>

locale unwinding =
  fixes step :: "'s \<Rightarrow> 'e \<Rightarrow> 's \<Rightarrow> bool" and inv :: "'s \<Rightarrow> bool" and quiet :: "'s \<Rightarrow> bool" and repl :: "'s \<Rightarrow> 's"
  assumes deterministic: "step s e s1 \<Longrightarrow> step s e s2 \<Longrightarrow> s1 = s2"
    and keeps_inv: "step s e s' \<Longrightarrow> inv s \<Longrightarrow> inv s'"
    and commutes: "step s e s' \<Longrightarrow> inv s \<Longrightarrow> quiet s \<Longrightarrow> step (repl s) e (repl s')"
begin

lemma run_deterministic:
  "run_while step q s es s1 \<Longrightarrow> run_while step q' s es s2 \<Longrightarrow> s1 = s2"
  by (induction rule: run_while.induct) (auto simp: run_while_Cons dest: deterministic)

lemma run_commutes: "run_while step quiet s es s' \<Longrightarrow> inv s \<Longrightarrow> run_while step (\<lambda>_. True) (repl s) es (repl s')"
  by (induction rule: run_while.induct) (auto intro: run_while.intros commutes keeps_inv)

lemma run_inv: "run_while step q s es s' \<Longrightarrow> inv s \<Longrightarrow> inv s'"
  by (induction rule: run_while.induct) (auto intro: keeps_inv)

lemma run_replaced:
  assumes "run_while step quiet s es s'" "inv s"
  shows "run_while step (\<lambda>_. True) (repl s) es t \<longleftrightarrow> t = repl s'"
  using run_commutes [OF assms] run_deterministic by blast

end

lemma ksteps_run: "ksteps s es s' = run_while kstep (\<lambda>_. True) s es s'"
  by (induction es arbitrary: s) (auto simp: ksteps_Cons run_while_Cons)

lemma kstep_deterministic: "kstep s e s1 \<Longrightarrow> kstep s e s2 \<Longrightarrow> s1 = s2"
  by (induction rule: kstep.induct) (auto elim: kstep.cases)

section \<open>What is public\<close>

lemma nth_past: "length xs \<le> t \<Longrightarrow> length ys = length xs \<Longrightarrow> xs ! t = ys ! t"
  by (induction xs ys arbitrary: t rule: list_induct2') (auto simp: nth_Cons split: nat.split)

lemma hide_nth: "threads (hide p j x s) ! t =
    (if t < length (threads s) then hide_thread j x t (threads s ! t) else threads s ! t)"
  by (auto simp: hide_def intro: nth_past)

lemma hide_thread_public [simp]:
  "t_proc (hide_thread j x t th) = t_proc th" "tid (hide_thread j x t th) = tid th" "t_index (hide_thread j x t th) = t_index th"
  "t_state (hide_thread j x t th) = t_state th" "t div 2 \<noteq> j \<Longrightarrow> hide_thread j x t th = th"
  by (simp_all add: hide_thread_def)

lemma hide_public [simp]:
  "processes (hide p j x s) = processes s" "current (hide p j x s) = current s" "need_reschedule (hide p j x s) = need_reschedule s"
  "switch_count (hide p j x s) = switch_count s" "waitq (hide p j x s) = waitq s" "wake_hint (hide p j x s) = wake_hint s"
  "rx (hide p j x s) = rx s" "console_out (hide p j x s) = console_out s" "tick_count (hide p j x s) = tick_count s"
  "user_handler (hide p j x s) = user_handler s" "irq_table (hide p j x s) = irq_table s" "eois (hide p j x s) = eois s"
  "ttbr0 (hide p j x s) = ttbr0 s" "sp_usr (hide p j x s) = sp_usr s" "lr_usr (hide p j x s) = lr_usr s"
  "tables (hide p j x s) = tables s" "cpu (hide p j x s) = cpu s" "undefined_behaviour (hide p j x s) = undefined_behaviour s"
  "pmem (hide p j x s) = hide_mem p j x (pmem s)" "length (threads (hide p j x s)) = length (threads s)"
  "t_state (threads (hide p j x s) ! t) = t_state (threads s ! t)" "t_proc (threads (hide p j x s) ! t) = t_proc (threads s ! t)"
  "tid (threads (hide p j x s) ! t) = tid (threads s ! t)" "t_index (threads (hide p j x s) ! t) = t_index (threads s ! t)"
  "active_table (hide p j x s) = active_table s" "runnable (hide p j x s) t = runnable s t"
  by (simp_all add: hide_nth runnable_def active_table_def) (simp_all add: hide_def)

text \<open>An update of public state commutes with the replacement.\<close>

lemma hide_upd [simp]:
  "(hide p j x s)\<lparr>current := c\<rparr> = hide p j x (s\<lparr>current := c\<rparr>)"
  "(hide p j x s)\<lparr>need_reschedule := b\<rparr> = hide p j x (s\<lparr>need_reschedule := b\<rparr>)"
  "(hide p j x s)\<lparr>switch_count := n\<rparr> = hide p j x (s\<lparr>switch_count := n\<rparr>)"
  "(hide p j x s)\<lparr>waitq := q\<rparr> = hide p j x (s\<lparr>waitq := q\<rparr>)"
  "(hide p j x s)\<lparr>wake_hint := h\<rparr> = hide p j x (s\<lparr>wake_hint := h\<rparr>)"
  "(hide p j x s)\<lparr>rx := r\<rparr> = hide p j x (s\<lparr>rx := r\<rparr>)"
  "(hide p j x s)\<lparr>console_out := out\<rparr> = hide p j x (s\<lparr>console_out := out\<rparr>)"
  "(hide p j x s)\<lparr>tick_count := n\<rparr> = hide p j x (s\<lparr>tick_count := n\<rparr>)"
  "(hide p j x s)\<lparr>eois := es\<rparr> = hide p j x (s\<lparr>eois := es\<rparr>)"
  "(hide p j x s)\<lparr>ttbr0 := tt\<rparr> = hide p j x (s\<lparr>ttbr0 := tt\<rparr>)"
  "(hide p j x s)\<lparr>sp_usr := w\<rparr> = hide p j x (s\<lparr>sp_usr := w\<rparr>)"
  "(hide p j x s)\<lparr>lr_usr := w\<rparr> = hide p j x (s\<lparr>lr_usr := w\<rparr>)"
  "(hide p j x s)\<lparr>cpu := k\<rparr> = hide p j x (s\<lparr>cpu := k\<rparr>)"
  "(hide p j x s)\<lparr>undefined_behaviour := b\<rparr> = hide p j x (s\<lparr>undefined_behaviour := b\<rparr>)"
  "(hide p j x s)\<lparr>pmem := hide_mem p j x mem\<rparr> = hide p j x (s\<lparr>pmem := mem\<rparr>)"
  by (simp_all add: hide_def)

lemma hide_upd_thread:
  assumes "\<And>th. hide_thread j x t (f th) = f (hide_thread j x t th)"
  shows "upd_thread t f (hide p j x s) = hide p j x (upd_thread t f s)"
proof -
  have "(map (\<lambda>u. hide_thread j x u (threads s ! u)) [0..<length (threads s)])
      [t := f (map (\<lambda>u. hide_thread j x u (threads s ! u)) [0..<length (threads s)] ! t)] ! i =
    hide_thread j x i ((threads s)[t := f (threads s ! t)] ! i)" if "i < length (threads s)" for i
    using assms that by (cases "i = t") simp_all
  then have "(map (\<lambda>u. hide_thread j x u (threads s ! u)) [0..<length (threads s)])
      [t := f (map (\<lambda>u. hide_thread j x u (threads s ! u)) [0..<length (threads s)] ! t)] =
    map (\<lambda>i. hide_thread j x i ((threads s)[t := f (threads s ! t)] ! i)) [0..<length (threads s)]"
    by (intro nth_equalityI) simp_all
  then show ?thesis by (simp add: upd_thread_def hide_def)
qed

lemma hide_set_state [simp]: "set_state t st (hide p j x s) = hide p j x (set_state t st s)"
  unfolding set_state_def by (rule hide_upd_thread) (simp add: hide_thread_def)

lemma hide_print [simp]: "kputs cs (hide p j x s) = hide p j x (kputs cs s)" "kprintf f a (hide p j x s) = hide p j x (kprintf f a s)"
  by (simp_all add: kputs_def kprintf_def split: option.split)

lemma hide_resched [simp]:
  "scheduler_request_resched (hide p j x s) = hide p j x (scheduler_request_resched s)"
  "scheduler_tick (hide p j x s) = hide p j x (scheduler_tick s)"
  by (simp_all add: scheduler_request_resched_def scheduler_tick_def)

lemma conceal_off: "off_cpu j s \<Longrightarrow> conceal p j x s = hide p j x s"
  by (auto simp: off_cpu_def conceal_def split: option.splits)

section \<open>The scheduler\<close>

lemma hide_save_prev: "t div 2 \<noteq> j \<Longrightarrow> save_prev t k (hide p j x s) = hide p j x (save_prev t k s)"
  by (simp add: save_prev_def hide_upd_thread)

lemma hide_switch_mm [simp]: "switch_mm t (hide p j x s) = hide p j x (switch_mm t s)"
  by (simp add: switch_mm_def)

text \<open>The registers of a thread of the process come up when it is switched in, and not before.\<close>

lemma hide_load_next: "current s = Some t \<Longrightarrow> load_next t (hide p j x s) = conceal p j x (load_next t s)"
  by (simp add: load_next_def conceal_def hide_nth hide_thread_def del: hide_upd) (simp add: hide_def)

lemma save_prev_current [simp]: "current (save_prev t k s) = current s" "current (switch_mm t s) = current s"
  by (simp_all add: save_prev_def switch_mm_def)

lemma hide_switch:
  "c div 2 \<noteq> j \<Longrightarrow> perform_switch c t k (hide p j x s) = conceal p j x (perform_switch c t k s)"
  by (simp add: perform_switch_def context_switch_def Let_def hide_save_prev hide_load_next)

lemma hide_stays: "off_cpu j s \<Longrightarrow> hide p j x (s\<lparr>cpu := k\<rparr>) = conceal p j x (s\<lparr>cpu := k\<rparr>)"
  by (rule conceal_off [symmetric]) (simp add: off_cpu_def)

lemma hide_schedule: "off_cpu j s \<Longrightarrow> schedule k (hide p j x s) = conceal p j x (schedule k s)"
  by (auto simp: schedule_def Let_def hide_switch off_cpu_def conceal_def split: option.splits)

lemma hide_block: "off_cpu j s \<Longrightarrow> scheduler_block_on_input k (hide p j x s) = conceal p j x (scheduler_block_on_input k s)"
  by (auto simp: scheduler_block_on_input_def hide_stays hide_schedule off_cpu_def split: option.splits)

lemma hide_wake_reader: "scheduler_wake_reader (hide p j x s) = hide p j x (scheduler_wake_reader s)"
proof (induction s rule: scheduler_wake_reader.induct)
  case (1 s)
  show ?case
    using "1.IH" by (subst (1 2) scheduler_wake_reader.simps) (auto simp: Let_def split: prod.split option.split)
qed

lemma hide_retire [simp]: "retire_threads ts (hide p j x s) = hide p j x (retire_threads ts s)"
  unfolding retire_threads_def by (induction ts arbitrary: s) (auto split: option.split)

section \<open>Interrupts and faults\<close>

lemma hide_irq_dispatch: "irq_dispatch n bs (hide p j x s) = hide p j x (irq_dispatch n bs s)"
  by (simp add: irq_dispatch_def run_handler_def timer_irq_def timer_tick_def uart_rx_irq_def hide_wake_reader Let_def
      split: option.split irq_handler.split timer_handler.split)

lemma off_cpu_cong: "current s' = current s \<Longrightarrow> off_cpu j s' = off_cpu j s"
  by (simp add: off_cpu_def)

lemma retire_current [simp]: "current (retire_threads ts s) = current s"
  unfolding retire_threads_def by (induction ts arbitrary: s) (auto split: option.split)

lemma hide_fault:
  assumes "off_cpu j s"
  shows "halt_forever (hide p j x s) = conceal p j x (halt_forever s)"
    and "user_fault_kill kd (hide p j x s) = conceal p j x (user_fault_kill kd s)"
    and "dump_context cx (hide p j x s) = hide p j x (dump_context cx s)"
proof -
  show "halt_forever (hide p j x s) = conceal p j x (halt_forever s)"
    using assms hide_stays [of j "kprintf ''[PANIC] system halted.\<newline>'' [] s"] by (simp add: halt_forever_def off_cpu_def)
  show "user_fault_kill kd (hide p j x s) = conceal p j x (user_fault_kill kd s)"
    using assms by (auto simp: user_fault_kill_def Let_def scheduler_request_resched_def off_cpu_def hide_schedule split: option.split)
  show "dump_context cx (hide p j x s) = hide p j x (dump_context cx s)" by (simp add: dump_context_def)
qed

section \<open>System calls\<close>

text \<open>The buffer of a caller lies in the caller's slot, which the replacement leaves alone.\<close>

definition outside :: "platform \<Rightarrow> nat \<Rightarrow> kstate \<Rightarrow> bool" where
  "outside p j s \<longleftrightarrow> j < 3 \<and> (\<exists>i. i \<noteq> j \<and> user_access p i s)"

lemma outside_upd [simp]: "outside p j (s\<lparr>rx := r\<rparr>) = outside p j s" "outside p j (s\<lparr>pmem := m\<rparr>) = outside p j s"
  "outside p j (kputs cs s) = outside p j s" "user_access p i (hide p j x s) = user_access p i s"
  by (simp_all add: outside_def) (simp add: user_access_def)

lemma own_buffer:
  assumes "j < 3" "i \<noteq> j" "user_access p i s" "valid_user_ptr a len" "k < unat len"
  shows "upa p i (a + of_nat k) \<notin> slot_range p j"
  using upa_in_slot [OF assms(3-5)] slot_range_disjoint [of i j p] assms(1-3) by (auto simp: user_access_def)

lemma hide_kstore:
  assumes "outside p j s" "valid_user_ptr a len" "k < unat len"
  shows "\<exists>s'. kstore (a + of_nat k) c s = Some s' \<and> kstore (a + of_nat k) c (hide p j x s) = Some (hide p j x s') \<and> outside p j s'"
proof -
  from assms(1) obtain i where i: "j < 3" "i \<noteq> j" "user_access p i s" by (auto simp: outside_def)
  have "(hide_mem p j x (pmem s))(upa p i (a + of_nat k) := c) = hide_mem p j x ((pmem s)(upa p i (a + of_nat k) := c))"
    using own_buffer [OF i assms(2,3)] by (auto simp: hide_mem_def)
  then show ?thesis
    using kstore_user [OF _ assms(2,3), of p i] i assms(1) by simp
qed

lemma hide_read_loop:
  assumes "outside p j s" "valid_user_ptr a len" "n + rem \<le> unat len"
  shows "read_loop rem a (of_nat n) (hide p j x s) = map_prod id (hide p j x) (read_loop rem a (of_nat n) s)"
  using assms
proof (induction rem arbitrary: n s)
  case (Suc rem)
  obtain c r where c: "uart_rx_pop (rx s) = (c, r)" by (cases "uart_rx_pop (rx s)")
  obtain s' where s': "kstore (a + of_nat n) (char_of (nat c)) (s\<lparr>rx := r\<rparr>) = Some s'"
    "kstore (a + of_nat n) (char_of (nat c)) (hide p j x (s\<lparr>rx := r\<rparr>)) = Some (hide p j x s')" "outside p j s'"
    using hide_kstore [of p j "s\<lparr>rx := r\<rparr>" a len n] Suc.prems by fastforce
  show ?case using Suc.IH [of s' "Suc n"] Suc.prems s' c by (simp add: Let_def add.commute)
qed simp

lemma hide_user_bytes:
  assumes "j < 3" "i \<noteq> j" "user_access p i s" "valid_user_ptr a len" "n \<le> unat len"
  shows "user_bytes p i (hide p j x s) a n = user_bytes p i s a n"
  using own_buffer [OF assms(1-4)] assms(5) by (simp add: user_bytes_def hide_mem_def)

text \<open>Memory that differs from what it was only in a buffer is known from the bytes in the buffer.\<close>

lemma hide_written:
  assumes b: "map (\<lambda>k. mem (f k)) [0..<m] = map (\<lambda>k. mem' (f k)) [0..<m]"
    and o: "\<And>k. k < m \<Longrightarrow> f k \<notin> slot_range p j"
    and u: "\<forall>pa. pa \<notin> f ` {0..<m} \<longrightarrow> mem pa = m0 pa" "\<forall>pa. pa \<notin> f ` {0..<m} \<longrightarrow> mem' pa = hide_mem p j x m0 pa"
  shows "mem' = hide_mem p j x mem"
proof
  fix pa
  show "mem' pa = hide_mem p j x mem pa"
  proof (cases "pa \<in> f ` {0..<m}")
    case True
    then obtain k where "k < m" "pa = f k" by auto
    then show ?thesis using b o [of k] by (simp add: hide_mem_def)
  qed (use u in \<open>simp add: hide_mem_def\<close>)
qed

lemma hide_ps_listing [simp]: "ps_listing (hide p j x s) = ps_listing s"
proof -
  have "ps_line (hide p j x s) = ps_line s" by (rule ext) (simp add: ps_line_def ps_name_def)
  then show ?thesis by (simp add: ps_listing_def)
qed

lemma hide_sys_ps:
  assumes "outside p j s"
  shows "sys_ps a b c d (hide p j x s) = map_prod id (hide p j x) (sys_ps a b c d s)"
proof (cases "valid_user_ptr a b")
  case True
  from assms obtain i where i: "j < 3" "i \<noteq> j" "user_access p i s" by (auto simp: outside_def)
  define m where "m = min (length (ps_listing s)) (unat b - 1)"
  from sys_ps_spec [OF i(3) True, of c d] obtain mem where
    1: "sys_ps a b c d s = (Ret (of_nat m), s\<lparr>pmem := mem\<rparr>)" "user_bytes p i (s\<lparr>pmem := mem\<rparr>) a m = take m (ps_listing s)"
      "\<forall>pa. pa \<notin> (\<lambda>k. upa p i (a + of_nat k)) ` {0..<m} \<longrightarrow> mem pa = pmem s pa" unfolding m_def by blast
  have "user_access p i (hide p j x s)" using i by simp
  from sys_ps_spec [OF this True, of c d] obtain mem' where
    2: "sys_ps a b c d (hide p j x s) = (Ret (of_nat m), (hide p j x s)\<lparr>pmem := mem'\<rparr>)"
      "user_bytes p i ((hide p j x s)\<lparr>pmem := mem'\<rparr>) a m = take m (ps_listing s)"
      "\<forall>pa. pa \<notin> (\<lambda>k. upa p i (a + of_nat k)) ` {0..<m} \<longrightarrow> mem' pa = hide_mem p j x (pmem s) pa"
    unfolding m_def by auto
  have "mem' = hide_mem p j x mem"
    using 1 2 own_buffer [OF i True] by (intro hide_written [OF _ _ 1(3) 2(3)]) (auto simp: user_bytes_def m_def)
  then show ?thesis using 1 2 by simp
qed (simp add: sys_ps_def)

lemma hide_sys_write:
  assumes "outside p j s"
  shows "sys_write a b c d (hide p j x s) = map_prod id (hide p j x) (sys_write a b c d s)"
proof (cases "valid_user_ptr b c")
  case True
  from assms obtain i where i: "j < 3" "i \<noteq> j" "user_access p i s" by (auto simp: outside_def)
  then show ?thesis
    using sys_write_spec [OF _ True, of p i] hide_user_bytes [OF i True order_refl] by simp
qed (simp add: sys_write_def)

lemma hide_sys_read:
  assumes "outside p j s"
  shows "sys_read a b c d (hide p j x s) = map_prod id (hide p j x) (sys_read a b c d s)"
  using hide_read_loop [OF assms, of b c 0 "unat c"] by (simp add: sys_read_def)

lemma hide_sys_others:
  "sys_getpid a b c d (hide p j x s) = map_prod id (hide p j x) (sys_getpid a b c d s)"
  "sys_yield a b c d (hide p j x s) = map_prod id (hide p j x) (sys_yield a b c d s)"
  "sys_exit a b c d (hide p j x s) = map_prod id (hide p j x) (sys_exit a b c d s)"
  "sys_kill a b c d (hide p j x s) = map_prod id (hide p j x) (sys_kill a b c d s)"
  "sys_ticks a b c d (hide p j x s) = map_prod id (hide p j x) (sys_ticks a b c d s)"
  by (simp_all add: sys_getpid_def sys_yield_def sys_exit_def sys_kill_def sys_ticks_def timer_get_ticks_def alive_threads_def Let_def
      split: option.split cong: if_cong)

lemma hide_handler:
  assumes "outside p j s" "ec_r c ! 7 < 8"
  shows "handler_result c (hide p j x s) = map_prod id (hide p j x) (handler_result c s)"
proof -
  have "unat (ec_r c ! 7) < 8" using assms(2) by (simp add: word_less_nat_alt)
  from less_8_cases [OF this] show ?thesis
    unfolding handler_result_def syscall_table_eq
    by (elim disjE) (simp_all add: hide_sys_others hide_sys_write [OF assms(1)] hide_sys_read [OF assms(1)] hide_sys_ps [OF assms(1)])
qed

section \<open>Every step\<close>

lemma dispatch_current:
  assumes "kinv p s" "cpu s = ToUser y" "syscall_dispatch y s = (r, s')"
  shows "current s' = current s" "r \<noteq> Aborted"
proof -
  from assms(1) obtain c where c: "current s = Some c" "kernel_layout p s" "core_inv s" "fits_cpu s c (cpu s)" by (rule kinvD)
  then have "user_ctx y" using assms(2) by (simp add: fits_cpu_def)
  note ok = dispatch_ok [OF c(2,3,1) this assms(3)]
  show "current s' = current s" "r \<noteq> Aborted" using ok(1,2) c(1) by (auto simp: sys_keeps_defs)
qed

lemma hide_svc:
  assumes k: "kinv p s" and y: "cpu s = ToUser y" and o: "outside p j s" "off_cpu j s"
  shows "handle_svc y (hide p j x s) = conceal p j x (handle_svc y s)"
proof -
  obtain r s' where d: "syscall_dispatch y s = (r, s')" by (cases "syscall_dispatch y s")
  have d': "syscall_dispatch y (hide p j x s) = (r, hide p j x s')"
    using d hide_handler [OF o(1), of y x] by (auto simp: dispatch_handler split: prod.splits sys_result.splits if_splits)
  note c = dispatch_current [OF k y d]
  have "off_cpu j s'" using off_cpu_cong [OF c(1)] o(2) by simp
  with d d' c(2) show ?thesis by (cases r) (simp_all add: handle_svc_def hide_schedule hide_block)
qed

lemma hide_resume_read:
  assumes k: "kinv p s" and y: "cpu s = InSysRead y" and o: "outside p j s" "off_cpu j s"
  shows "resume_read y (hide p j x s) = conceal p j x (resume_read y s)"
proof -
  from k obtain c where c: "current s = Some c" "kernel_layout p s" "core_inv s" "fits_cpu s c (cpu s)" by (rule kinvD)
  then have y': "read_ctx y" using y by (simp add: fits_cpu_def)
  obtain r s' where d: "sys_read 0 (ec_r y ! 1) (ec_r y ! 2) 0 s = (r, s')" by (meson surj_pair)
  have ok: "sys_ok p c s (ec_r y ! 1) (ec_r y ! 2) (r, s')" using sys_read_ok [OF c(2,3,1), of "ec_r y ! 1" "ec_r y ! 2" 0 0] d by simp
  have d': "sys_read 0 (ec_r y ! 1) (ec_r y ! 2) 0 (hide p j x s) = (r, hide p j x s')" using hide_sys_read [OF o(1)] d by simp
  have "off_cpu j s'" using o(2) ok c(1) by (cases r) (auto simp: sys_ok_def sys_keeps_defs off_cpu_def)
  with d d' ok show ?thesis
    unfolding resume_read_def read_ctx_sys_read [OF y', where fd = 0 and u = 0]
    by (cases r) (simp_all add: hide_schedule hide_block sys_ok_def)
qed

lemma hide_handle_irq:
  assumes "kinv p s" "cpu s = ToUser y" "off_cpu j s"
  shows "handle_irq n bs y (hide p j x s) = conceal p j x (handle_irq n bs y s)"
proof -
  from assms(1) obtain c where c: "current s = Some c" "kernel_layout p s" "core_inv s" "fits_cpu s c (cpu s)" by (rule kinvD)
  then have "current (irq_dispatch n bs s) = current s" using irq_dispatch_inv [OF c(2,3,1)] assms(2) by (simp add: fits_cpu_def)
  then have "off_cpu j (irq_dispatch n bs s)" using assms(3) by (simp add: off_cpu_def)
  then show ?thesis by (simp add: handle_irq_def hide_irq_dispatch hide_schedule)
qed

lemma off_cpu_print [simp]: "off_cpu j (kprintf f a s) = off_cpu j s" "off_cpu j (dump_context cx s) = off_cpu j s"
  by (simp_all add: off_cpu_def dump_context_def)

lemma hide_handle_fault:
  assumes "off_cpu j s"
  shows "handle_data_abort fs fa y (hide p j x s) = conceal p j x (handle_data_abort fs fa y s)"
    "handle_prefetch_abort fs fa y (hide p j x s) = conceal p j x (handle_prefetch_abort fs fa y s)"
    "handle_undefined y (hide p j x s) = conceal p j x (handle_undefined y s)"
    "user_fault_panic (hide p j x s) = conceal p j x (user_fault_panic s)"
  using assms by (simp_all add: handle_data_abort_def handle_prefetch_abort_def handle_undefined_def user_fault_panic_def hide_fault)

text \<open>What user code can reach is the same before and after the replacement, and it can change nothing else.\<close>

lemma user_reach:
  assumes "outside p j s" "translate (active_table s) Usr w va = Some pa"
  shows "pa \<notin> slot_range p j"
proof -
  from assms(1) obtain i old where i: "j < 3" "i \<noteq> j" "i < 3" "active_table s = proc_table p i old" by (auto simp: outside_def user_access_def)
  then have "pa \<in> slot_range p i" using assms(2) by (auto simp: proc_table_user split: if_splits intro: window_in_slot)
  then show ?thesis using slot_range_disjoint [of i j p] i by auto
qed

lemma hide_user_stores:
  "outside p j s \<Longrightarrow> user_stores ws s = Some s' \<Longrightarrow> user_stores ws (hide p j x s) = Some (hide p j x s')"
proof (induction ws arbitrary: s)
  case (Cons w ws)
  then obtain pa where pa: "translate (active_table s) Usr True (fst w) = Some pa"
    "user_stores ws (s\<lparr>pmem := (pmem s)(pa := snd w)\<rparr>) = Some s'" by (auto split: option.splits)
  have "(hide_mem p j x (pmem s))(pa := snd w) = hide_mem p j x ((pmem s)(pa := snd w))"
    using user_reach [OF Cons.prems(1) pa(1)] by (auto simp: hide_mem_def)
  then show ?case using Cons.IH [OF _ pa(2)] Cons.prems(1) pa(1) by simp
qed simp

lemma kinv_outside:
  assumes "kinv p s" "j < 3" "off_cpu j s"
  shows "outside p j s"
proof -
  from assms(1) obtain c where "current s = Some c" "kernel_layout p s" "core_inv s" by (rule kinvD)
  then show ?thesis using user_access_current assms(2,3) by (auto simp: outside_def off_cpu_def)
qed

lemma kstep_conceal:
  assumes st: "kstep s e s'" and k: "kinv p s" "j < 3" and o: "off_cpu j s"
  shows "kstep (conceal p j x s) e (conceal p j x s')"
proof -
  note out = kinv_outside [OF k o]
  have s: "conceal p j x s = hide p j x s" using o by (rule conceal_off)
  from st show ?thesis
  proof cases
    case (user y y' ws s1 sp lr)
    obtain i where "user_access p i s" using out by (auto simp: outside_def)
    from user_stores_mem [OF user(5) this] obtain mem where "s1 = s\<lparr>pmem := mem\<rparr>" by auto
    then have "off_cpu j s'" using o user(2) by (simp add: off_cpu_def)
    then show ?thesis
      using kstep.user [of "hide p j x s" y y' ws "hide p j x s1" sp lr] user hide_user_stores [OF out user(5)] s by (simp add: conceal_off)
  next
    case (svc y)
    then show ?thesis using kstep.svc [of "hide p j x s" y] hide_svc [OF k(1) svc(3) out o] s by simp
  next
    case (irq y n bs)
    then show ?thesis using kstep.irq [of "hide p j x s" y n bs] hide_handle_irq [OF k(1) irq(3) o] s by simp
  next
    case (resume_read y)
    then show ?thesis using kstep.resume_read [of "hide p j x s" y] hide_resume_read [OF k(1) resume_read(3) out o] s by simp
  qed (use s hide_handle_fault [OF o] kstep.intros(4-6,8) [of "hide p j x s"] in \<open>auto simp del: hide_upd\<close>)
qed

interpretation hiding: unwinding kstep "\<lambda>s. kinv p s \<and> j < 3" "off_cpu j" "conceal p j x" for p j x
  by unfold_locales (auto intro: kstep_deterministic kstep_inv kstep_conceal)

section \<open>Properties\<close>

lemma conceal_public [simp]:
  "console_out (conceal p j x s) = console_out s" "current (conceal p j x s) = current s" "waitq (conceal p j x s) = waitq s"
  "rx (conceal p j x s) = rx s" "tick_count (conceal p j x s) = tick_count s" "switch_count (conceal p j x s) = switch_count s"
  "t_state (threads (conceal p j x s) ! t) = t_state (threads s ! t)" "pmem (conceal p j x s) = hide_mem p j x (pmem s)"
  by (auto simp: conceal_def simp del: hide_upd split: option.split)

lemma conceal_others: "t div 2 \<noteq> j \<Longrightarrow> threads (conceal p j x s) ! t = threads s ! t"
  by (auto simp: conceal_def hide_nth simp del: hide_upd split: option.split)

text \<open>C5: confidentiality. While no thread of process \<open>j\<close> has the CPU, its memory and the saved registers and kernel positions of its threads
  influence nothing else. Replace all of them by arbitrary values \<open>x\<close> and let the same things happen: there is exactly one run, and it ends in the state
  the original run ends in, with the replaced values still in place. So the console, the scheduling decisions, the states of
  all threads, the input queues, the clock, the control blocks of the other threads and all other memory are the same; and as long as \<open>j\<close> is off the
  CPU, so are the registers and every byte that user code can read, so that the user programs do the same in both runs.\<close>

theorem secrets_do_not_leak:
  assumes "reachable p s" "j < 3" "run_while kstep (off_cpu j) s es s'"
  shows "(\<forall>t. ksteps (conceal p j x s) es t \<longleftrightarrow> t = conceal p j x s') \<and>
    console_out (conceal p j x s') = console_out s' \<and> current (conceal p j x s') = current s' \<and>
    waitq (conceal p j x s') = waitq s' \<and> rx (conceal p j x s') = rx s' \<and> tick_count (conceal p j x s') = tick_count s' \<and>
    (\<forall>t. state_of (conceal p j x s') t = state_of s' t) \<and>
    (\<forall>t. t div 2 \<noteq> j \<longrightarrow> threads (conceal p j x s') ! t = threads s' ! t) \<and>
    (\<forall>pa. pa \<notin> slot_range p j \<longrightarrow> pmem (conceal p j x s') pa = pmem s' pa) \<and>
    (off_cpu j s' \<longrightarrow> cpu (conceal p j x s') = cpu s' \<and> sp_usr (conceal p j x s') = sp_usr s' \<and> lr_usr (conceal p j x s') = lr_usr s' \<and>
      (\<forall>w va pa. translate (active_table s') Usr w va = Some pa \<longrightarrow> pmem (conceal p j x s') pa = pmem s' pa))"
proof -
  have k: "kinv p s" using reachable_inv(1) [OF assms(1)] .
  have r: "ksteps (conceal p j x s) es t \<longleftrightarrow> t = conceal p j x s'" for t
    unfolding ksteps_run using hiding.run_replaced [OF assms(3)] k assms(2) by blast
  have "kinv p s'" using k assms(2,3) hiding.run_inv by blast
  then have "pa \<notin> slot_range p j" if "off_cpu j s'" "translate (active_table s') Usr w va = Some pa" for w va pa
    using user_reach [OF kinv_outside [OF _ assms(2) that(1)] that(2)] by simp
  with r show ?thesis by (auto simp: conceal_others hide_mem_def conceal_off)
qed

theorem secrets_do_not_leak_witness:
  "\<exists>s s' x. reachable Qemu s \<and> pmem (conceal Qemu 1 x s) 0x70300000 \<noteq> pmem s 0x70300000 \<and>
     ksteps (conceal Qemu 1 x s) [Svc] (conceal Qemu 1 x s') \<and> ksteps s [Svc] s' \<and> console_out (conceal Qemu 1 x s') = console_out s'"
proof -
  obtain co mem tb where r: "reachable Qemu (booted Qemu sample_link sample_images co mem tb)" (is "reachable Qemu ?s")
    using booted_reachable by blast
  have st: "kstep ?s Svc (handle_svc (first_ctx USER_VIRT_BASE 0) ?s)" (is "kstep ?s Svc ?t") by (rule kstep.svc) simp
  then have run: "run_while kstep (off_cpu 1) ?s [Svc] ?t" by (simp add: run_while_Cons off_cpu_def)
  define ch where "ch = (if pmem ?s 0x70300000 = CHR ''a'' then CHR ''b'' else CHR ''a'')"
  then have ch: "ch \<noteq> pmem ?s 0x70300000" by auto
  define x where "x = \<lparr>sec_mem = \<lambda>_. ch, sec_ctx = \<lambda>t. ctx (threads ?s ! t), sec_cont = \<lambda>_. Halted\<rparr>"
  have "0x70300000 \<in> slot_range Qemu 1" by (simp add: slot_range_nat board_defs)
  then have "pmem (conceal Qemu 1 x ?s) 0x70300000 \<noteq> pmem ?s 0x70300000" using ch by (simp add: hide_mem_def x_def)
  moreover have "(1 :: nat) < 3" "ksteps ?s [Svc] ?t" using st by (simp_all add: ksteps_Cons)
  ultimately show ?thesis using secrets_do_not_leak [OF r _ run, of x] r by blast
qed

end
