(* ===== verification/Mmio.thy ===== *)
theory Mmio
  imports Kernel_Prelude
begin

text \<open>
  Access to device registers. The hardware is not part of the program: it is a parameter, a \<open>bus\<close> on a
  device state of any type \<open>'d\<close>. \<open>rd32\<close>, \<open>wr32\<close> and \<open>wr8\<close> are the volatile accesses of the driver sources
  (\<open>REG32(addr)\<close>); a read may change the device, as a read of a FIFO does.

  A loop that polls a status register is \<open>poll\<close>: \<open>None\<close> when the bit never comes. Barriers (\<open>dsb\<close>) order the
  accesses, which the model does anyway.

  \<open>logs B log\<close> says that \<open>log\<close> observes all writes, a byte with its value as a word; it is how the properties of the
  initialisation sequences name what a driver has written.
\<close>

record 'd bus =
  rd32 :: "u32 \<Rightarrow> 'd \<Rightarrow> u32 \<times> 'd"
  wr32 :: "u32 \<Rightarrow> u32 \<Rightarrow> 'd \<Rightarrow> 'd"
  wr8 :: "u32 \<Rightarrow> u8 \<Rightarrow> 'd \<Rightarrow> 'd"

partial_function (option) poll :: "'d bus \<Rightarrow> u32 \<Rightarrow> (u32 \<Rightarrow> bool) \<Rightarrow> 'd \<Rightarrow> 'd option" where
  "poll B a ok d = (case rd32 B a d of (v, d') \<Rightarrow> if ok v then Some d' else poll B a ok d')"

text \<open>The loop ends when every read either shows the bit or brings it closer.\<close>

lemma poll_ends:
  fixes m :: "'d \<Rightarrow> nat"
  assumes "I d"
    and step: "\<And>d. I d \<Longrightarrow> I (snd (rd32 B a d)) \<and> (ok (fst (rd32 B a d)) \<or> m (snd (rd32 B a d)) < m d)"
  shows "\<exists>d' d0. poll B a ok d = Some d' \<and> I d' \<and> I d0 \<and> rd32 B a d0 = (fst (rd32 B a d0), d') \<and> ok (fst (rd32 B a d0))"
  using assms(1)
proof (induction "m d" arbitrary: d rule: less_induct)
  case less
  show ?case
  proof (cases "ok (fst (rd32 B a d))")
    case True
    then have "poll B a ok d = Some (snd (rd32 B a d))" by (subst poll.simps) (simp add: split_beta)
    then show ?thesis using step [OF less.prems] True less.prems by (intro exI [of _ "snd (rd32 B a d)"] exI [of _ d]) simp
  next
    case False
    then have "poll B a ok d = poll B a ok (snd (rd32 B a d))" by (subst poll.simps) (simp add: split_beta)
    then show ?thesis using less.hyps [of "snd (rd32 B a d)"] step [OF less.prems] False by simp
  qed
qed

definition logs :: "'d bus \<Rightarrow> ('d \<Rightarrow> (u32 \<times> u32) list) \<Rightarrow> bool" where
  "logs B log \<longleftrightarrow> (\<forall>a v d. log (wr32 B a v d) = log d @ [(a, v)]) \<and>
     (\<forall>a d. log (snd (rd32 B a d)) = log d) \<and> (\<forall>a v d. log (wr8 B a v d) = log d @ [(a, ucast v)])"

lemma logsD:
  assumes "logs B log"
  shows "log (wr32 B a v d) = log d @ [(a, v)]" "log (snd (rd32 B a d)) = log d" "log (wr8 B a u d) = log d @ [(a, ucast u)]"
  using assms by (simp_all add: logs_def)

text \<open>A status register whose bits clear (or come) after finitely many reads, whatever else has happened.\<close>

definition settles :: "'d bus \<Rightarrow> u32 \<Rightarrow> (u32 \<Rightarrow> bool) \<Rightarrow> bool" where
  "settles B a ok \<longleftrightarrow> (\<exists>m :: _ \<Rightarrow> nat. \<forall>d. ok (fst (rd32 B a d)) \<or> m (snd (rd32 B a d)) < m d)"

lemma poll_settles:
  assumes "settles B a ok" "logs B log"
  shows "\<exists>d'. poll B a ok d = Some d' \<and> log d' = log d"
proof -
  from assms(1) obtain m :: "_ \<Rightarrow> nat" where m: "ok (fst (rd32 B a d)) \<or> m (snd (rd32 B a d)) < m d" for d
    unfolding settles_def by blast
  from poll_ends [of "\<lambda>d'. log d' = log d" d B a ok m] show ?thesis
    using m logsD(2) [OF assms(2)] by auto
qed

text \<open>A sequence of register accesses: writes, and loops that wait for a status.\<close>

datatype reg_op = Wr u32 u32 | Wait_for u32 "u32 \<Rightarrow> bool"

primrec reg_seq :: "'d bus \<Rightarrow> reg_op list \<Rightarrow> 'd \<Rightarrow> 'd option" where
  "reg_seq B [] d = Some d"
| "reg_seq B (e # es) d =
     (case e of
        Wr a v \<Rightarrow> reg_seq B es (wr32 B a v d)
      | Wait_for a ok \<Rightarrow> Option.bind (poll B a ok d) (reg_seq B es))"

primrec reg_writes :: "reg_op list \<Rightarrow> (u32 \<times> u32) list" where
  "reg_writes [] = []"
| "reg_writes (e # es) = (case e of Wr a v \<Rightarrow> (a, v) # reg_writes es | Wait_for a ok \<Rightarrow> reg_writes es)"

text \<open>If the hardware settles, the sequence ends, and it has written what it says.\<close>

lemma reg_seq_log:
  assumes "logs B log" "\<And>a ok. Wait_for a ok \<in> set es \<Longrightarrow> settles B a ok"
  shows "\<exists>d'. reg_seq B es d = Some d' \<and> log d' = log d @ reg_writes es"
  using assms(2)
proof (induction es arbitrary: d)
  case Nil
  then show ?case by simp
next
  case (Cons e es)
  have IH: "\<exists>d'. reg_seq B es d = Some d' \<and> log d' = log d @ reg_writes es" for d
    using Cons by simp
  show ?case
  proof (cases e)
    case (Wr a v)
    then show ?thesis using IH [of "wr32 B a v d"] logsD(1) [OF assms(1)] by auto
  next
    case (Wait_for a ok)
    then have "settles B a ok" using Cons.prems by simp
    from poll_settles [OF this assms(1)] obtain d1 where d1: "poll B a ok d = Some d1" "log d1 = log d" by blast
    then show ?thesis using IH [of d1] Wait_for by simp
  qed
qed

text \<open>A device that records what is written; what it shows when it is read is a function of the registers.\<close>

record recorder =
  rec_regs :: "u32 \<Rightarrow> u32"
  rec_log :: "(u32 \<times> u32) list"

definition recorder_bus :: "((u32 \<Rightarrow> u32) \<Rightarrow> u32 \<Rightarrow> u32) \<Rightarrow> recorder bus" where
  "recorder_bus status = \<lparr>
     rd32 = (\<lambda>a d. (status (rec_regs d) a, d)),
     wr32 = (\<lambda>a v d. d\<lparr>rec_regs := (rec_regs d)(a := v), rec_log := rec_log d @ [(a, v)]\<rparr>),
     wr8 = (\<lambda>a v d. d\<lparr>rec_regs := (rec_regs d)(a := ucast v), rec_log := rec_log d @ [(a, ucast v)]\<rparr>)\<rparr>"

lemma recorder_logs: "logs (recorder_bus status) rec_log"
  by (simp add: logs_def recorder_bus_def)

lemma recorder_settles: "(\<And>r. ok (status r a)) \<Longrightarrow> settles (recorder_bus status) a ok"
  by (simp add: settles_def recorder_bus_def)

end
