(* ===== verification/Chip_Uart.thy ===== *)
theory Chip_Uart
  imports Mmio Exceptions
begin

text \<open>
  The two UART drivers, \<open>kernel/drivers/uart/pl011.c\<close> and \<open>kernel/drivers/uart/ns16550.c\<close>, and the part of
  \<open>uart_core.c\<close> that calls them.

  The locale \<open>uart_driver\<close> is the contract of \<open>struct uart_ops\<close> that the kernel relies on: \<open>putc\<close> transmits the character,
  \<open>rx_irq\<close> moves every received byte into the ring and wakes one reader, and both return. What the
  drivers rely on in turn is what the data sheets say about the registers: the locales \<open>pl011_hw\<close> and
  \<open>ns16550_hw\<close>. A \<open>sublocale\<close> shows that each driver on its chip meets the contract.

  Of the chip, \<open>fifo d\<close> are the bytes that a driver gets before it sees the receive FIFO empty: those that are in it and
  those that arrive while it is drained; \<open>sent d\<close> are the bytes transmitted; \<open>busy d\<close> is the number
  of reads of the status register that still find the transmitter full. A byte written to the data register is transmitted only if the
  transmitter has room for it; of a write to a full one nothing is assumed.
\<close>

text \<open>The device record and the operation table of \<open>drivers/uart.h\<close>. The driver code uses only the address of its device.\<close>

record uart_device =
  uart_base :: u32
  uart_line :: u32

record 'd uart_ops =
  uart_op_init :: "uart_device \<Rightarrow> 'd \<Rightarrow> 'd"
  uart_op_putc :: "uart_device \<Rightarrow> char \<Rightarrow> 'd \<Rightarrow> 'd option"
  uart_op_rx_irq :: "uart_device \<Rightarrow> 'd \<Rightarrow> kstate \<Rightarrow> ('d \<times> kstate) option"

section \<open>PL011\<close>

definition PL011_DR :: u32 where "PL011_DR = 0x000"
definition PL011_FR :: u32 where "PL011_FR = 0x018"
definition PL011_IBRD :: u32 where "PL011_IBRD = 0x024"
definition PL011_FBRD :: u32 where "PL011_FBRD = 0x028"
definition PL011_LCR_H :: u32 where "PL011_LCR_H = 0x02C"
definition PL011_CR :: u32 where "PL011_CR = 0x030"
definition PL011_IMSC :: u32 where "PL011_IMSC = 0x038"
definition PL011_ICR :: u32 where "PL011_ICR = 0x044"
definition PL011_FR_TXFF :: u32 where "PL011_FR_TXFF = push_bit 5 1"
definition PL011_FR_RXFE :: u32 where "PL011_FR_RXFE = push_bit 4 1"
definition PL011_LCR_WLEN8 :: u32 where "PL011_LCR_WLEN8 = push_bit 5 0x3"
definition PL011_LCR_FEN :: u32 where "PL011_LCR_FEN = push_bit 4 1"
definition PL011_CR_UARTEN :: u32 where "PL011_CR_UARTEN = push_bit 0 1"
definition PL011_CR_TXE :: u32 where "PL011_CR_TXE = push_bit 8 1"
definition PL011_CR_RXE :: u32 where "PL011_CR_RXE = push_bit 9 1"
definition PL011_INT_RX :: u32 where "PL011_INT_RX = push_bit 4 1"
definition PL011_INT_RT :: u32 where "PL011_INT_RT = push_bit 6 1"

lemmas pl011_const = PL011_DR_def PL011_FR_def PL011_IBRD_def PL011_FBRD_def PL011_LCR_H_def PL011_CR_def
  PL011_IMSC_def PL011_ICR_def PL011_FR_TXFF_def PL011_FR_RXFE_def PL011_LCR_WLEN8_def PL011_LCR_FEN_def
  PL011_CR_UARTEN_def PL011_CR_TXE_def PL011_CR_RXE_def PL011_INT_RX_def PL011_INT_RT_def

definition pl011_init :: "'d bus \<Rightarrow> u32 \<Rightarrow> 'd \<Rightarrow> 'd" where
  "pl011_init B base d =
     (let d1 = wr32 B (base + PL011_CR) 0 d;
          d2 = wr32 B (base + PL011_IBRD) 13 d1;
          d3 = wr32 B (base + PL011_FBRD) 1 d2;
          d4 = wr32 B (base + PL011_LCR_H) (PL011_LCR_WLEN8 OR PL011_LCR_FEN) d3;
          d5 = wr32 B (base + PL011_IMSC) (PL011_INT_RX OR PL011_INT_RT) d4
      in wr32 B (base + PL011_CR) (PL011_CR_UARTEN OR PL011_CR_TXE OR PL011_CR_RXE) d5)"

definition pl011_putc :: "'d bus \<Rightarrow> u32 \<Rightarrow> char \<Rightarrow> 'd \<Rightarrow> 'd option" where
  "pl011_putc B base c d =
     map_option (wr32 B (base + PL011_DR) (of_char c))
       (poll B (base + PL011_FR) (\<lambda>fr. fr AND PL011_FR_TXFF = 0) d)"

partial_function (option) pl011_drain :: "'d bus \<Rightarrow> u32 \<Rightarrow> 'd \<Rightarrow> rx_ring \<Rightarrow> ('d \<times> rx_ring) option" where
  "pl011_drain B base d r =
     (case rd32 B (base + PL011_FR) d of (fr, d1) \<Rightarrow>
        if fr AND PL011_FR_RXFE \<noteq> 0 then Some (d1, r)
        else (case rd32 B (base + PL011_DR) d1 of (v, d2) \<Rightarrow>
                pl011_drain B base d2 (uart_rx_push (char_of (unat (v AND 0xFF))) r)))"

definition pl011_rx_irq :: "'d bus \<Rightarrow> u32 \<Rightarrow> 'd \<Rightarrow> kstate \<Rightarrow> ('d \<times> kstate) option" where
  "pl011_rx_irq B base d s =
     map_option (\<lambda>(d1, r). (wr32 B (base + PL011_ICR) (PL011_INT_RX OR PL011_INT_RT) d1,
                             scheduler_wake_reader (s\<lparr>rx := r\<rparr>)))
       (pl011_drain B base d (rx s))"

definition pl011_ops :: "'d bus \<Rightarrow> 'd uart_ops" where
  "pl011_ops B = \<lparr>
     uart_op_init = (\<lambda>dev. pl011_init B (uart_base dev)),
     uart_op_putc = (\<lambda>dev. pl011_putc B (uart_base dev)),
     uart_op_rx_irq = (\<lambda>dev. pl011_rx_irq B (uart_base dev))\<rparr>"

section \<open>NS16550\<close>

definition NS16550_RHR :: u32 where "NS16550_RHR = 0x00"
definition NS16550_THR :: u32 where "NS16550_THR = 0x00"
definition NS16550_DLL :: u32 where "NS16550_DLL = 0x00"
definition NS16550_DLH :: u32 where "NS16550_DLH = 0x04"
definition NS16550_IER :: u32 where "NS16550_IER = 0x04"
definition NS16550_FCR :: u32 where "NS16550_FCR = 0x08"
definition NS16550_LCR :: u32 where "NS16550_LCR = 0x0C"
definition NS16550_LSR :: u32 where "NS16550_LSR = 0x14"
definition NS16550_MDR1 :: u32 where "NS16550_MDR1 = 0xA4"
definition NS16550_LSR_DR :: u32 where "NS16550_LSR_DR = push_bit 0 1"
definition NS16550_LSR_THRE :: u32 where "NS16550_LSR_THRE = push_bit 5 1"
definition NS16550_IER_RHR_IT :: u32 where "NS16550_IER_RHR_IT = push_bit 0 1"
definition NS16550_FCR_EN :: u32 where "NS16550_FCR_EN = push_bit 0 1"
definition NS16550_FCR_RXCLR :: u32 where "NS16550_FCR_RXCLR = push_bit 1 1"
definition NS16550_FCR_TXCLR :: u32 where "NS16550_FCR_TXCLR = push_bit 2 1"
definition NS16550_FCR_RXTRIG1 :: u32 where "NS16550_FCR_RXTRIG1 = push_bit 6 0"
definition NS16550_LCR_8N1 :: u32 where "NS16550_LCR_8N1 = 0x03"
definition NS16550_LCR_DLAB :: u32 where "NS16550_LCR_DLAB = push_bit 7 1"
definition NS16550_MDR1_16X :: u32 where "NS16550_MDR1_16X = 0x00"
definition NS16550_MDR1_RESET :: u32 where "NS16550_MDR1_RESET = 0x07"

lemmas ns16550_const = NS16550_RHR_def NS16550_THR_def NS16550_DLL_def NS16550_DLH_def NS16550_IER_def
  NS16550_FCR_def NS16550_LCR_def NS16550_LSR_def NS16550_MDR1_def NS16550_LSR_DR_def NS16550_LSR_THRE_def
  NS16550_IER_RHR_IT_def NS16550_FCR_EN_def NS16550_FCR_RXCLR_def NS16550_FCR_TXCLR_def NS16550_FCR_RXTRIG1_def
  NS16550_LCR_8N1_def NS16550_LCR_DLAB_def NS16550_MDR1_16X_def NS16550_MDR1_RESET_def

definition ns16550_init :: "'d bus \<Rightarrow> u32 \<Rightarrow> 'd \<Rightarrow> 'd" where
  "ns16550_init B base d =
     (let d1 = wr32 B (base + NS16550_MDR1) NS16550_MDR1_RESET d;
          d2 = wr32 B (base + NS16550_IER) 0 d1;
          d3 = wr32 B (base + NS16550_FCR)
                 (NS16550_FCR_EN OR NS16550_FCR_RXCLR OR NS16550_FCR_TXCLR OR NS16550_FCR_RXTRIG1) d2;
          d4 = wr32 B (base + NS16550_LCR) (NS16550_LCR_DLAB OR NS16550_LCR_8N1) d3;
          d5 = wr32 B (base + NS16550_DLL) (26 AND 0xFF) d4;
          d6 = wr32 B (base + NS16550_DLH) 0 d5;
          d7 = wr32 B (base + NS16550_LCR) NS16550_LCR_8N1 d6;
          d8 = wr32 B (base + NS16550_IER) NS16550_IER_RHR_IT d7
      in wr32 B (base + NS16550_MDR1) NS16550_MDR1_16X d8)"

definition ns16550_putc :: "'d bus \<Rightarrow> u32 \<Rightarrow> char \<Rightarrow> 'd \<Rightarrow> 'd option" where
  "ns16550_putc B base c d =
     map_option (wr32 B (base + NS16550_THR) (of_char c))
       (poll B (base + NS16550_LSR) (\<lambda>lsr. lsr AND NS16550_LSR_THRE \<noteq> 0) d)"

partial_function (option) ns16550_drain :: "'d bus \<Rightarrow> u32 \<Rightarrow> 'd \<Rightarrow> rx_ring \<Rightarrow> ('d \<times> rx_ring) option" where
  "ns16550_drain B base d r =
     (case rd32 B (base + NS16550_LSR) d of (lsr, d1) \<Rightarrow>
        if lsr AND NS16550_LSR_DR \<noteq> 0
        then (case rd32 B (base + NS16550_RHR) d1 of (v, d2) \<Rightarrow>
                ns16550_drain B base d2 (uart_rx_push (char_of (unat (v AND 0xFF))) r))
        else Some (d1, r))"

definition ns16550_rx_irq :: "'d bus \<Rightarrow> u32 \<Rightarrow> 'd \<Rightarrow> kstate \<Rightarrow> ('d \<times> kstate) option" where
  "ns16550_rx_irq B base d s =
     map_option (\<lambda>(d1, r). (d1, scheduler_wake_reader (s\<lparr>rx := r\<rparr>))) (ns16550_drain B base d (rx s))"

definition ns16550_ops :: "'d bus \<Rightarrow> 'd uart_ops" where
  "ns16550_ops B = \<lparr>
     uart_op_init = (\<lambda>dev. ns16550_init B (uart_base dev)),
     uart_op_putc = (\<lambda>dev. ns16550_putc B (uart_base dev)),
     uart_op_rx_irq = (\<lambda>dev. ns16550_rx_irq B (uart_base dev))\<rparr>"

section \<open>The calls of uart\_core.c\<close>

text \<open>\<open>uart_putc\<close> and \<open>uart_puts\<close> on a chip driver.\<close>

definition dev_putc :: "(char \<Rightarrow> 'd \<Rightarrow> 'd option) \<Rightarrow> char \<Rightarrow> 'd \<Rightarrow> 'd option" where
  "dev_putc putc c d =
     Option.bind (if c = CHR 0x0A then putc (CHR 0x0D) d else Some d) (putc c)"

primrec dev_puts :: "(char \<Rightarrow> 'd \<Rightarrow> 'd option) \<Rightarrow> string \<Rightarrow> 'd \<Rightarrow> 'd option" where
  "dev_puts putc [] d = Some d"
| "dev_puts putc (c # cs) d = Option.bind (dev_putc putc c d) (dev_puts putc cs)"

section \<open>The contract of a UART driver\<close>

locale uart_driver =
  fixes fifo :: "'d \<Rightarrow> char list"
    and sent :: "'d \<Rightarrow> char list"
    and putc :: "char \<Rightarrow> 'd \<Rightarrow> 'd option"
    and rx_irq :: "'d \<Rightarrow> kstate \<Rightarrow> ('d \<times> kstate) option"
  assumes putc_sends: "\<exists>d'. putc c d = Some d' \<and> sent d' = sent d @ [c] \<and> fifo d' = fifo d"
    and rx_irq_drains: "\<exists>d'. rx_irq d s = Some (d', uart_rx_irq (fifo d) s) \<and> fifo d' = [] \<and> sent d' = sent d"
begin

lemma dev_putc_sends: "\<exists>d'. dev_putc putc c d = Some d' \<and> sent d' = sent d @ uart_putc c \<and> fifo d' = fifo d"
proof (cases "c = CHR 0x0A")
  case True
  obtain d1 where d1: "putc (CHR 0x0D) d = Some d1" "sent d1 = sent d @ [CHR 0x0D]" "fifo d1 = fifo d"
    using putc_sends by blast
  obtain d2 where "putc c d1 = Some d2" "sent d2 = sent d1 @ [c]" "fifo d2 = fifo d1"
    using putc_sends by blast
  with d1 True show ?thesis by (simp add: dev_putc_def uart_putc_def)
next
  case False
  then show ?thesis using putc_sends [of c d] by (simp add: dev_putc_def uart_putc_def)
qed

text \<open>What the kernel prints is what the chip transmits.\<close>

lemma dev_puts_sends:
  "\<exists>d'. dev_puts putc cs d = Some d' \<and> sent d' = sent d @ console_bytes cs \<and> fifo d' = fifo d"
proof (induction cs arbitrary: d)
  case Nil
  then show ?case by (simp add: console_bytes_def)
next
  case (Cons c cs)
  obtain d1 where d1: "dev_putc putc c d = Some d1" "sent d1 = sent d @ uart_putc c" "fifo d1 = fifo d"
    using dev_putc_sends by blast
  with Cons.IH [of d1] show ?case by (auto simp: console_bytes_def)
qed

end

section \<open>The drivers on their chips\<close>

lemma of_char_u32: "unat (of_char c :: u32) = of_char c"
proof -
  have "(of_char c :: nat) < 4294967296" by (rule less_trans [OF nat_of_char_less_256]) simp
  then show ?thesis by (metis of_nat_of_char unat_u32_of_nat)
qed

lemma char_of_unat_of_char: "char_of (unat (of_char c :: u32)) = c"
  by (simp add: of_char_u32)

lemma of_char_low_byte: "char_of (unat ((of_char c :: u32) AND 0xFF)) = c"
proof -
  have m: "(0xFF :: u32) = mask 8" by (simp add: mask_eq_exp_minus_1)
  have "unat ((of_nat n :: u32) AND 0xFF) = n" if "n < 256" for n
    unfolding m using that by (simp add: take_bit_eq_mask [symmetric] unsigned_take_bit_eq unsigned_of_nat take_bit_nat_eq_self)
  from this [OF nat_of_char_less_256 [of c]] show ?thesis by (simp add: of_nat_of_char)
qed

locale pl011_hw =
  fixes B :: "'d bus" and base :: u32
    and fifo :: "'d \<Rightarrow> char list" and sent :: "'d \<Rightarrow> char list" and busy :: "'d \<Rightarrow> nat"
  assumes flag_read: "(fst (rd32 B (base + PL011_FR) d) AND PL011_FR_RXFE \<noteq> 0) = (fifo d = [])"
      "(fst (rd32 B (base + PL011_FR) d) AND PL011_FR_TXFF \<noteq> 0) = (busy d > 0)"
    and flag_frame: "fifo (snd (rd32 B (base + PL011_FR) d)) = fifo d" "sent (snd (rd32 B (base + PL011_FR) d)) = sent d"
      "busy (snd (rd32 B (base + PL011_FR) d)) = busy d - 1"
    and data_read: "fifo d = c # cs \<Longrightarrow> fst (rd32 B (base + PL011_DR) d) AND 0xFF = of_char c"
      "fifo d = c # cs \<Longrightarrow> fifo (snd (rd32 B (base + PL011_DR) d)) = cs"
      "sent (snd (rd32 B (base + PL011_DR) d)) = sent d"
    and data_write: "busy d = 0 \<Longrightarrow> sent (wr32 B (base + PL011_DR) v d) = sent d @ [char_of (unat (v AND 0xFF))]"
      "fifo (wr32 B (base + PL011_DR) v d) = fifo d"
    and clear_write: "sent (wr32 B (base + PL011_ICR) v d) = sent d" "fifo (wr32 B (base + PL011_ICR) v d) = fifo d"
begin

text \<open>\<open>P\<close> is anything the reads of the two registers leave alone.\<close>

lemma drain:
  assumes "P d" and keep: "\<And>e. P e \<Longrightarrow> P (snd (rd32 B (base + PL011_FR) e))" "\<And>e. P e \<Longrightarrow> P (snd (rd32 B (base + PL011_DR) e))"
  shows "\<exists>d'. pl011_drain B base d r = Some (d', fold uart_rx_push (fifo d) r) \<and> fifo d' = [] \<and> sent d' = sent d \<and> P d'"
  using assms(1)
proof (induction "fifo d" arbitrary: d r)
  case Nil
  then have "pl011_drain B base d r = Some (snd (rd32 B (base + PL011_FR) d), r)"
    using flag_read(1) [of d] by (subst pl011_drain.simps) (simp add: split_beta)
  then show ?case using Nil flag_frame [of d] keep(1) [of d] by simp
next
  case (Cons c cs)
  let ?d1 = "snd (rd32 B (base + PL011_FR) d)"
  let ?d2 = "snd (rd32 B (base + PL011_DR) ?d1)"
  have f1: "fifo ?d1 = c # cs" and ne: "fifo d \<noteq> []" using Cons.hyps(2) flag_frame(1) [of d] by auto
  have "char_of (unat (fst (rd32 B (base + PL011_DR) ?d1) AND 0xFF)) = c"
    unfolding data_read(1) [OF f1] by (simp add: char_of_unat_of_char)
  then have "pl011_drain B base d r = pl011_drain B base ?d2 (uart_rx_push c r)"
    using flag_read(1) [of d] ne by (subst pl011_drain.simps) (simp add: split_beta)
  moreover have "fifo ?d2 = cs" "sent ?d2 = sent d"
    using data_read(2) [OF f1] data_read(3) [of ?d1] flag_frame(2) [of d] by simp_all
  moreover have "P ?d2" using keep(1) [OF Cons.prems] by (rule keep(2))
  ultimately show ?case using Cons.hyps(1) [of ?d2 "uart_rx_push c r"] Cons.hyps(2) by (metis fold_simps(2))
qed

end

sublocale pl011_hw \<subseteq> pl011: uart_driver fifo sent "pl011_putc B base" "pl011_rx_irq B base"
proof
  fix c d
  have "sent (snd (rd32 B (base + PL011_FR) e)) = sent e \<and> fifo (snd (rd32 B (base + PL011_FR) e)) = fifo e \<and>
      (fst (rd32 B (base + PL011_FR) e) AND PL011_FR_TXFF = 0 \<or> busy (snd (rd32 B (base + PL011_FR) e)) < busy e)" for e
    using flag_read(2) [of e] flag_frame [of e] by auto
  with poll_ends [of "\<lambda>d'. sent d' = sent d \<and> fifo d' = fifo d" d B "base + PL011_FR" "\<lambda>fr. fr AND PL011_FR_TXFF = 0" busy]
  obtain d1 d0 where p: "poll B (base + PL011_FR) (\<lambda>fr. fr AND PL011_FR_TXFF = 0) d = Some d1" "sent d1 = sent d" "fifo d1 = fifo d"
    and d0: "rd32 B (base + PL011_FR) d0 = (fst (rd32 B (base + PL011_FR) d0), d1)" "fst (rd32 B (base + PL011_FR) d0) AND PL011_FR_TXFF = 0"
    by auto
  have "snd (rd32 B (base + PL011_FR) d0) = d1" using arg_cong [OF d0(1), of snd] by simp
  then have "busy d1 = 0" using flag_read(2) [of d0] flag_frame(3) [of d0] d0(2) by auto
  with p show "\<exists>d'. pl011_putc B base c d = Some d' \<and> sent d' = sent d @ [c] \<and> fifo d' = fifo d"
    using data_write by (simp add: pl011_putc_def of_char_low_byte)
next
  fix d s
  show "\<exists>d'. pl011_rx_irq B base d s = Some (d', uart_rx_irq (fifo d) s) \<and> fifo d' = [] \<and> sent d' = sent d"
    using drain [of "\<lambda>_. True" d "rx s"] clear_write by (auto simp: pl011_rx_irq_def uart_rx_irq_def)
qed

locale ns16550_hw =
  fixes B :: "'d bus" and base :: u32
    and fifo :: "'d \<Rightarrow> char list" and sent :: "'d \<Rightarrow> char list" and busy :: "'d \<Rightarrow> nat"
  assumes flag_read: "(fst (rd32 B (base + NS16550_LSR) d) AND NS16550_LSR_DR \<noteq> 0) = (fifo d \<noteq> [])"
      "(fst (rd32 B (base + NS16550_LSR) d) AND NS16550_LSR_THRE \<noteq> 0) = (busy d = 0)"
    and flag_frame: "fifo (snd (rd32 B (base + NS16550_LSR) d)) = fifo d" "sent (snd (rd32 B (base + NS16550_LSR) d)) = sent d"
      "busy (snd (rd32 B (base + NS16550_LSR) d)) = busy d - 1"
    and data_read: "fifo d = c # cs \<Longrightarrow> fst (rd32 B (base + NS16550_RHR) d) AND 0xFF = of_char c"
      "fifo d = c # cs \<Longrightarrow> fifo (snd (rd32 B (base + NS16550_RHR) d)) = cs"
      "sent (snd (rd32 B (base + NS16550_RHR) d)) = sent d"
    and data_write: "busy d = 0 \<Longrightarrow> sent (wr32 B (base + NS16550_THR) v d) = sent d @ [char_of (unat (v AND 0xFF))]"
      "fifo (wr32 B (base + NS16550_THR) v d) = fifo d"
begin

text \<open>\<open>P\<close> is anything the reads of the two registers leave alone.\<close>

lemma drain:
  assumes "P d" and keep: "\<And>e. P e \<Longrightarrow> P (snd (rd32 B (base + NS16550_LSR) e))" "\<And>e. P e \<Longrightarrow> P (snd (rd32 B (base + NS16550_RHR) e))"
  shows "\<exists>d'. ns16550_drain B base d r = Some (d', fold uart_rx_push (fifo d) r) \<and> fifo d' = [] \<and> sent d' = sent d \<and> P d'"
  using assms(1)
proof (induction "fifo d" arbitrary: d r)
  case Nil
  then have "ns16550_drain B base d r = Some (snd (rd32 B (base + NS16550_LSR) d), r)"
    using flag_read(1) [of d] by (subst ns16550_drain.simps) (simp add: split_beta)
  then show ?case using Nil flag_frame [of d] keep(1) [of d] by simp
next
  case (Cons c cs)
  let ?d1 = "snd (rd32 B (base + NS16550_LSR) d)"
  let ?d2 = "snd (rd32 B (base + NS16550_RHR) ?d1)"
  have f1: "fifo ?d1 = c # cs" and ne: "fifo d \<noteq> []" using Cons.hyps(2) flag_frame(1) [of d] by auto
  have "char_of (unat (fst (rd32 B (base + NS16550_RHR) ?d1) AND 0xFF)) = c"
    unfolding data_read(1) [OF f1] by (simp add: char_of_unat_of_char)
  then have "ns16550_drain B base d r = ns16550_drain B base ?d2 (uart_rx_push c r)"
    using flag_read(1) [of d] ne by (subst ns16550_drain.simps) (simp add: split_beta)
  moreover have "fifo ?d2 = cs" "sent ?d2 = sent d"
    using data_read(2) [OF f1] data_read(3) [of ?d1] flag_frame(2) [of d] by simp_all
  moreover have "P ?d2" using keep(1) [OF Cons.prems] by (rule keep(2))
  ultimately show ?case using Cons.hyps(1) [of ?d2 "uart_rx_push c r"] Cons.hyps(2) by (metis fold_simps(2))
qed

end

sublocale ns16550_hw \<subseteq> ns16550: uart_driver fifo sent "ns16550_putc B base" "ns16550_rx_irq B base"
proof
  fix c d
  have "sent (snd (rd32 B (base + NS16550_LSR) e)) = sent e \<and> fifo (snd (rd32 B (base + NS16550_LSR) e)) = fifo e \<and>
      (fst (rd32 B (base + NS16550_LSR) e) AND NS16550_LSR_THRE \<noteq> 0 \<or> busy (snd (rd32 B (base + NS16550_LSR) e)) < busy e)" for e
    using flag_read(2) [of e] flag_frame [of e] by auto
  with poll_ends [of "\<lambda>d'. sent d' = sent d \<and> fifo d' = fifo d" d B "base + NS16550_LSR" "\<lambda>lsr. lsr AND NS16550_LSR_THRE \<noteq> 0" busy]
  obtain d1 d0 where p: "poll B (base + NS16550_LSR) (\<lambda>lsr. lsr AND NS16550_LSR_THRE \<noteq> 0) d = Some d1" "sent d1 = sent d" "fifo d1 = fifo d"
    and d0: "rd32 B (base + NS16550_LSR) d0 = (fst (rd32 B (base + NS16550_LSR) d0), d1)" "fst (rd32 B (base + NS16550_LSR) d0) AND NS16550_LSR_THRE \<noteq> 0"
    by auto
  have "snd (rd32 B (base + NS16550_LSR) d0) = d1" using arg_cong [OF d0(1), of snd] by simp
  then have "busy d1 = 0" using flag_read(2) [of d0] flag_frame(3) [of d0] d0(2) by auto
  with p show "\<exists>d'. ns16550_putc B base c d = Some d' \<and> sent d' = sent d @ [c] \<and> fifo d' = fifo d"
    using data_write by (simp add: ns16550_putc_def of_char_low_byte)
next
  fix d s
  show "\<exists>d'. ns16550_rx_irq B base d s = Some (d', uart_rx_irq (fifo d) s) \<and> fifo d' = [] \<and> sent d' = sent d"
    using drain [of "\<lambda>_. True" d "rx s"] by (auto simp: ns16550_rx_irq_def uart_rx_irq_def)
qed

text \<open>The contract as a fact about the two drivers, for use outside the locales.\<close>

context pl011_hw
begin

lemma contract: "uart_driver fifo sent (pl011_putc B base) (pl011_rx_irq B base)"
  by unfold_locales

end

context ns16550_hw
begin

lemma contract: "uart_driver fifo sent (ns16550_putc B base) (ns16550_rx_irq B base)"
  by unfold_locales

end

section \<open>Simulated chips\<close>

text \<open>A PL011 and an NS16550 at address 0 that receive a list of bytes. The transmitter takes one byte at a time and is then full for the next two reads of
  the status; a byte written to it when it is full is lost.\<close>

record sim_uart =
  sim_fifo :: "char list"
  sim_sent :: "char list"
  sim_busy :: nat

definition sim_transmit :: "u32 \<Rightarrow> 'a sim_uart_scheme \<Rightarrow> 'a sim_uart_scheme" where
  "sim_transmit v d = (if sim_busy d = 0 then d\<lparr>sim_sent := sim_sent d @ [char_of (unat (v AND 0xFF))], sim_busy := 2\<rparr> else d)"

definition sim_receive :: "'a sim_uart_scheme \<Rightarrow> u32 \<times> 'a sim_uart_scheme" where
  "sim_receive d = (case sim_fifo d of [] \<Rightarrow> (0, d) | c # cs \<Rightarrow> (of_char c, d\<lparr>sim_fifo := cs\<rparr>))"

definition sim_poll :: "'a sim_uart_scheme \<Rightarrow> 'a sim_uart_scheme" where
  "sim_poll d = d\<lparr>sim_busy := sim_busy d - 1\<rparr>"

definition sim_fr :: "'a sim_uart_scheme \<Rightarrow> u32" where
  "sim_fr d = (if sim_fifo d = [] then 0x10 else 0) OR (if sim_busy d > 0 then 0x20 else 0)"

definition sim_lsr :: "'a sim_uart_scheme \<Rightarrow> u32" where
  "sim_lsr d = (if sim_fifo d = [] then 0 else 1) OR (if sim_busy d > 0 then 0 else 0x20)"

lemmas sim_uart_defs = sim_transmit_def sim_receive_def sim_poll_def sim_fr_def sim_lsr_def

definition sim_pl011 :: "sim_uart bus" where
  "sim_pl011 = \<lparr>
     rd32 = (\<lambda>a d. if a = 0x18 then (sim_fr d, sim_poll d) else sim_receive d),
     wr32 = (\<lambda>a v d. if a = 0 then sim_transmit v d else d),
     wr8 = (\<lambda>a v d. d)\<rparr>"

definition sim_ns16550 :: "sim_uart bus" where
  "sim_ns16550 = \<lparr>
     rd32 = (\<lambda>a d. if a = 0x14 then (sim_lsr d, sim_poll d) else sim_receive d),
     wr32 = (\<lambda>a v d. if a = 0 then sim_transmit v d else d),
     wr8 = (\<lambda>a v d. d)\<rparr>"

lemma of_char_and_byte: "(of_char c :: u32) AND 0xFF = of_char c"
proof -
  have m: "(0xFF :: u32) = mask 8" by (simp add: mask_eq_exp_minus_1)
  have "(of_nat n :: u32) AND 0xFF = of_nat n" if "n < 256" for n
    unfolding m using that by (simp add: take_bit_eq_mask [symmetric] take_bit_of_nat take_bit_nat_eq_self)
  from this [OF nat_of_char_less_256 [of c]] show ?thesis by (simp add: of_nat_of_char)
qed

interpretation sim_pl011: pl011_hw sim_pl011 0 sim_fifo sim_sent sim_busy
  by unfold_locales (auto simp: sim_pl011_def sim_uart_defs pl011_const of_char_and_byte split: list.split)

interpretation sim_ns16550: ns16550_hw sim_ns16550 0 sim_fifo sim_sent sim_busy
  by unfold_locales (auto simp: sim_ns16550_def sim_uart_defs ns16550_const of_char_and_byte split: list.split)

section \<open>Properties\<close>

text \<open>C32: both UART drivers, on a chip that behaves as its data sheet says, do what the rest of the kernel takes them to do.
  Printing ends and transmits exactly the printed characters, with a carriage return before every newline: each of them is written to the chip
  only when the transmitter has room for it, on which the chip's promise to transmit depends;
  the receive interrupt ends, moves all received bytes into the ring in order and wakes one reader.\<close>

theorem uart_drivers_meet_contract:
  assumes "(pl011_hw B base fifo sent busy \<and> putc = pl011_putc B base \<and> rx_irq = pl011_rx_irq B base) \<or>
    (ns16550_hw B base fifo sent busy \<and> putc = ns16550_putc B base \<and> rx_irq = ns16550_rx_irq B base)"
  shows "(\<exists>d'. dev_puts putc cs d = Some d' \<and> sent d' = sent d @ console_bytes cs \<and> fifo d' = fifo d) \<and>
    (\<exists>d'. rx_irq d s = Some (d', uart_rx_irq (fifo d) s) \<and> fifo d' = [] \<and> sent d' = sent d)"
proof -
  have "uart_driver fifo sent putc rx_irq"
    using assms
  proof
    assume "pl011_hw B base fifo sent busy \<and> putc = pl011_putc B base \<and> rx_irq = pl011_rx_irq B base"
    then show ?thesis by (auto intro: pl011_hw.contract)
  next
    assume "ns16550_hw B base fifo sent busy \<and> putc = ns16550_putc B base \<and> rx_irq = ns16550_rx_irq B base"
    then show ?thesis by (auto intro: ns16550_hw.contract)
  qed
  from uart_driver.dev_puts_sends [OF this, of cs d] uart_driver.rx_irq_drains [OF this, of d s]
  show ?thesis by (rule conjI)
qed

theorem uart_drivers_meet_contract_witness:
  "\<exists>d'. dev_puts (pl011_putc sim_pl011 0) ''a\<newline>'' \<lparr>sim_fifo = ''xy'', sim_sent = [], sim_busy = 3\<rparr> = Some d' \<and>
     sim_sent d' = [CHR ''a'', CHR 0x0D, CHR 0x0A]"
proof -
  let ?d = "\<lparr>sim_fifo = ''xy'', sim_sent = [], sim_busy = 3\<rparr>"
  have "(pl011_hw sim_pl011 0 sim_fifo sim_sent sim_busy \<and> pl011_putc sim_pl011 0 = pl011_putc sim_pl011 0 \<and>
      pl011_rx_irq sim_pl011 0 = pl011_rx_irq sim_pl011 0) \<or>
    (ns16550_hw sim_pl011 0 sim_fifo sim_sent sim_busy \<and> pl011_putc sim_pl011 0 = ns16550_putc sim_pl011 0 \<and>
      pl011_rx_irq sim_pl011 0 = ns16550_rx_irq sim_pl011 0)"
    using sim_pl011.pl011_hw_axioms by simp
  from uart_drivers_meet_contract [OF this, of "''a\<newline>''" ?d] show ?thesis
    by (auto simp: console_bytes_def uart_putc_def)
qed

end
