(* ===== verification/Chip_Timer.thy ===== *)
theory Chip_Timer
  imports Mmio Exceptions
begin

text \<open>
  The two timer drivers, \<open>kernel/drivers/timer/sp804.c\<close> and \<open>kernel/drivers/timer/dmtimer.c\<close>, and the clock
  set-up of the BeagleBone in \<open>kernel/platform/bbb/board.c\<close>.

  The initialisation sequences are shown to end and to write what they should (\<open>timer_drivers_period\<close>): the SP804 counts
  down from the reload value, the DMTIMER counts up from it to the overflow of 32 bits; in both cases the number of clock
  cycles between two interrupts is the requested period.
\<close>

record timer_device =
  timer_base :: u32
  timer_line :: u32
  clk_hz :: u32

record 'd timer_ops =
  timer_op_init :: "timer_device \<Rightarrow> u32 \<Rightarrow> 'd \<Rightarrow> 'd option"
  timer_op_irq :: "timer_device \<Rightarrow> 'd \<Rightarrow> kstate \<Rightarrow> 'd \<times> kstate"

section \<open>SP804\<close>

definition SP804_LOAD :: u32 where "SP804_LOAD = 0x00"
definition SP804_CTRL :: u32 where "SP804_CTRL = 0x08"
definition SP804_INTCLR :: u32 where "SP804_INTCLR = 0x0C"
definition SP804_CTRL_INTEN :: u32 where "SP804_CTRL_INTEN = push_bit 5 1"
definition SP804_CTRL_PERIODIC :: u32 where "SP804_CTRL_PERIODIC = push_bit 6 1"
definition SP804_CTRL_ENABLE :: u32 where "SP804_CTRL_ENABLE = push_bit 7 1"
definition SP804_CTRL_32BIT :: u32 where "SP804_CTRL_32BIT = push_bit 1 1"

lemmas sp804_const = SP804_LOAD_def SP804_CTRL_def SP804_INTCLR_def SP804_CTRL_INTEN_def SP804_CTRL_PERIODIC_def
  SP804_CTRL_ENABLE_def SP804_CTRL_32BIT_def

definition sp804_init :: "'d bus \<Rightarrow> timer_device \<Rightarrow> u32 \<Rightarrow> 'd \<Rightarrow> 'd option" where
  "sp804_init B dev period_us =
     (let base = timer_base dev;
          reload = period_us * (clk_hz dev div 1000000)
      in reg_seq B
           [Wr (base + SP804_CTRL) 0,
            Wr (base + SP804_LOAD) reload,
            Wr (base + SP804_CTRL) (SP804_CTRL_ENABLE OR SP804_CTRL_PERIODIC OR SP804_CTRL_INTEN OR SP804_CTRL_32BIT)])"

definition sp804_irq :: "'d bus \<Rightarrow> timer_device \<Rightarrow> 'd \<Rightarrow> kstate \<Rightarrow> 'd \<times> kstate" where
  "sp804_irq B dev d s = (wr32 B (timer_base dev + SP804_INTCLR) 1 d, timer_tick s)"

definition sp804_ops :: "'d bus \<Rightarrow> 'd timer_ops" where
  "sp804_ops B = \<lparr>timer_op_init = sp804_init B, timer_op_irq = sp804_irq B\<rparr>"

section \<open>DMTIMER\<close>

definition DMT_TIOCP_CFG :: u32 where "DMT_TIOCP_CFG = 0x010"
definition DMT_IRQSTATUS :: u32 where "DMT_IRQSTATUS = 0x028"
definition DMT_IRQENABLE_SET :: u32 where "DMT_IRQENABLE_SET = 0x02C"
definition DMT_TCLR :: u32 where "DMT_TCLR = 0x038"
definition DMT_TCRR :: u32 where "DMT_TCRR = 0x03C"
definition DMT_TLDR :: u32 where "DMT_TLDR = 0x040"
definition DMT_TWPS :: u32 where "DMT_TWPS = 0x048"
definition DMT_TSICR :: u32 where "DMT_TSICR = 0x054"
definition TIOCP_SOFTRESET :: u32 where "TIOCP_SOFTRESET = push_bit 0 1"
definition TCLR_ST :: u32 where "TCLR_ST = push_bit 0 1"
definition TCLR_AR :: u32 where "TCLR_AR = push_bit 1 1"
definition TSICR_POSTED :: u32 where "TSICR_POSTED = push_bit 2 1"
definition IRQ_OVF :: u32 where "IRQ_OVF = push_bit 1 1"
definition TWPS_TCLR :: u32 where "TWPS_TCLR = push_bit 0 1"
definition TWPS_TCRR :: u32 where "TWPS_TCRR = push_bit 1 1"
definition TWPS_TLDR :: u32 where "TWPS_TLDR = push_bit 2 1"

lemmas dmtimer_const = DMT_TIOCP_CFG_def DMT_IRQSTATUS_def DMT_IRQENABLE_SET_def DMT_TCLR_def DMT_TCRR_def DMT_TLDR_def
  DMT_TWPS_def DMT_TSICR_def TIOCP_SOFTRESET_def TCLR_ST_def TCLR_AR_def TSICR_POSTED_def IRQ_OVF_def TWPS_TCLR_def
  TWPS_TCRR_def TWPS_TLDR_def

definition dmtimer_seq :: "timer_device \<Rightarrow> u32 \<Rightarrow> reg_op list" where
  "dmtimer_seq dev period_us =
     (let base = timer_base dev;
          count = period_us * (clk_hz dev div 1000000);
          reload = 0 - count
      in   [Wr (base + DMT_TIOCP_CFG) TIOCP_SOFTRESET,
            Wait_for (base + DMT_TIOCP_CFG) (\<lambda>v. v AND TIOCP_SOFTRESET = 0),
            Wr (base + DMT_TSICR) TSICR_POSTED,
            Wait_for (base + DMT_TWPS) (\<lambda>v. v AND TWPS_TCLR = 0),
            Wr (base + DMT_TCLR) 0,
            Wr (base + DMT_IRQSTATUS) 0x7,
            Wait_for (base + DMT_TWPS) (\<lambda>v. v AND TWPS_TLDR = 0),
            Wr (base + DMT_TLDR) reload,
            Wait_for (base + DMT_TWPS) (\<lambda>v. v AND TWPS_TCRR = 0),
            Wr (base + DMT_TCRR) reload,
            Wr (base + DMT_IRQENABLE_SET) IRQ_OVF,
            Wait_for (base + DMT_TWPS) (\<lambda>v. v AND TWPS_TCLR = 0),
            Wr (base + DMT_TCLR) (TCLR_ST OR TCLR_AR)])"

definition dmtimer_init :: "'d bus \<Rightarrow> timer_device \<Rightarrow> u32 \<Rightarrow> 'd \<Rightarrow> 'd option" where
  "dmtimer_init B dev period_us = reg_seq B (dmtimer_seq dev period_us)"

definition dmtimer_irq :: "'d bus \<Rightarrow> timer_device \<Rightarrow> 'd \<Rightarrow> kstate \<Rightarrow> 'd \<times> kstate" where
  "dmtimer_irq B dev d s = (wr32 B (timer_base dev + DMT_IRQSTATUS) IRQ_OVF d, timer_tick s)"

definition dmtimer_ops :: "'d bus \<Rightarrow> 'd timer_ops" where
  "dmtimer_ops B = \<lparr>timer_op_init = dmtimer_init B, timer_op_irq = dmtimer_irq B\<rparr>"

section \<open>The clock of the BeagleBone's timer\<close>

definition CM_PER_BASE :: u32 where "CM_PER_BASE = 0x44E00000"
definition CM_PER_L4LS_CLKSTCTRL :: u32 where "CM_PER_L4LS_CLKSTCTRL = 0x000"
definition CM_PER_TIMER2_CLKCTRL :: u32 where "CM_PER_TIMER2_CLKCTRL = 0x080"
definition CLKSTCTRL_SW_WKUP :: u32 where "CLKSTCTRL_SW_WKUP = 0x2"
definition MODULEMODE_DISABLE :: u32 where "MODULEMODE_DISABLE = 0x0"
definition MODULEMODE_ENABLE :: u32 where "MODULEMODE_ENABLE = 0x2"
definition IDLEST_SHIFT :: nat where "IDLEST_SHIFT = 16"
definition IDLEST_MASK :: u32 where "IDLEST_MASK = push_bit IDLEST_SHIFT 0x3"
definition IDLEST_FUNC :: u32 where "IDLEST_FUNC = 0x0"
definition IDLEST_DISABLED :: u32 where "IDLEST_DISABLED = 0x3"
definition CM_DPLL_BASE :: u32 where "CM_DPLL_BASE = 0x44E00500"
definition CM_CLKSEL_TIMER2_CLK :: u32 where "CM_CLKSEL_TIMER2_CLK = 0x08"
definition TIMER2_CLKSEL_M_OSC :: u32 where "TIMER2_CLKSEL_M_OSC = 0x1"

lemmas clock_const = CM_PER_BASE_def CM_PER_L4LS_CLKSTCTRL_def CM_PER_TIMER2_CLKCTRL_def CLKSTCTRL_SW_WKUP_def
  MODULEMODE_DISABLE_def MODULEMODE_ENABLE_def IDLEST_SHIFT_def IDLEST_MASK_def IDLEST_FUNC_def IDLEST_DISABLED_def
  CM_DPLL_BASE_def CM_CLKSEL_TIMER2_CLK_def TIMER2_CLKSEL_M_OSC_def

definition idle_status :: "u32 \<Rightarrow> u32" where
  "idle_status v = drop_bit IDLEST_SHIFT (v AND IDLEST_MASK)"

definition clock_enable_timer2 :: "'d bus \<Rightarrow> 'd \<Rightarrow> 'd option" where
  "clock_enable_timer2 B =
     reg_seq B
       [Wr (CM_PER_BASE + CM_PER_TIMER2_CLKCTRL) MODULEMODE_DISABLE,
        Wait_for (CM_PER_BASE + CM_PER_TIMER2_CLKCTRL) (\<lambda>v. idle_status v = IDLEST_DISABLED),
        Wr (CM_DPLL_BASE + CM_CLKSEL_TIMER2_CLK) TIMER2_CLKSEL_M_OSC,
        Wr (CM_PER_BASE + CM_PER_L4LS_CLKSTCTRL) CLKSTCTRL_SW_WKUP,
        Wr (CM_PER_BASE + CM_PER_TIMER2_CLKCTRL) MODULEMODE_ENABLE,
        Wait_for (CM_PER_BASE + CM_PER_TIMER2_CLKCTRL) (\<lambda>v. idle_status v = IDLEST_FUNC)]"

section \<open>Lemmas\<close>

text \<open>A period of whole microseconds on a clock of whole megahertz is an exact number of cycles.\<close>

lemma cycles_exact:
  assumes "unat us * (unat clk div 1000000) < 4294967296" "1000000 dvd unat clk"
  shows "unat (us * (clk div 1000000)) * 1000000 = unat us * unat (clk :: u32)"
proof -
  have "unat (us * (clk div 1000000)) = unat us * unat (clk div 1000000 :: u32)"
    using assms(1) by (subst unat_mult_lem [symmetric]) (simp add: unat_div_distrib)
  then have "unat (us * (clk div 1000000)) = unat us * (unat clk div 1000000)" by (simp add: unat_div_distrib)
  then show ?thesis using assms(2) by (simp add: mult.assoc)
qed

text \<open>The polling loops of the DMTIMER end: the soft reset completes and posted writes go through.\<close>

definition dmtimer_settles :: "'d bus \<Rightarrow> u32 \<Rightarrow> bool" where
  "dmtimer_settles B base \<longleftrightarrow> settles B (base + DMT_TIOCP_CFG) (\<lambda>v. v AND TIOCP_SOFTRESET = 0) \<and>
     settles B (base + DMT_TWPS) (\<lambda>v. v AND TWPS_TCLR = 0) \<and> settles B (base + DMT_TWPS) (\<lambda>v. v AND TWPS_TLDR = 0) \<and>
     settles B (base + DMT_TWPS) (\<lambda>v. v AND TWPS_TCRR = 0)"

lemma sp804_init_log:
  assumes "logs B log"
  shows "\<exists>d'. sp804_init B dev us d = Some d' \<and> log d' = log d @
    [(timer_base dev + 0x08, 0), (timer_base dev, us * (clk_hz dev div 1000000)), (timer_base dev + 0x08, 0xE2)]"
  using reg_seq_log [OF assms] by (simp add: sp804_init_def sp804_const Let_def logsD [OF assms])

lemma dmtimer_init_log:
  assumes "logs B log" "dmtimer_settles B (timer_base dev)"
  shows "\<exists>d'. dmtimer_init B dev us d = Some d' \<and> log d' = log d @
    [(timer_base dev + 0x10, 1), (timer_base dev + 0x54, 4), (timer_base dev + 0x38, 0), (timer_base dev + 0x28, 7),
     (timer_base dev + 0x40, - (us * (clk_hz dev div 1000000))), (timer_base dev + 0x3C, - (us * (clk_hz dev div 1000000))),
     (timer_base dev + 0x2C, 2), (timer_base dev + 0x38, 3)]"
proof -
  have "reg_writes (dmtimer_seq dev us) =
    [(timer_base dev + 0x10, 1), (timer_base dev + 0x54, 4), (timer_base dev + 0x38, 0), (timer_base dev + 0x28, 7),
     (timer_base dev + 0x40, - (us * (clk_hz dev div 1000000))), (timer_base dev + 0x3C, - (us * (clk_hz dev div 1000000))),
     (timer_base dev + 0x2C, 2), (timer_base dev + 0x38, 3)]"
    by (simp add: dmtimer_seq_def Let_def dmtimer_const)
  moreover have "settles B a ok" if "Wait_for a ok \<in> set (dmtimer_seq dev us)" for a ok
    using that assms(2) by (auto simp: dmtimer_seq_def Let_def dmtimer_settles_def)
  ultimately show ?thesis
    using reg_seq_log [OF assms(1), of "dmtimer_seq dev us" d] by (simp add: dmtimer_init_def)
qed

text \<open>The module clock of the BeagleBone's timer. \<open>on d\<close> says which mode was written last; the idle status follows after finitely many
  reads.\<close>

definition clock_settles :: "'d bus \<Rightarrow> bool" where
  "clock_settles B \<longleftrightarrow> (\<exists>(on :: 'd \<Rightarrow> bool) (lag :: 'd \<Rightarrow> nat). \<forall>d.
     \<not> on (wr32 B (CM_PER_BASE + CM_PER_TIMER2_CLKCTRL) MODULEMODE_DISABLE d) \<and>
     on (wr32 B (CM_PER_BASE + CM_PER_TIMER2_CLKCTRL) MODULEMODE_ENABLE d) \<and>
     (let r = rd32 B (CM_PER_BASE + CM_PER_TIMER2_CLKCTRL) d
      in on (snd r) = on d \<and>
         (idle_status (fst r) = (if on d then IDLEST_FUNC else IDLEST_DISABLED) \<or> lag (snd r) < lag d)))"

lemma clock_enable_log:
  fixes B :: "'d bus"
  assumes "logs B log" "clock_settles B"
  shows "\<exists>d'. clock_enable_timer2 B d = Some d' \<and>
    log d' = log d @ [(0x44E00080, 0), (0x44E00508, 1), (0x44E00000, 2), (0x44E00080, 2)]"
proof -
  let ?a = "CM_PER_BASE + CM_PER_TIMER2_CLKCTRL"
  from assms(2) obtain on :: "'d \<Rightarrow> bool" and lag :: "'d \<Rightarrow> nat" where
    on: "\<not> on (wr32 B ?a MODULEMODE_DISABLE d)" "on (wr32 B ?a MODULEMODE_ENABLE d)" "on (snd (rd32 B ?a d)) = on d"
      "idle_status (fst (rd32 B ?a d)) = (if on d then IDLEST_FUNC else IDLEST_DISABLED) \<or> lag (snd (rd32 B ?a d)) < lag d" for d
    unfolding clock_settles_def Let_def by blast
  have wait: "\<exists>d'. poll B ?a (\<lambda>v. idle_status v = st) d = Some d' \<and> log d' = log d"
    if "on d = m" "st = (if m then IDLEST_FUNC else IDLEST_DISABLED)" for d m st
  proof -
    let ?I = "\<lambda>d'. on d' = m \<and> log d' = log d"
    have "?I (snd (rd32 B ?a e)) \<and> (idle_status (fst (rd32 B ?a e)) = st \<or> lag (snd (rd32 B ?a e)) < lag e)" if "?I e" for e
      using on(3,4) [of e] logsD(2) [OF assms(1)] that \<open>st = _\<close> by simp
    from poll_ends [of ?I d B ?a "\<lambda>v. idle_status v = st" lag, OF _ this] show ?thesis using \<open>on d = m\<close> by blast
  qed
  obtain d1 where d1: "poll B ?a (\<lambda>v. idle_status v = IDLEST_DISABLED) (wr32 B ?a MODULEMODE_DISABLE d) = Some d1"
    "log d1 = log (wr32 B ?a MODULEMODE_DISABLE d)"
    using wait [of "wr32 B ?a MODULEMODE_DISABLE d" False] on(1) by auto
  let ?d2 = "wr32 B ?a MODULEMODE_ENABLE (wr32 B (CM_PER_BASE + CM_PER_L4LS_CLKSTCTRL) CLKSTCTRL_SW_WKUP
    (wr32 B (CM_DPLL_BASE + CM_CLKSEL_TIMER2_CLK) TIMER2_CLKSEL_M_OSC d1))"
  obtain d3 where d3: "poll B ?a (\<lambda>v. idle_status v = IDLEST_FUNC) ?d2 = Some d3" "log d3 = log ?d2"
    using wait [of ?d2 True] on(2) by auto
  have "clock_enable_timer2 B d = Some d3" using d1(1) d3(1) by (simp add: clock_enable_timer2_def)
  moreover have "log d3 = log d @ [(0x44E00080, 0), (0x44E00508, 1), (0x44E00000, 2), (0x44E00080, 2)]"
    using d1(2) d3(2) logsD(1) [OF assms(1)] by (simp add: clock_const)
  ultimately show ?thesis by blast
qed

section \<open>Properties\<close>

text \<open>Both timer drivers program their chip for exactly the requested period, on any clock of whole megahertz, as long as the cycle
  count fits 32 bits. The SP804 is loaded with the number of cycles and started in periodic mode with its interrupt enabled; the DMTIMER,
  which counts up, with its negative, and started with auto-reload; the initialisation ends once the chip settles.\<close>

theorem timer_drivers_period:
  assumes "logs B log" "dmtimer_settles B (timer_base dev)"
    and "1000000 dvd unat (clk_hz dev)" "0 < unat us * unat (clk_hz dev)" "unat us * (unat (clk_hz dev) div 1000000) < 4294967296"
  shows "\<exists>c r d1 d2.
    sp804_init B dev us d = Some d1 \<and>
    log d1 = log d @ [(timer_base dev + 0x08, 0), (timer_base dev, c), (timer_base dev + 0x08, 0xE2)] \<and>
    unat c * 1000000 = unat us * unat (clk_hz dev) \<and>
    dmtimer_init B dev us d = Some d2 \<and>
    log d2 = log d @ [(timer_base dev + 0x10, 1), (timer_base dev + 0x54, 4), (timer_base dev + 0x38, 0),
      (timer_base dev + 0x28, 7), (timer_base dev + 0x40, r), (timer_base dev + 0x3C, r), (timer_base dev + 0x2C, 2),
      (timer_base dev + 0x38, 3)] \<and>
    (2 ^ 32 - unat r) * 1000000 = unat us * unat (clk_hz dev)"
proof -
  let ?c = "us * (clk_hz dev div 1000000)"
  have c: "unat ?c * 1000000 = unat us * unat (clk_hz dev)" by (rule cycles_exact [OF assms(5,3)])
  then have "?c \<noteq> 0" using assms(4) by (metis mult_zero_left neq0_conv unat_0)
  then have "unat (- ?c) = 4294967296 - unat ?c" by (rule unat_u32_minus)
  then have "2 ^ 32 - unat (- ?c) = unat ?c" using unat_u32_less [of ?c] by simp
  with c show ?thesis
    using sp804_init_log [OF assms(1), of dev us d] dmtimer_init_log [OF assms(1,2), of us d] by metis
qed

theorem timer_drivers_period_witness:
  "\<exists>d1. sp804_init (recorder_bus (\<lambda>_ _. 0)) \<lparr>timer_base = 0x10011000, timer_line = 36, clk_hz = 1000000\<rparr> 10000
       \<lparr>rec_regs = (\<lambda>_. 0), rec_log = []\<rparr> = Some d1 \<and>
     rec_log d1 = [(0x10011008, 0), (0x10011000, 10000), (0x10011008, 0xE2)]"
proof -
  let ?dev = "\<lparr>timer_base = 0x10011000, timer_line = 36, clk_hz = 1000000\<rparr>" and ?B = "recorder_bus (\<lambda>_ _. 0)"
  have "dmtimer_settles ?B (timer_base ?dev)" by (simp add: dmtimer_settles_def recorder_settles)
  from timer_drivers_period [OF recorder_logs this, of 10000 "\<lparr>rec_regs = (\<lambda>_. 0), rec_log = []\<rparr>"]
  obtain c d1 where "sp804_init ?B ?dev 10000 \<lparr>rec_regs = (\<lambda>_. 0), rec_log = []\<rparr> = Some d1"
    "rec_log d1 = [(0x10011008, 0), (0x10011000, c), (0x10011008, 0xE2)]" "unat c * 1000000 = 10000 * 1000000"
    by auto
  moreover from this have "unat c = unat (10000 :: u32)" by simp
  then have "c = 10000" by (simp only: word_unat_eq_iff)
  ultimately show ?thesis by blast
qed

end
