(* ===== verification/Chip_Intc.thy ===== *)
theory Chip_Intc
  imports Mmio Exceptions
begin

text \<open>
  The two interrupt controller drivers, \<open>kernel/drivers/intc/gicv1.c\<close> and \<open>kernel/drivers/intc/am335x_intc.c\<close>.

  The locale \<open>intc_driver\<close> is the contract of \<open>struct intc_ops\<close> on the interrupt path: \<open>get_active\<close> returns the
  line that is pending and \<open>MAX_IRQS\<close> when the interrupt was spurious, and \<open>eoi\<close> ends its service, so that the controller does
  not stay latched. \<open>gic_hw\<close> and \<open>am335x_hw\<close> state what the drivers rely on; \<open>pending d\<close> is the line that the controller
  reports next, \<open>active d\<close> the one in service.
\<close>

record intc_device =
  intc_base :: u32
  cpu_base :: u32
  dist_base :: u32

record 'd intc_ops =
  intc_op_init :: "intc_device \<Rightarrow> 'd \<Rightarrow> 'd option"
  intc_op_enable_line :: "intc_device \<Rightarrow> u32 \<Rightarrow> 'd \<Rightarrow> 'd"
  intc_op_disable_line :: "intc_device \<Rightarrow> u32 \<Rightarrow> 'd \<Rightarrow> 'd"
  intc_op_get_active :: "intc_device \<Rightarrow> 'd \<Rightarrow> u32 \<times> 'd"
  intc_op_eoi :: "intc_device \<Rightarrow> u32 \<Rightarrow> 'd \<Rightarrow> 'd"

section \<open>GIC\<close>

definition GICD_CTLR :: u32 where "GICD_CTLR = 0x000"
definition GICD_TYPER :: u32 where "GICD_TYPER = 0x004"
definition GICD_ISENABLER :: "u32 \<Rightarrow> u32" where "GICD_ISENABLER n = 0x100 + n * 4"
definition GICD_ICENABLER :: "u32 \<Rightarrow> u32" where "GICD_ICENABLER n = 0x180 + n * 4"
definition GICD_IPRIORITYR :: "u32 \<Rightarrow> u32" where "GICD_IPRIORITYR n = 0x400 + n"
definition GICD_ITARGETSR :: "u32 \<Rightarrow> u32" where "GICD_ITARGETSR n = 0x800 + n"
definition GICC_CTLR :: u32 where "GICC_CTLR = 0x000"
definition GICC_PMR :: u32 where "GICC_PMR = 0x004"
definition GICC_BPR :: u32 where "GICC_BPR = 0x008"
definition GICC_IAR :: u32 where "GICC_IAR = 0x00C"
definition GICC_EOIR :: u32 where "GICC_EOIR = 0x010"
definition GIC_SPURIOUS :: u32 where "GIC_SPURIOUS = 1023"

lemmas gic_const = GICD_CTLR_def GICD_TYPER_def GICD_ISENABLER_def GICD_ICENABLER_def GICD_IPRIORITYR_def
  GICD_ITARGETSR_def GICC_CTLR_def GICC_PMR_def GICC_BPR_def GICC_IAR_def GICC_EOIR_def GIC_SPURIOUS_def

text \<open>The lines of the distributor, at most \<open>MAX_IRQS\<close>.\<close>

definition gic_lines :: "u32 \<Rightarrow> u32" where
  "gic_lines typer = (let lines = ((typer AND 0x1F) + 1) * 32 in if lines > MAX_IRQS then MAX_IRQS else lines)"

definition gicv1_init :: "'d bus \<Rightarrow> intc_device \<Rightarrow> 'd \<Rightarrow> 'd option" where
  "gicv1_init B dev d =
     (let dist = dist_base dev;
          c = cpu_base dev;
          d1 = wr32 B (dist + GICD_CTLR) 0 d
      in case rd32 B (dist + GICD_TYPER) d1 of (typer, d2) \<Rightarrow>
         let lines = unat (gic_lines typer);
             d3 = fold (\<lambda>k. wr32 B (dist + GICD_ICENABLER (of_nat (32 * k) div 32)) 0xFFFFFFFF) [1..<(lines + 31) div 32] d2;
             d4 = fold (\<lambda>i e. wr8 B (dist + GICD_ITARGETSR (of_nat i)) 0x01 (wr8 B (dist + GICD_IPRIORITYR (of_nat i)) 0xA0 e))
                    [32..<lines] d3
         in reg_seq B
              [Wr (dist + GICD_CTLR) 1,
               Wr (c + GICC_PMR) 0xF0,
               Wr (c + GICC_BPR) 0x00,
               Wr (c + GICC_CTLR) 1] d4)"

definition gicv1_enable_line :: "'d bus \<Rightarrow> intc_device \<Rightarrow> u32 \<Rightarrow> 'd \<Rightarrow> 'd" where
  "gicv1_enable_line B dev irq = wr32 B (dist_base dev + GICD_ISENABLER (irq div 32)) (push_bit (unat (irq AND 0x1F)) 1)"

definition gicv1_disable_line :: "'d bus \<Rightarrow> intc_device \<Rightarrow> u32 \<Rightarrow> 'd \<Rightarrow> 'd" where
  "gicv1_disable_line B dev irq = wr32 B (dist_base dev + GICD_ICENABLER (irq div 32)) (push_bit (unat (irq AND 0x1F)) 1)"

definition gicv1_get_active :: "'d bus \<Rightarrow> intc_device \<Rightarrow> 'd \<Rightarrow> u32 \<times> 'd" where
  "gicv1_get_active B dev d =
     (case rd32 B (cpu_base dev + GICC_IAR) d of (iar, d1) \<Rightarrow>
        let i = iar AND 0x3FF
        in if i \<ge> GIC_SPURIOUS then (MAX_IRQS, d1) else (i, d1))"

definition gicv1_eoi :: "'d bus \<Rightarrow> intc_device \<Rightarrow> u32 \<Rightarrow> 'd \<Rightarrow> 'd" where
  "gicv1_eoi B dev irq d =
     (let i = (if irq \<ge> MAX_IRQS then GIC_SPURIOUS else irq)
      in wr32 B (cpu_base dev + GICC_EOIR) i d)"

definition gicv1_ops :: "'d bus \<Rightarrow> 'd intc_ops" where
  "gicv1_ops B = \<lparr>
     intc_op_init = gicv1_init B,
     intc_op_enable_line = gicv1_enable_line B,
     intc_op_disable_line = gicv1_disable_line B,
     intc_op_get_active = gicv1_get_active B,
     intc_op_eoi = gicv1_eoi B\<rparr>"

section \<open>AM335x INTC\<close>

definition INTC_SYSCONFIG :: u32 where "INTC_SYSCONFIG = 0x010"
definition INTC_SYSSTATUS :: u32 where "INTC_SYSSTATUS = 0x014"
definition INTC_SIR_IRQ :: u32 where "INTC_SIR_IRQ = 0x040"
definition INTC_CONTROL :: u32 where "INTC_CONTROL = 0x048"
definition INTC_THRESHOLD :: u32 where "INTC_THRESHOLD = 0x068"
definition INTC_MIR_CLEAR :: "u32 \<Rightarrow> u32" where "INTC_MIR_CLEAR n = 0x088 + n * 0x20"
definition INTC_MIR_SET :: "u32 \<Rightarrow> u32" where "INTC_MIR_SET n = 0x08C + n * 0x20"
definition INTC_ILR :: "u32 \<Rightarrow> u32" where "INTC_ILR m = 0x100 + m * 0x04"
definition INTC_SYSCONFIG_SOFTRESET :: u32 where "INTC_SYSCONFIG_SOFTRESET = push_bit 1 1"
definition INTC_SYSSTATUS_RESETDONE :: u32 where "INTC_SYSSTATUS_RESETDONE = push_bit 0 1"
definition INTC_CONTROL_NEWIRQAGR :: u32 where "INTC_CONTROL_NEWIRQAGR = push_bit 0 1"
definition INTC_SIR_SPURIOUS_MASK :: u32 where "INTC_SIR_SPURIOUS_MASK = 0xFFFFFF80"

lemmas am335x_const = INTC_SYSCONFIG_def INTC_SYSSTATUS_def INTC_SIR_IRQ_def INTC_CONTROL_def INTC_THRESHOLD_def
  INTC_MIR_CLEAR_def INTC_MIR_SET_def INTC_ILR_def INTC_SYSCONFIG_SOFTRESET_def INTC_SYSSTATUS_RESETDONE_def
  INTC_CONTROL_NEWIRQAGR_def INTC_SIR_SPURIOUS_MASK_def

definition am335x_intc_init :: "'d bus \<Rightarrow> intc_device \<Rightarrow> 'd \<Rightarrow> 'd option" where
  "am335x_intc_init B dev =
     (let base = intc_base dev
      in reg_seq B
           ([Wr (base + INTC_SYSCONFIG) INTC_SYSCONFIG_SOFTRESET,
             Wait_for (base + INTC_SYSSTATUS) (\<lambda>v. v AND INTC_SYSSTATUS_RESETDONE \<noteq> 0)] @
            map (\<lambda>b. Wr (base + INTC_MIR_SET (of_nat b)) 0xFFFFFFFF) [0..<4] @
            [Wr (base + INTC_THRESHOLD) 0xFF] @
            map (\<lambda>m. Wr (base + INTC_ILR (of_nat m)) 0) [0..<unat MAX_IRQS] @
            [Wr (base + INTC_CONTROL) INTC_CONTROL_NEWIRQAGR]))"

definition am335x_intc_enable_line :: "'d bus \<Rightarrow> intc_device \<Rightarrow> u32 \<Rightarrow> 'd \<Rightarrow> 'd" where
  "am335x_intc_enable_line B dev irq =
     (let bank = drop_bit 5 irq; b = unat (irq AND 0x1F)
      in wr32 B (intc_base dev + INTC_MIR_CLEAR bank) (push_bit b 1))"

definition am335x_intc_disable_line :: "'d bus \<Rightarrow> intc_device \<Rightarrow> u32 \<Rightarrow> 'd \<Rightarrow> 'd" where
  "am335x_intc_disable_line B dev irq =
     (let bank = drop_bit 5 irq; b = unat (irq AND 0x1F)
      in wr32 B (intc_base dev + INTC_MIR_SET bank) (push_bit b 1))"

definition am335x_intc_get_active :: "'d bus \<Rightarrow> intc_device \<Rightarrow> 'd \<Rightarrow> u32 \<times> 'd" where
  "am335x_intc_get_active B dev d =
     (case rd32 B (intc_base dev + INTC_SIR_IRQ) d of (sir, d1) \<Rightarrow>
        if sir AND INTC_SIR_SPURIOUS_MASK \<noteq> 0 then (MAX_IRQS, d1) else (sir AND 0x7F, d1))"

definition am335x_intc_eoi :: "'d bus \<Rightarrow> intc_device \<Rightarrow> u32 \<Rightarrow> 'd \<Rightarrow> 'd" where
  "am335x_intc_eoi B dev irq d = wr32 B (intc_base dev + INTC_CONTROL) INTC_CONTROL_NEWIRQAGR d"

definition am335x_intc_ops :: "'d bus \<Rightarrow> 'd intc_ops" where
  "am335x_intc_ops B = \<lparr>
     intc_op_init = am335x_intc_init B,
     intc_op_enable_line = am335x_intc_enable_line B,
     intc_op_disable_line = am335x_intc_disable_line B,
     intc_op_get_active = am335x_intc_get_active B,
     intc_op_eoi = am335x_intc_eoi B\<rparr>"

section \<open>The contract of an interrupt controller driver\<close>

definition reported :: "u32 option \<Rightarrow> u32" where
  "reported n = (case n of None \<Rightarrow> MAX_IRQS | Some i \<Rightarrow> i)"

locale intc_driver =
  fixes pending :: "'d \<Rightarrow> u32 option" and active :: "'d \<Rightarrow> u32 option"
    and get_active :: "'d \<Rightarrow> u32 \<times> 'd" and eoi :: "u32 \<Rightarrow> 'd \<Rightarrow> 'd"
  assumes line_range: "pending d = Some n \<Longrightarrow> n < MAX_IRQS"
    and reports: "fst (get_active d) = reported (pending d)"
    and starts_service: "active (snd (get_active d)) = pending d"
    and ends_service: "active d = l \<Longrightarrow> active (eoi (reported l) d) = None"
begin

text \<open>Acknowledging and ending an interrupt leaves none in service, whatever the handler in between does, as long as it
  leaves the controller alone.\<close>

lemma service_ends:
  assumes "active d' = active (snd (get_active d))"
  shows "active (eoi (fst (get_active d)) d') = None"
  using ends_service [of d' "pending d"] assms by (simp add: reports starts_service)

end

section \<open>The drivers on their controllers\<close>

locale gic_hw =
  fixes B :: "'d bus" and dev :: intc_device and pending :: "'d \<Rightarrow> u32 option" and active :: "'d \<Rightarrow> u32 option"
  assumes line_range: "pending d = Some n \<Longrightarrow> n < MAX_IRQS"
    and ack_read: "fst (rd32 B (cpu_base dev + GICC_IAR) d) AND 0x3FF = (case pending d of None \<Rightarrow> 1023 | Some n \<Rightarrow> n)"
      "active (snd (rd32 B (cpu_base dev + GICC_IAR) d)) = pending d"
    and end_write: "active d = Some n \<Longrightarrow> active (wr32 B (cpu_base dev + GICC_EOIR) n d) = None"
      "active d = None \<Longrightarrow> active (wr32 B (cpu_base dev + GICC_EOIR) 1023 d) = None"
    and in_service: "active d = Some n \<Longrightarrow> n < MAX_IRQS"

locale am335x_hw =
  fixes B :: "'d bus" and dev :: intc_device and pending :: "'d \<Rightarrow> u32 option" and active :: "'d \<Rightarrow> u32 option"
  assumes line_range: "pending d = Some n \<Longrightarrow> n < MAX_IRQS"
    and sir_read: "pending d = Some n \<Longrightarrow> fst (rd32 B (intc_base dev + INTC_SIR_IRQ) d) = n"
      "pending d = None \<Longrightarrow> fst (rd32 B (intc_base dev + INTC_SIR_IRQ) d) AND 0xFFFFFF80 \<noteq> 0"
      "active (snd (rd32 B (intc_base dev + INTC_SIR_IRQ) d)) = pending d"
    and agree_write: "active (wr32 B (intc_base dev + INTC_CONTROL) 1 d) = None"

lemma u32_line:
  fixes n :: u32
  assumes "n < 128"
  shows "n AND 0xFFFFFF80 = 0" "n AND 0x7F = n"
proof -
  have m: "(0x7F :: u32) = mask 7" by (simp add: mask_eq_exp_minus_1)
  have "unat n < 2 ^ 7" using assms by (simp add: word_less_nat_alt)
  then have "unat (take_bit 7 n) = unat n" by (simp add: unsigned_take_bit_eq take_bit_nat_eq_self)
  then show a: "n AND 0x7F = n" unfolding m by (simp add: take_bit_eq_mask [symmetric] word_unat_eq_iff)
  have "n AND 0xFFFFFF80 = (n AND 0x7F) AND 0xFFFFFF80" by (simp only: a)
  also have "\<dots> = n AND (0x7F AND 0xFFFFFF80)" by (simp only: and.assoc)
  finally show "n AND 0xFFFFFF80 = 0" by simp
qed

sublocale gic_hw \<subseteq> gic: intc_driver pending active "gicv1_get_active B dev" "gicv1_eoi B dev"
proof
  fix d n
  show "pending d = Some n \<Longrightarrow> n < MAX_IRQS" by (rule line_range)
  show "fst (gicv1_get_active B dev d) = reported (pending d)"
    using ack_read(1) [of d] line_range [of d]
    by (auto simp: gicv1_get_active_def reported_def GIC_SPURIOUS_def Let_def split_beta kernel_const word_less_nat_alt
        word_le_nat_alt split: option.splits)
  show "active (snd (gicv1_get_active B dev d)) = pending d"
    using ack_read(2) [of d] by (simp add: gicv1_get_active_def Let_def split_beta)
  show "active d = l \<Longrightarrow> active (gicv1_eoi B dev (reported l) d) = None" for l
    using end_write [of d] in_service [of d]
    by (auto simp: gicv1_eoi_def reported_def GIC_SPURIOUS_def kernel_const split: option.splits)
qed

sublocale am335x_hw \<subseteq> am335x: intc_driver pending active "am335x_intc_get_active B dev" "am335x_intc_eoi B dev"
proof
  fix d n
  show "pending d = Some n \<Longrightarrow> n < MAX_IRQS" by (rule line_range)
  show "fst (am335x_intc_get_active B dev d) = reported (pending d)"
    using sir_read [of d] line_range [of d] u32_line
    by (cases "pending d") (auto simp: am335x_intc_get_active_def reported_def INTC_SIR_SPURIOUS_MASK_def split_beta kernel_const)
  show "active (snd (am335x_intc_get_active B dev d)) = pending d"
    using sir_read(3) [of d] by (simp add: am335x_intc_get_active_def split_beta)
  show "active d = l \<Longrightarrow> active (am335x_intc_eoi B dev (reported l) d) = None" for l
    using agree_write [of d] by (simp add: am335x_intc_eoi_def INTC_CONTROL_NEWIRQAGR_def)
qed

end
