(* ===== verification/Devices.thy ===== *)
theory Devices
  imports Chip_Uart Chip_Timer Chip_Intc Boot
begin

text \<open>
  How a board binds the chip drivers (\<open>kernel/platform/qemu/board.c\<close>, \<open>kernel/platform/bbb/board.c\<close>) and how
  \<open>uart_core.c\<close>, \<open>timer_core.c\<close> and \<open>intc_core.c\<close> call the bound driver: \<open>devices\<close> holds the three bound device records, each
  with its operation table, and the calls \<open>dev->ops->f(dev, ...)\<close> go through them.

  The kernel model of \<open>Exceptions\<close> and \<open>Boot\<close> sees the devices only by what they deliver. The locale \<open>irq_machine\<close> joins the
  contracts of the drivers, and its lemma shows that the dispatch of an interrupt down to the chip registers
  refines \<open>irq_dispatch\<close> of the kernel model; \<open>qemu_hw\<close> and \<open>bbb_hw\<close> are the two boards.
\<close>

section \<open>Model\<close>

text \<open>The pointers \<open>console\<close>, \<open>active_timer\<close> and \<open>active_intc\<close> of the subsystem cores, each with the table its \<open>ops\<close> points to.\<close>

record 'd devices =
  bound_console :: "'d uart_ops \<times> uart_device"
  bound_timer :: "'d timer_ops \<times> timer_device"
  bound_intc :: "'d intc_ops \<times> intc_device"

definition GIC_CPU_BASE :: u32 where "GIC_CPU_BASE = 0x1E000000"
definition GIC_DIST_BASE :: u32 where "GIC_DIST_BASE = 0x1E001000"
definition INTC_BASE :: u32 where "INTC_BASE = 0x48200000"

definition qemu_timer0 :: timer_device where
  "qemu_timer0 = \<lparr>timer_base = TIMER_BASE qemu_board, timer_line = IRQ_TIMER qemu_board, clk_hz = TIMER_CLK_HZ qemu_board\<rparr>"

definition qemu_gic :: intc_device where
  "qemu_gic = \<lparr>intc_base = 0, cpu_base = GIC_CPU_BASE, dist_base = GIC_DIST_BASE\<rparr>"

definition bbb_timer2 :: timer_device where
  "bbb_timer2 = \<lparr>timer_base = TIMER_BASE bbb_board, timer_line = IRQ_TIMER bbb_board, clk_hz = TIMER_CLK_HZ bbb_board\<rparr>"

definition bbb_intc :: intc_device where
  "bbb_intc = \<lparr>intc_base = INTC_BASE, cpu_base = 0, dist_base = 0\<rparr>"

definition qemu_uart0 :: uart_device where
  "qemu_uart0 = \<lparr>uart_base = UART0_BASE qemu_board, uart_line = IRQ_UART0 qemu_board\<rparr>"

definition bbb_uart0 :: uart_device where
  "bbb_uart0 = \<lparr>uart_base = UART0_BASE bbb_board, uart_line = IRQ_UART0 bbb_board\<rparr>"

definition qemu_devices :: "'d bus \<Rightarrow> 'd devices" where
  "qemu_devices B = \<lparr>
     bound_console = (pl011_ops B, qemu_uart0),
     bound_timer = (sp804_ops B, qemu_timer0),
     bound_intc = (gicv1_ops B, qemu_gic)\<rparr>"

definition bbb_devices :: "'d bus \<Rightarrow> 'd devices" where
  "bbb_devices B = \<lparr>
     bound_console = (ns16550_ops B, bbb_uart0),
     bound_timer = (dmtimer_ops B, bbb_timer2),
     bound_intc = (am335x_intc_ops B, bbb_intc)\<rparr>"

text \<open>\<open>platform_init_devices\<close>: the bindings it makes, and what it does to the hardware.\<close>

primrec bound_devices :: "platform \<Rightarrow> 'd bus \<Rightarrow> 'd devices" where
  "bound_devices Qemu B = qemu_devices B"
| "bound_devices Bbb B = bbb_devices B"

primrec platform_init_devices :: "platform \<Rightarrow> 'd bus \<Rightarrow> 'd \<Rightarrow> 'd option" where
  "platform_init_devices Qemu B d = Some d"
| "platform_init_devices Bbb B d = clock_enable_timer2 B d"

text \<open>The calls \<open>dev->ops->f(dev, ...)\<close> of the three cores.\<close>

definition console_init :: "'d devices \<Rightarrow> 'd \<Rightarrow> 'd" where
  "console_init dv = (case bound_console dv of (ops, dev) \<Rightarrow> uart_op_init ops dev)"

definition console_putc :: "'d devices \<Rightarrow> char \<Rightarrow> 'd \<Rightarrow> 'd option" where
  "console_putc dv = (case bound_console dv of (ops, dev) \<Rightarrow> uart_op_putc ops dev)"

definition console_rx_irq :: "'d devices \<Rightarrow> 'd \<Rightarrow> kstate \<Rightarrow> ('d \<times> kstate) option" where
  "console_rx_irq dv = (case bound_console dv of (ops, dev) \<Rightarrow> uart_op_rx_irq ops dev)"

definition tick_init :: "'d devices \<Rightarrow> u32 \<Rightarrow> 'd \<Rightarrow> 'd option" where
  "tick_init dv = (case bound_timer dv of (ops, dev) \<Rightarrow> timer_op_init ops dev)"

definition tick_irq :: "'d devices \<Rightarrow> 'd \<Rightarrow> kstate \<Rightarrow> 'd \<times> kstate" where
  "tick_irq dv = (case bound_timer dv of (ops, dev) \<Rightarrow> timer_op_irq ops dev)"

definition ctl_init :: "'d devices \<Rightarrow> 'd \<Rightarrow> 'd option" where
  "ctl_init dv = (case bound_intc dv of (ops, dev) \<Rightarrow> intc_op_init ops dev)"

definition ctl_enable :: "'d devices \<Rightarrow> u32 \<Rightarrow> 'd \<Rightarrow> 'd" where
  "ctl_enable dv = (case bound_intc dv of (ops, dev) \<Rightarrow> intc_op_enable_line ops dev)"

definition ctl_get_active :: "'d devices \<Rightarrow> 'd \<Rightarrow> u32 \<times> 'd" where
  "ctl_get_active dv = (case bound_intc dv of (ops, dev) \<Rightarrow> intc_op_get_active ops dev)"

definition ctl_eoi :: "'d devices \<Rightarrow> u32 \<Rightarrow> 'd \<Rightarrow> 'd" where
  "ctl_eoi dv = (case bound_intc dv of (ops, dev) \<Rightarrow> intc_op_eoi ops dev)"

lemmas device_calls = console_init_def console_putc_def console_rx_irq_def tick_init_def tick_irq_def ctl_init_def ctl_enable_def
  ctl_get_active_def ctl_eoi_def

text \<open>The subsystem functions, down to the driver. The parts that change kernel data are those of the kernel model.\<close>

definition dev_irq_init :: "'d devices \<Rightarrow> 'd \<Rightarrow> kstate \<Rightarrow> ('d \<times> kstate) option" where
  "dev_irq_init dv d s = map_option (\<lambda>d'. (d', irq_init s)) (ctl_init dv d)"

definition dev_irq_enable :: "'d devices \<Rightarrow> u32 \<Rightarrow> 'd \<Rightarrow> 'd" where
  "dev_irq_enable dv irq d = (if irq < MAX_IRQS then ctl_enable dv irq d else d)"

definition dev_run_handler :: "'d devices \<Rightarrow> irq_handler \<Rightarrow> 'd \<Rightarrow> kstate \<Rightarrow> ('d \<times> kstate) option" where
  "dev_run_handler dv h d s =
     (case h of H_timer_irq \<Rightarrow> Some (tick_irq dv d s) | H_uart_rx_irq \<Rightarrow> console_rx_irq dv d s)"

definition dev_irq_dispatch :: "'d devices \<Rightarrow> 'd \<Rightarrow> kstate \<Rightarrow> ('d \<times> kstate) option" where
  "dev_irq_dispatch dv d s =
     (case ctl_get_active dv d of (n, d1) \<Rightarrow>
        map_option (\<lambda>(d2, s2). (ctl_eoi dv n d2, s2\<lparr>eois := eois s2 @ [n]\<rparr>))
          (if n < MAX_IRQS
           then (case irq_table s ! unat n of Some h \<Rightarrow> dev_run_handler dv h d1 s | None \<Rightarrow> Some (d1, s))
           else Some (d1, s)))"

text \<open>The device part of \<open>kmain\<close>, in its order; what \<open>kmain\<close> prints in between is in \<open>boot_banner\<close> of the kernel model.\<close>

definition device_setup :: "platform \<Rightarrow> 'd bus \<Rightarrow> 'd \<Rightarrow> kstate \<Rightarrow> ('d \<times> kstate) option" where
  "device_setup p B d s =
     (let dv = bound_devices p B; b = board_of p
      in Option.bind (platform_init_devices p B d) (\<lambda>d1.
         Option.bind (dev_irq_init dv (console_init dv d1) s) (\<lambda>(d2, s2).
         Option.bind (tick_init dv 10000 d2) (\<lambda>d3.
           let s3 = irq_register (IRQ_TIMER b) H_timer_irq s2;
               d4 = dev_irq_enable dv (IRQ_TIMER b) d3;
               s4 = irq_register (IRQ_UART0 b) H_uart_rx_irq s3
           in Some (dev_irq_enable dv (IRQ_UART0 b) d4, s4)))))"

section \<open>Dispatch refines the kernel model\<close>

text \<open>Each call reaches the driver that the board has bound, with the board's device.\<close>

lemma qemu_calls [simp]:
  "console_init (qemu_devices B) = pl011_init B (UART0_BASE qemu_board)"
  "console_putc (qemu_devices B) = pl011_putc B (UART0_BASE qemu_board)"
  "console_rx_irq (qemu_devices B) = pl011_rx_irq B (UART0_BASE qemu_board)"
  "tick_init (qemu_devices B) = sp804_init B qemu_timer0"
  "tick_irq (qemu_devices B) = sp804_irq B qemu_timer0"
  "ctl_init (qemu_devices B) = gicv1_init B qemu_gic"
  "ctl_enable (qemu_devices B) = gicv1_enable_line B qemu_gic"
  "ctl_get_active (qemu_devices B) = gicv1_get_active B qemu_gic"
  "ctl_eoi (qemu_devices B) = gicv1_eoi B qemu_gic"
  by (simp_all add: device_calls qemu_devices_def pl011_ops_def sp804_ops_def gicv1_ops_def qemu_uart0_def)

lemma bbb_calls [simp]:
  "console_init (bbb_devices B) = ns16550_init B (UART0_BASE bbb_board)"
  "console_putc (bbb_devices B) = ns16550_putc B (UART0_BASE bbb_board)"
  "console_rx_irq (bbb_devices B) = ns16550_rx_irq B (UART0_BASE bbb_board)"
  "tick_init (bbb_devices B) = dmtimer_init B bbb_timer2"
  "tick_irq (bbb_devices B) = dmtimer_irq B bbb_timer2"
  "ctl_init (bbb_devices B) = am335x_intc_init B bbb_intc"
  "ctl_enable (bbb_devices B) = am335x_intc_enable_line B bbb_intc"
  "ctl_get_active (bbb_devices B) = am335x_intc_get_active B bbb_intc"
  "ctl_eoi (bbb_devices B) = am335x_intc_eoi B bbb_intc"
  by (simp_all add: device_calls bbb_devices_def ns16550_ops_def dmtimer_ops_def am335x_intc_ops_def bbb_uart0_def)

locale irq_machine = uart_driver fifo sent putc rx_irq + intc_driver pending active get_active eoi
  for fifo :: "'d \<Rightarrow> char list" and sent :: "'d \<Rightarrow> char list" and putc :: "char \<Rightarrow> 'd \<Rightarrow> 'd option"
    and rx_irq :: "'d \<Rightarrow> kstate \<Rightarrow> ('d \<times> kstate) option" and pending :: "'d \<Rightarrow> u32 option" and active :: "'d \<Rightarrow> u32 option"
    and get_active :: "'d \<Rightarrow> u32 \<times> 'd" and eoi :: "u32 \<Rightarrow> 'd \<Rightarrow> 'd" +
  fixes tick :: "'d \<Rightarrow> kstate \<Rightarrow> 'd \<times> kstate"
  assumes ack_keeps_fifo: "fifo (snd (get_active d)) = fifo d"
    and rx_keeps_active: "rx_irq d s = Some (d', s') \<Longrightarrow> active d' = active d"
    and tick_ticks: "snd (tick d s) = timer_irq s"
    and tick_keeps_active: "active (fst (tick d s)) = active d"
begin

lemma handler_refines:
  assumes "console_rx_irq dv = rx_irq" "tick_irq dv = tick"
  shows "\<exists>d'. dev_run_handler dv h d s = Some (d', run_handler h (fifo d) s) \<and> active d' = active d"
proof (cases h)
  case H_timer_irq
  then show ?thesis using assms(2) tick_ticks [of d s] tick_keeps_active [of d s]
    by (cases "tick d s") (simp add: dev_run_handler_def run_handler_def)
next
  case H_uart_rx_irq
  then show ?thesis using assms(1) rx_irq_drains [of d s] rx_keeps_active
    by (auto simp: dev_run_handler_def run_handler_def)
qed

lemma dispatch_refines:
  assumes "console_rx_irq dv = rx_irq" "tick_irq dv = tick" "ctl_get_active dv = get_active" "ctl_eoi dv = eoi"
  shows "\<exists>d'. dev_irq_dispatch dv d s = Some (d', irq_dispatch (reported (pending d)) (fifo d) s) \<and> active d' = None"
proof -
  let ?n = "reported (pending d)"
  obtain d1 where ga: "get_active d = (?n, d1)" using reports [of d] by (cases "get_active d") simp
  have ends: "active (eoi ?n d2) = None" if "active d2 = active d1" for d2
    using service_ends [of d2 d] that ga by simp
  have fifo: "fifo d1 = fifo d" using ack_keeps_fifo [of d] ga by simp
  show ?thesis
  proof (cases "?n < MAX_IRQS \<and> irq_table s ! unat ?n \<noteq> None")
    case True
    then obtain h where h: "irq_table s ! unat ?n = Some h" by blast
    obtain d2 where "dev_run_handler dv h d1 s = Some (d2, run_handler h (fifo d) s)" "active d2 = active d1"
      using handler_refines [OF assms(1,2), of h d1 s] fifo by auto
    then show ?thesis using True h ends assms(3,4) ga by (simp add: dev_irq_dispatch_def irq_dispatch_def Let_def)
  next
    case False
    then show ?thesis using ends [of d1] assms(3,4) ga
      by (auto simp: dev_irq_dispatch_def irq_dispatch_def Let_def split: option.split)
  qed
qed

end

text \<open>The two boards: the chips at their addresses, on one bus, independent of each other. The interrupt path does not write
  to the data register of the UART, nor anything else that the transmitter would see.\<close>

locale qemu_hw = uart: pl011_hw B "UART0_BASE qemu_board" fifo sent busy + ctl: gic_hw B qemu_gic pending active
  for B :: "'d bus" and fifo :: "'d \<Rightarrow> char list" and sent :: "'d \<Rightarrow> char list" and busy :: "'d \<Rightarrow> nat"
    and pending :: "'d \<Rightarrow> u32 option" and active :: "'d \<Rightarrow> u32 option" +
  assumes ack_keeps: "fifo (snd (rd32 B (cpu_base qemu_gic + GICC_IAR) d)) = fifo d"
    and uart_keeps: "active (snd (rd32 B (UART0_BASE qemu_board + PL011_FR) d)) = active d"
      "active (snd (rd32 B (UART0_BASE qemu_board + PL011_DR) d)) = active d"
      "active (wr32 B (UART0_BASE qemu_board + PL011_ICR) v d) = active d"
    and timer_keeps: "active (wr32 B (timer_base qemu_timer0 + SP804_INTCLR) v d) = active d"

locale bbb_hw = uart: ns16550_hw B "UART0_BASE bbb_board" fifo sent busy + ctl: am335x_hw B bbb_intc pending active
  for B :: "'d bus" and fifo :: "'d \<Rightarrow> char list" and sent :: "'d \<Rightarrow> char list" and busy :: "'d \<Rightarrow> nat"
    and pending :: "'d \<Rightarrow> u32 option" and active :: "'d \<Rightarrow> u32 option" +
  assumes ack_keeps: "fifo (snd (rd32 B (intc_base bbb_intc + INTC_SIR_IRQ) d)) = fifo d"
    and uart_keeps: "active (snd (rd32 B (UART0_BASE bbb_board + NS16550_LSR) d)) = active d"
      "active (snd (rd32 B (UART0_BASE bbb_board + NS16550_RHR) d)) = active d"
    and timer_keeps: "active (wr32 B (timer_base bbb_timer2 + DMT_IRQSTATUS) v d) = active d"

sublocale qemu_hw \<subseteq> machine: irq_machine fifo sent "pl011_putc B (UART0_BASE qemu_board)"
  "pl011_rx_irq B (UART0_BASE qemu_board)" pending active "gicv1_get_active B qemu_gic" "gicv1_eoi B qemu_gic"
  "sp804_irq B qemu_timer0"
proof
  fix d s d' s' v
  show "fifo (snd (gicv1_get_active B qemu_gic d)) = fifo d"
    using ack_keeps [of d] by (simp add: gicv1_get_active_def Let_def split_beta)
  show "pl011_rx_irq B (UART0_BASE qemu_board) d s = Some (d', s') \<Longrightarrow> active d' = active d"
    using uart.drain [of "\<lambda>e. active e = active d" d "rx s"] uart_keeps by (auto simp: pl011_rx_irq_def)
  show "snd (sp804_irq B qemu_timer0 d s) = timer_irq s" by (simp add: sp804_irq_def timer_irq_def)
  show "active (fst (sp804_irq B qemu_timer0 d s)) = active d" using timer_keeps by (simp add: sp804_irq_def)
qed

sublocale bbb_hw \<subseteq> machine: irq_machine fifo sent "ns16550_putc B (UART0_BASE bbb_board)"
  "ns16550_rx_irq B (UART0_BASE bbb_board)" pending active "am335x_intc_get_active B bbb_intc" "am335x_intc_eoi B bbb_intc"
  "dmtimer_irq B bbb_timer2"
proof
  fix d s d' s' v
  show "fifo (snd (am335x_intc_get_active B bbb_intc d)) = fifo d"
    using ack_keeps [of d] by (simp add: am335x_intc_get_active_def split_beta)
  show "ns16550_rx_irq B (UART0_BASE bbb_board) d s = Some (d', s') \<Longrightarrow> active d' = active d"
    using uart.drain [of "\<lambda>e. active e = active d" d "rx s"] uart_keeps by (auto simp: ns16550_rx_irq_def)
  show "snd (dmtimer_irq B bbb_timer2 d s) = timer_irq s" by (simp add: dmtimer_irq_def timer_irq_def)
  show "active (fst (dmtimer_irq B bbb_timer2 d s)) = active d" using timer_keeps by (simp add: dmtimer_irq_def)
qed

context qemu_hw
begin

lemma board_dispatch:
  "\<exists>d'. dev_irq_dispatch (bound_devices Qemu B) d s = Some (d', irq_dispatch (reported (pending d)) (fifo d) s) \<and> active d' = None"
  by (rule machine.dispatch_refines) simp_all

end

context bbb_hw
begin

lemma board_dispatch:
  "\<exists>d'. dev_irq_dispatch (bound_devices Bbb B) d s = Some (d', irq_dispatch (reported (pending d)) (fifo d) s) \<and> active d' = None"
  by (rule machine.dispatch_refines) simp_all

end

section \<open>Simulated machines\<close>

text \<open>The UART of \<open>Chip_Uart\<close> at the board's address, and an interrupt controller with one line waiting and one in service.\<close>

record sim_machine = sim_uart +
  sim_pending :: "u32 option"
  sim_active :: "u32 option"

definition line_of :: "u32 option \<Rightarrow> u32 option" where
  "line_of l = (case l of None \<Rightarrow> None | Some n \<Rightarrow> if n < MAX_IRQS then Some n else None)"

definition sim_qemu :: "sim_machine bus" where
  "sim_qemu = \<lparr>
     rd32 = (\<lambda>a d. if a = 0x10009018 then (sim_fr d, sim_poll d)
              else if a = 0x10009000 then sim_receive d
              else if a = 0x1E00000C then (case line_of (sim_pending d) of None \<Rightarrow> 1023 | Some n \<Rightarrow> n, d\<lparr>sim_active := sim_pending d\<rparr>)
              else (0, d)),
     wr32 = (\<lambda>a v d. if a = 0x10009000 then sim_transmit v d
              else if a = 0x1E000010 \<and> sim_active d = Some v then d\<lparr>sim_active := None\<rparr> else d),
     wr8 = (\<lambda>a v d. d)\<rparr>"

definition sim_bbb :: "sim_machine bus" where
  "sim_bbb = \<lparr>
     rd32 = (\<lambda>a d. if a = 0x44E09014 then (sim_lsr d, sim_poll d)
              else if a = 0x44E09000 then sim_receive d
              else if a = 0x48200040 then (case line_of (sim_pending d) of None \<Rightarrow> 0xFFFFFF80 | Some n \<Rightarrow> n, d\<lparr>sim_active := sim_pending d\<rparr>)
              else (0, d)),
     wr32 = (\<lambda>a v d. if a = 0x44E09000 then sim_transmit v d
              else if a = 0x48200048 then d\<lparr>sim_active := None\<rparr> else d),
     wr8 = (\<lambda>a v d. d)\<rparr>"

lemma line_of_range: "line_of l = Some n \<Longrightarrow> n < MAX_IRQS"
  by (auto simp: line_of_def split: option.splits if_splits)

lemma line_of_None [simp]: "line_of None = None"
  by (simp add: line_of_def)

lemma line_of_Some: "line_of l = Some n \<Longrightarrow> l = Some n"
  by (auto simp: line_of_def split: option.splits if_splits)

lemma line_of_bits: "line_of l = Some n \<Longrightarrow> n AND 0x3FF = n"
proof -
  assume "line_of l = Some n"
  then have n: "n AND 0x7F = n" using line_of_range u32_line(2) by (simp add: kernel_const)
  have "n AND 0x3FF = (n AND 0x7F) AND 0x3FF" by (simp only: n)
  also have "\<dots> = n AND (0x7F AND 0x3FF)" by (simp only: and.assoc)
  finally show ?thesis using n by simp
qed

lemmas sim_simps = sim_uart_defs board_defs of_char_and_byte

interpretation sim_qemu: qemu_hw sim_qemu sim_fifo sim_sent sim_busy "\<lambda>d. line_of (sim_pending d)" "\<lambda>d. line_of (sim_active d)"
  by unfold_locales
    (auto simp: sim_qemu_def pl011_const gic_const sp804_const qemu_gic_def GIC_CPU_BASE_def qemu_timer0_def sim_simps
      line_of_range line_of_bits dest: line_of_Some split: list.split option.split)

interpretation sim_bbb: bbb_hw sim_bbb sim_fifo sim_sent sim_busy "\<lambda>d. line_of (sim_pending d)" "\<lambda>d. line_of (sim_active d)"
  by unfold_locales
    (auto simp: sim_bbb_def ns16550_const am335x_const dmtimer_const bbb_intc_def INTC_BASE_def bbb_timer2_def sim_simps
      line_of_range line_of_def split: list.split option.split)

section \<open>Device set-up\<close>

text \<open>What the set-up writes last: the programming of the timer for ten milliseconds, up to the write that starts it, and then the two lines.\<close>

primrec tick_writes :: "platform \<Rightarrow> (u32 \<times> u32) list" where
  "tick_writes Qemu = [(0x10011008, 0), (0x10011000, 10000), (0x10011008, 0xE2)]"
| "tick_writes Bbb = [(0x48040010, 1), (0x48040054, 4), (0x48040038, 0), (0x48040028, 7), (0x48040040, - 240000), (0x4804003C, - 240000),
     (0x4804002C, 2), (0x48040038, 3)]"

primrec line_enables :: "platform \<Rightarrow> (u32 \<times> u32) list" where
  "line_enables Qemu = [(0x1E001104, 0x10), (0x1E001104, 0x1000)]"
| "line_enables Bbb = [(0x482000C8, 0x10), (0x482000C8, 0x100)]"

text \<open>How the controllers, after their manuals, turn writes into enabled lines: a one bit in a set-enable register (GIC \<open>ISENABLER\<close>, INTC \<open>MIR_CLEAR\<close>)
  enables its line, one in a clear-enable register (\<open>ICENABLER\<close>, \<open>MIR_SET\<close>) disables it, and a write to the mask register of the INTC does either.\<close>

primrec ctl_lines :: "platform \<Rightarrow> nat" where
  "ctl_lines Qemu = 1024"
| "ctl_lines Bbb = 128"

primrec line_write :: "platform \<Rightarrow> u32 \<times> u32 \<Rightarrow> nat \<Rightarrow> bool \<Rightarrow> bool" where
  "line_write Qemu w n on =
     (if fst w = 0x1E001100 + of_nat (n div 32) * 4 \<and> bit (snd w) (n mod 32) then True
      else if fst w = 0x1E001180 + of_nat (n div 32) * 4 \<and> bit (snd w) (n mod 32) then False
      else on)"
| "line_write Bbb w n on =
     (if fst w = 0x48200084 + of_nat (n div 32) * 0x20 then \<not> bit (snd w) (n mod 32)
      else if fst w = 0x48200088 + of_nat (n div 32) * 0x20 \<and> bit (snd w) (n mod 32) then True
      else if fst w = 0x4820008C + of_nat (n div 32) * 0x20 \<and> bit (snd w) (n mod 32) then False
      else on)"

definition lines_after :: "platform \<Rightarrow> (u32 \<times> u32) list \<Rightarrow> nat \<Rightarrow> bool \<Rightarrow> bool" where
  "lines_after p ws n = fold (\<lambda>w. line_write p w n) ws"

text \<open>All registers that can enable a line, of every bank, and those that disable lines, by their addresses.\<close>

primrec enable_reg :: "platform \<Rightarrow> u32 \<Rightarrow> bool" where
  "enable_reg Qemu a \<longleftrightarrow> 0x1E001100 \<le> a \<and> a < 0x1E001180"
| "enable_reg Bbb a \<longleftrightarrow> (\<exists>b \<in> {0x48200084, 0x482000A4, 0x482000C4, 0x482000E4}. b \<le> a \<and> a < b + 8)"

primrec disable_reg :: "platform \<Rightarrow> u32 \<Rightarrow> bool" where
  "disable_reg Qemu a \<longleftrightarrow> 0x1E001180 \<le> a \<and> a < 0x1E001200"
| "disable_reg Bbb a \<longleftrightarrow> (\<exists>b \<in> {0x4820008C, 0x482000AC, 0x482000CC, 0x482000EC}. b \<le> a \<and> a < b + 4)"

definition before_enables :: "platform \<Rightarrow> (u32 \<times> u32) list \<Rightarrow> bool" where
  "before_enables p ws \<longleftrightarrow> (\<forall>w \<in> set ws. \<not> enable_reg p (fst w))"

definition leaves_lines :: "platform \<Rightarrow> (u32 \<times> u32) list \<Rightarrow> bool" where
  "leaves_lines p ws \<longleftrightarrow> (\<forall>w \<in> set ws. \<not> enable_reg p (fst w) \<and> \<not> disable_reg p (fst w))"

text \<open>The lines that the set-up of the controller disables: all of the INTC, and of the GIC the shared ones that the distributor has (\<open>typer\<close>) and the
  kernel has a place for.\<close>

primrec masked_lines :: "platform \<Rightarrow> u32 \<Rightarrow> nat set" where
  "masked_lines Qemu typer = {32..<unat (gic_lines typer)}"
| "masked_lines Bbb typer = {..<128}"

lemma before_enables_append [simp]: "before_enables p (xs @ ys) \<longleftrightarrow> before_enables p xs \<and> before_enables p ys"
  by (auto simp: before_enables_def)

lemma leaves_lines_append [simp]: "leaves_lines p (xs @ ys) \<longleftrightarrow> leaves_lines p xs \<and> leaves_lines p ys"
  by (auto simp: leaves_lines_def)

lemma leaves_lines_before: "leaves_lines p ws \<Longrightarrow> before_enables p ws"
  by (simp add: leaves_lines_def before_enables_def)

lemma lines_after_append [simp]: "lines_after p (xs @ ys) n on = lines_after p ys n (lines_after p xs n on)"
  by (simp add: lines_after_def)

text \<open>The addresses of the registers of line \<open>n\<close>.\<close>

lemma bank_addr:
  assumes "k < 32"
  shows "unat (0x1E001100 + of_nat k * 4 :: u32) = 0x1E001100 + k * 4" "unat (0x1E001180 + of_nat k * 4 :: u32) = 0x1E001180 + k * 4"
proof -
  have "unat (of_nat (k * 4) :: u32) = k * 4" using assms by (intro unat_u32_of_nat) simp
  then have k: "unat (of_nat k * 4 :: u32) = k * 4" by simp
  show "unat (0x1E001100 + of_nat k * 4 :: u32) = 0x1E001100 + k * 4" "unat (0x1E001180 + of_nat k * 4 :: u32) = 0x1E001180 + k * 4"
    using assms by (simp_all add: unat_u32_add k)
qed

lemma line_bank: "n < ctl_lines p \<Longrightarrow> n div 32 < (case p of Qemu \<Rightarrow> 32 | Bbb \<Rightarrow> 4)"
  by (cases p) (simp_all add: less_mult_imp_div_less)

lemma less_4_cases: "(k :: nat) < 4 \<Longrightarrow> k = 0 \<or> k = 1 \<or> k = 2 \<or> k = 3"
  by linarith

lemma line_write_other:
  assumes "\<not> enable_reg p (fst w)" "\<not> disable_reg p (fst w)" "n < ctl_lines p"
  shows "line_write p w n on = on"
proof (cases p)
  case Qemu
  then have "n div 32 < 32" using line_bank [OF assms(3)] by simp
  from bank_addr [OF this] have "enable_reg Qemu (0x1E001100 + of_nat (n div 32) * 4)" "disable_reg Qemu (0x1E001180 + of_nat (n div 32) * 4)"
    using \<open>n div 32 < 32\<close> by (simp_all add: word_le_nat_alt word_less_nat_alt)
  then show ?thesis using assms(1,2) Qemu by auto
next
  case Bbb
  then have "n div 32 < 4" using line_bank [OF assms(3)] by simp
  from less_4_cases [OF this] have "enable_reg Bbb (0x48200084 + of_nat (n div 32) * 0x20)"
    "enable_reg Bbb (0x48200088 + of_nat (n div 32) * 0x20)" "disable_reg Bbb (0x4820008C + of_nat (n div 32) * 0x20)"
    by (elim disjE; simp)+
  then have "fst w \<noteq> 0x48200084 + of_nat (n div 32) * 0x20" "fst w \<noteq> 0x48200088 + of_nat (n div 32) * 0x20"
    "fst w \<noteq> 0x4820008C + of_nat (n div 32) * 0x20"
    using assms(1,2) Bbb by metis+
  then show ?thesis using Bbb by simp
qed

lemma lines_after_leaves: "leaves_lines p ws \<Longrightarrow> n < ctl_lines p \<Longrightarrow> lines_after p ws n on = on"
  by (induction ws arbitrary: on) (simp_all add: leaves_lines_def lines_after_def line_write_other)

lemma bit_all_ones: "k < 32 \<Longrightarrow> bit (0xFFFFFFFF :: u32) k"
proof -
  assume "k < 32"
  moreover have "(0xFFFFFFFF :: u32) = mask 32" by (simp add: mask_eq_exp_minus_1)
  ultimately show ?thesis by (simp only: bit_mask_iff) simp
qed

text \<open>The loops of the set-up end: on the BeagleBone they wait for the clock, the timer and the interrupt controller.\<close>

primrec board_settles :: "platform \<Rightarrow> 'd bus \<Rightarrow> bool" where
  "board_settles Qemu B \<longleftrightarrow> True"
| "board_settles Bbb B \<longleftrightarrow> clock_settles B \<and> dmtimer_settles B (TIMER_BASE bbb_board) \<and>
     settles B (INTC_BASE + INTC_SYSSTATUS) (\<lambda>v. v AND INTC_SYSSTATUS_RESETDONE \<noteq> 0)"

text \<open>The type register of the distributor is read-only: it always shows the same value.\<close>

primrec board_typer :: "platform \<Rightarrow> 'd bus \<Rightarrow> u32 \<Rightarrow> bool" where
  "board_typer Qemu B typer \<longleftrightarrow> (\<forall>d. fst (rd32 B (GIC_DIST_BASE + GICD_TYPER) d) = typer)"
| "board_typer Bbb B typer \<longleftrightarrow> True"

lemma fold_wr32_log:
  assumes "logs B log"
  shows "log (fold (\<lambda>k. wr32 B (f k) v) ks d) = log d @ map (\<lambda>k. (f k, v)) ks"
  by (induction ks arbitrary: d) (simp_all add: logsD [OF assms])

lemma fold_wr8_log:
  assumes "logs B log"
  shows "log (fold (\<lambda>i e. wr8 B (f i) u (wr8 B (g i) v e)) is d) = log d @ concat (map (\<lambda>i. [(g i, ucast v), (f i, ucast u)]) is)"
  by (induction "is" arbitrary: d) (simp_all add: logsD [OF assms])

text \<open>Writes that enable nothing and disable the lines that are to be disabled.\<close>

definition ctl_masks :: "platform \<Rightarrow> u32 \<Rightarrow> (u32 \<times> u32) list \<Rightarrow> bool" where
  "ctl_masks p typer ws \<longleftrightarrow> before_enables p ws \<and>
     (\<forall>n < ctl_lines p. \<forall>on. lines_after p ws n on = (n \<notin> masked_lines p typer \<and> on))"

lemma ctl_masks_between:
  assumes "leaves_lines p xs" "ctl_masks p typer ws" "leaves_lines p ys"
  shows "ctl_masks p typer (xs @ ws @ ys)"
  using assms by (simp add: ctl_masks_def leaves_lines_before lines_after_leaves)

lemma gic_lines_banks: "\<exists>j. 1 \<le> j \<and> j \<le> 4 \<and> unat (gic_lines typer) = 32 * j"
proof -
  have "unat (typer AND 0x1F) \<le> unat (0x1F :: u32)" using word_and_le1 [of typer "0x1F"] by (simp only: word_le_nat_alt and.commute)
  then have t: "unat (typer AND 0x1F) \<le> 31" by simp
  let ?l = "((typer AND 0x1F) + 1) * 32"
  have "?l = of_nat (32 * (unat (typer AND 0x1F) + 1))" by (simp add: algebra_simps)
  then have "unat ?l = unat (of_nat (32 * (unat (typer AND 0x1F) + 1)) :: u32)" by (simp only:)
  also have "\<dots> = 32 * (unat (typer AND 0x1F) + 1)" by (rule unat_u32_of_nat) (use t in simp)
  finally have l: "unat ?l = 32 * (unat (typer AND 0x1F) + 1)" .
  show ?thesis
  proof (cases "?l > MAX_IRQS")
    case True
    then show ?thesis by (intro exI [of _ 4]) (simp add: gic_lines_def Let_def kernel_const)
  next
    case False
    then have "unat ?l \<le> 128" by (simp add: kernel_const word_less_nat_alt not_less)
    then show ?thesis using l False by (intro exI [of _ "unat (typer AND 0x1F) + 1"]) (simp add: gic_lines_def Let_def)
  qed
qed

lemma lines_after_icenabler:
  assumes "\<forall>k \<in> set ks. k < 32" "n < 1024"
  shows "lines_after Qemu (map (\<lambda>k. (0x1E001180 + of_nat k * 4, 0xFFFFFFFF)) ks) n on = (n div 32 \<notin> set ks \<and> on)"
  using assms(1)
proof (induction ks arbitrary: on)
  case Nil
  then show ?case by (simp add: lines_after_def)
next
  case (Cons k ks)
  have n: "n div 32 < 32" using assms(2) by (simp add: less_mult_imp_div_less)
  have k: "k < 32" using Cons.prems by simp
  let ?a = "0x1E001180 + of_nat k * 4 :: u32"
  have "?a \<noteq> 0x1E001100 + of_nat (n div 32) * 4" "?a = 0x1E001180 + of_nat (n div 32) * 4 \<longleftrightarrow> k = n div 32"
    using n k bank_addr [OF n] bank_addr(2) [OF k] by (auto simp: word_unat_eq_iff)
  then have "line_write Qemu (?a, 0xFFFFFFFF) n on = (k \<noteq> n div 32 \<and> on)"
    using bit_all_ones [of "n mod 32"] by simp
  then show ?case using Cons.IH [of "k \<noteq> n div 32 \<and> on"] Cons.prems by (auto simp: lines_after_def)
qed

lemma gic_masks:
  "ctl_masks Qemu typer (map (\<lambda>k. (0x1E001180 + of_nat k * 4, 0xFFFFFFFF)) [1..<(unat (gic_lines typer) + 31) div 32])"
proof -
  obtain j where j: "j \<le> 4" "unat (gic_lines typer) = 32 * j" using gic_lines_banks by blast
  then have d: "(unat (gic_lines typer) + 31) div 32 = j" by simp
  have "n div 32 \<in> set [1..<j] \<longleftrightarrow> n \<in> masked_lines Qemu typer" for n
    using j(2) by (auto simp: less_eq_div_iff_mult_less_eq div_less_iff_less_mult)
  moreover have "\<not> enable_reg Qemu (0x1E001180 + of_nat k * 4)" if "k < 32" for k
    using bank_addr(2) [OF that] by (simp add: word_le_nat_alt word_less_nat_alt)
  ultimately show ?thesis
    using j(1) lines_after_icenabler [of "[1..<j]"] unfolding d by (auto simp: ctl_masks_def before_enables_def)
qed

lemma gic_byte_writes:
  assumes "n \<le> 128"
  shows "leaves_lines Qemu (concat (map (\<lambda>i. [(0x1E001400 + of_nat i, u), (0x1E001800 + of_nat i, v)]) [32..<n]))"
proof -
  have "\<not> enable_reg Qemu (a + of_nat i) \<and> \<not> disable_reg Qemu (a + of_nat i)" if "i < 128" "a = 0x1E001400 \<or> a = 0x1E001800" for i a
  proof -
    have "unat (of_nat i :: u32) = i" using that(1) by (intro unat_u32_of_nat) simp
    then have "unat (a + of_nat i) = unat a + i" using that by (subst unat_u32_add) auto
    then show ?thesis using that by (auto simp: word_le_nat_alt word_less_nat_alt)
  qed
  then show ?thesis using assms unfolding leaves_lines_def by auto
qed

lemma gicv1_init_log:
  assumes "logs B log" "board_typer Qemu B typer"
  shows "\<exists>d' ws. gicv1_init B qemu_gic d = Some d' \<and> log d' = log d @ ws \<and> ctl_masks Qemu typer ws"
proof -
  define d2 where "d2 = snd (rd32 B 0x1E001004 (wr32 B 0x1E001000 0 d))"
  have rd: "rd32 B 0x1E001004 (wr32 B 0x1E001000 0 d) = (typer, d2)"
    using assms(2) by (simp add: d2_def GIC_DIST_BASE_def gic_const prod_eq_iff)
  have d2: "log d2 = log d @ [(0x1E001000, 0)]" unfolding d2_def by (simp add: logsD [OF assms(1)])
  let ?n = "unat (gic_lines typer)"
  let ?ks = "[1..<(?n + 31) div 32]"
  let ?m = "map (\<lambda>k. (0x1E001180 + of_nat k * 4, 0xFFFFFFFF)) ?ks"
  let ?b = "concat (map (\<lambda>i. [(0x1E001400 + of_nat i, 0xA0), (0x1E001800 + of_nat i, 1)]) [32..<?n])"
  let ?e = "[(0x1E001000, 1), (0x1E000004, 0xF0), (0x1E000008, 0), (0x1E000000, 1)]"
  obtain j where j: "j \<le> 4" "?n = 32 * j" using gic_lines_banks by blast
  have bank: "0x1E001000 + GICD_ICENABLER (of_nat (32 * k) div 32) = 0x1E001180 + of_nat k * 4" if "k \<in> set ?ks" for k
  proof -
    have "k < 4" using that j by auto
    from less_4_cases [OF this] show ?thesis by (elim disjE) (simp_all add: GICD_ICENABLER_def)
  qed
  have m: "map (\<lambda>k. (0x1E001000 + GICD_ICENABLER (of_nat (32 * k) div 32), 0xFFFFFFFF)) ?ks = ?m"
    by (rule map_cong [OF refl]) (simp only: bank)
  have "\<exists>d'. gicv1_init B qemu_gic d = Some d' \<and> log d' = log d @ [(0x1E001000, 0)] @ ?m @ ?b @ ?e"
    unfolding gicv1_init_def Let_def
    by (simp add: qemu_gic_def GIC_CPU_BASE_def GIC_DIST_BASE_def GICD_CTLR_def GICD_TYPER_def GICC_CTLR_def GICC_PMR_def GICC_BPR_def
        rd logsD [OF assms(1)] fold_wr32_log [OF assms(1)] fold_wr8_log [OF assms(1)] m [simplified] d2
        GICD_IPRIORITYR_def GICD_ITARGETSR_def)
  moreover have "leaves_lines Qemu (?b @ ?e)"
    using gic_byte_writes [of ?n] j by (simp add: leaves_lines_def [of _ ?e])
  then have "ctl_masks Qemu typer ([(0x1E001000, 0)] @ ?m @ ?b @ ?e)"
    by (intro ctl_masks_between gic_masks) (simp_all add: leaves_lines_def)
  ultimately show ?thesis by blast
qed

lemma am335x_masks:
  "ctl_masks Bbb typer [(0x4820008C, 0xFFFFFFFF), (0x482000AC, 0xFFFFFFFF), (0x482000CC, 0xFFFFFFFF), (0x482000EC, 0xFFFFFFFF)]"
    (is "ctl_masks Bbb typer ?ws")
proof -
  have "\<not> lines_after Bbb ?ws n on" if "n < 128" for n on
  proof -
    have "n div 32 < 4" using that by (simp add: less_mult_imp_div_less)
    from less_4_cases [OF this] show ?thesis
      using bit_all_ones [of "n mod 32"] by (elim disjE) (simp_all add: lines_after_def div_eq_0_iff)
  qed
  then show ?thesis by (simp add: ctl_masks_def before_enables_def)
qed

lemma ilr_writes: "leaves_lines Bbb (map (\<lambda>m. (0x48200100 + of_nat m * 4, 0)) [0..<128])"
proof -
  have "\<not> enable_reg Bbb (0x48200100 + of_nat m * 4) \<and> \<not> disable_reg Bbb (0x48200100 + of_nat m * 4)" if "m < 128" for m
  proof -
    have "unat (of_nat (m * 4) :: u32) = m * 4" using that by (intro unat_u32_of_nat) simp
    then have "unat (0x48200100 + of_nat m * 4 :: u32) = 0x48200100 + m * 4" using that by (subst unat_u32_add) simp_all
    then show ?thesis by (simp add: word_le_nat_alt word_less_nat_alt)
  qed
  then show ?thesis by (auto simp: leaves_lines_def)
qed

lemma am335x_init_log:
  assumes "logs B log" "settles B (INTC_BASE + INTC_SYSSTATUS) (\<lambda>v. v AND INTC_SYSSTATUS_RESETDONE \<noteq> 0)"
  shows "\<exists>d' ws. am335x_intc_init B bbb_intc d = Some d' \<and> log d' = log d @ ws \<and> ctl_masks Bbb typer ws"
proof -
  let ?ms = "map (\<lambda>b. Wr (INTC_BASE + INTC_MIR_SET (of_nat b)) 0xFFFFFFFF) [0..<4]"
  let ?ls = "map (\<lambda>m. Wr (INTC_BASE + INTC_ILR (of_nat m)) 0) [0..<unat MAX_IRQS]"
  let ?es = "[Wr (INTC_BASE + INTC_SYSCONFIG) INTC_SYSCONFIG_SOFTRESET,
      Wait_for (INTC_BASE + INTC_SYSSTATUS) (\<lambda>v. v AND INTC_SYSSTATUS_RESETDONE \<noteq> 0)] @ ?ms @
      [Wr (INTC_BASE + INTC_THRESHOLD) 0xFF] @ ?ls @ [Wr (INTC_BASE + INTC_CONTROL) INTC_CONTROL_NEWIRQAGR]"
  have init: "am335x_intc_init B bbb_intc = reg_seq B ?es" by (simp add: am335x_intc_init_def bbb_intc_def Let_def)
  have "settles B a ok" if "Wait_for a ok \<in> set ?es" for a ok using that assms(2) by auto
  from reg_seq_log [OF assms(1), of ?es d, OF this]
  obtain d' where "am335x_intc_init B bbb_intc d = Some d'" "log d' = log d @ reg_writes ?es" unfolding init by blast
  moreover have "ctl_masks Bbb typer (reg_writes ?es)"
  proof -
    let ?i = "map (\<lambda>m. (0x48200100 + of_nat m * 4, 0)) [0..<128]"
    let ?m = "[(0x4820008C, 0xFFFFFFFF), (0x482000AC, 0xFFFFFFFF), (0x482000CC, 0xFFFFFFFF), (0x482000EC, 0xFFFFFFFF)]"
    have w: "reg_writes (map (\<lambda>m. Wr (f m) v) ms) = map (\<lambda>m. (f m, v)) ms" for f v and ms :: "nat list"
      by (induction ms) simp_all
    have app: "reg_writes (xs @ ys) = reg_writes xs @ reg_writes ys" for xs ys
      by (induction xs) (auto split: reg_op.split)
    have lines: "[0..<unat MAX_IRQS] = [0..<128]" by (simp add: kernel_const)
    have "reg_writes ?es = [(0x48200010, 2)] @ ?m @ [(0x48200068, 0xFF)] @ ?i @ [(0x48200048, 1)]"
      unfolding app w lines by (simp add: INTC_BASE_def am335x_const upt_rec [of _ 4])
    moreover have "leaves_lines Bbb ([(0x48200068, 0xFF)] @ ?i @ [(0x48200048, 1)])"
      using ilr_writes by (simp add: leaves_lines_def)
    moreover have "leaves_lines Bbb [(0x48200010, 2)]" by (simp add: leaves_lines_def)
    ultimately show ?thesis using ctl_masks_between [OF _ am335x_masks] by metis
  qed
  ultimately show ?thesis by blast
qed

lemma console_init_log:
  assumes "logs B log"
  shows "\<exists>ws. log (console_init (bound_devices p B) d) = log d @ ws \<and> leaves_lines p ws"
  by (cases p) (auto simp: leaves_lines_def pl011_init_def ns16550_init_def Let_def logsD [OF assms] board_defs
      pl011_const ns16550_const)

lemma platform_init_log:
  assumes "logs B log" "board_settles p B"
  shows "\<exists>d' ws. platform_init_devices p B d = Some d' \<and> log d' = log d @ ws \<and> leaves_lines p ws"
proof (cases p)
  case Qemu
  then show ?thesis by (simp add: leaves_lines_def)
next
  case Bbb
  then show ?thesis using clock_enable_log [OF assms(1)] assms(2) by (fastforce simp: leaves_lines_def)
qed

lemma ctl_init_log:
  assumes "logs B log" "board_settles p B" "board_typer p B typer"
  shows "\<exists>d' ws. ctl_init (bound_devices p B) d = Some d' \<and> log d' = log d @ ws \<and> ctl_masks p typer ws"
  using assms gicv1_init_log [OF assms(1), of typer d] am335x_init_log [OF assms(1), of d typer]
  by (cases p) simp_all

lemma tick_init_log:
  assumes "logs B log" "board_settles p B"
  shows "\<exists>d'. tick_init (bound_devices p B) 10000 d = Some d' \<and> log d' = log d @ tick_writes p"
proof (cases p)
  case Qemu
  then show ?thesis using sp804_init_log [OF assms(1), of qemu_timer0 10000 d]
    by (auto simp: qemu_timer0_def board_defs)
next
  case Bbb
  then have "dmtimer_settles B (timer_base bbb_timer2)" using assms(2) by (simp add: bbb_timer2_def)
  from dmtimer_init_log [OF assms(1) this, of 10000 d] Bbb show ?thesis
    by (auto simp: bbb_timer2_def board_defs)
qed

lemma tick_leaves_lines: "leaves_lines p (tick_writes p)"
  by (cases p) (simp_all add: leaves_lines_def)

text \<open>The two writes at the end enable the two lines and no other one.\<close>

lemma line_enables_effect:
  assumes "n < ctl_lines p"
  shows "lines_after p (line_enables p) n on =
    (n = unat (IRQ_TIMER (board_of p)) \<or> n = unat (IRQ_UART0 (board_of p)) \<or> on)"
proof -
  have one: "bit (0x10 :: int) k \<longleftrightarrow> k = 4" "bit (0x100 :: int) k \<longleftrightarrow> k = 8" "bit (0x1000 :: int) k \<longleftrightarrow> k = 12" for k
    using bit_exp_iff [of 4 k, where 'a = int] bit_exp_iff [of 8 k, where 'a = int] bit_exp_iff [of 12 k, where 'a = int] by auto
  have split_n: "n div 32 = a \<and> n mod 32 = b \<longleftrightarrow> n = 32 * a + b" if "b < 32" for a b using that by auto
  show ?thesis
  proof (cases p)
    case Qemu
    then have n: "n div 32 < 32" using line_bank [OF assms] by simp
    have "(0x1E001104 :: u32) = 0x1E001100 + of_nat (n div 32) * 4 \<longleftrightarrow> n div 32 = 1"
      "(0x1E001104 :: u32) \<noteq> 0x1E001180 + of_nat (n div 32) * 4"
      using n bank_addr [OF n] by (auto simp: word_unat_eq_iff)
    then have "lines_after Qemu (line_enables Qemu) n on = (n div 32 = 1 \<and> (n mod 32 = 4 \<or> n mod 32 = 12) \<or> on)"
      by (auto simp: lines_after_def one)
    then show ?thesis using Qemu split_n [of 4 1] split_n [of 12 1] by (auto simp: board_defs)
  next
    case Bbb
    then have "n div 32 < 4" using line_bank [OF assms] by simp
    from less_4_cases [OF this] have "lines_after Bbb (line_enables Bbb) n on = (n div 32 = 2 \<and> (n mod 32 = 4 \<or> n mod 32 = 8) \<or> on)"
      by (elim disjE) (auto simp: lines_after_def one)
    then show ?thesis using Bbb split_n [of 4 2] split_n [of 8 2] by (auto simp: board_defs)
  qed
qed

lemma enables_log:
  assumes "logs B log"
  shows "log (dev_irq_enable (bound_devices p B) (IRQ_UART0 (board_of p))
    (dev_irq_enable (bound_devices p B) (IRQ_TIMER (board_of p)) d)) = log d @ line_enables p"
  by (cases p) (simp_all add: dev_irq_enable_def gicv1_enable_line_def am335x_intc_enable_line_def
      Let_def logsD [OF assms] board_defs kernel_const gic_const am335x_const qemu_gic_def bbb_intc_def INTC_BASE_def GIC_DIST_BASE_def)

section \<open>Properties\<close>

text \<open>C30: on both boards, dispatching an interrupt through the drivers down to the registers does to the kernel what the kernel
  model's \<open>irq_dispatch\<close> does for the line that the controller reports (\<open>MAX_IRQS\<close> when it is spurious) and the bytes that the UART has
  received: the handlers return, and the controller has no interrupt in service afterwards.\<close>

theorem board_irq_dispatch_refines:
  assumes "(p = Qemu \<and> qemu_hw B fifo sent busy pending active) \<or> (p = Bbb \<and> bbb_hw B fifo sent busy pending active)"
  shows "\<exists>d'. dev_irq_dispatch (bound_devices p B) d s = Some (d', irq_dispatch (reported (pending d)) (fifo d) s) \<and>
    active d' = None"
  using assms qemu_hw.board_dispatch [of B fifo sent busy pending active d s]
    bbb_hw.board_dispatch [of B fifo sent busy pending active d s]
  by auto

theorem board_irq_dispatch_refines_witness:
  "\<forall>s. \<exists>d'. dev_irq_dispatch (bound_devices Qemu sim_qemu)
      \<lparr>sim_fifo = ''ls'', sim_sent = [], sim_busy = 0, sim_pending = Some 44, sim_active = None\<rparr> s = Some (d', irq_dispatch 44 ''ls'' s)"
proof
  fix s
  let ?d = "\<lparr>sim_fifo = ''ls'', sim_sent = [], sim_busy = 0, sim_pending = Some 44, sim_active = None\<rparr>"
  have "reported (line_of (sim_pending ?d)) = 44" by (simp add: line_of_def reported_def kernel_const)
  with board_irq_dispatch_refines [OF disjI1, OF conjI [OF refl sim_qemu.qemu_hw_axioms], of ?d s]
  show "\<exists>d'. dev_irq_dispatch (bound_devices Qemu sim_qemu) ?d s = Some (d', irq_dispatch 44 ''ls'' s)" by auto
qed

text \<open>C31: the device part of the boot ends on both boards once the hardware settles, and leaves the kernel with the handlers of the timer and the
  UART registered. Its last writes are the programming of the timer for ten milliseconds, with the write that starts it, and then the enabling of the two
  lines, that of the timer first; before, it writes to no register of any bank that could enable a line. After it the line of the timer and
  that of the UART are enabled; every other line that the controller driver manages is disabled, whatever it was before; and the lines it does not manage (the
  private ones of the GIC and those from 128 on) are as they were.\<close>

theorem device_setup_correct:
  assumes "logs B log" "board_settles p B" "board_typer p B typer"
  shows "\<exists>d' ws. device_setup p B d s = Some (d', irq_setup (board_of p) s) \<and> log d' = log d @ ws @ tick_writes p @ line_enables p \<and>
    before_enables p (ws @ tick_writes p) \<and>
    (\<forall>n < ctl_lines p. \<forall>on. lines_after p (ws @ tick_writes p @ line_enables p) n on =
       (n = unat (IRQ_TIMER (board_of p)) \<or> n = unat (IRQ_UART0 (board_of p)) \<or> n \<notin> masked_lines p typer \<and> on))"
proof -
  let ?dv = "bound_devices p B"
  obtain d1 w1 where 1: "platform_init_devices p B d = Some d1" "log d1 = log d @ w1" "leaves_lines p w1"
    using platform_init_log [OF assms(1,2), of d] by blast
  obtain w2 where 2: "log (console_init ?dv d1) = log d1 @ w2" "leaves_lines p w2"
    using console_init_log [OF assms(1), of p d1] by blast
  obtain d3 w3 where 3: "ctl_init ?dv (console_init ?dv d1) = Some d3" "log d3 = log (console_init ?dv d1) @ w3" "ctl_masks p typer w3"
    using ctl_init_log [OF assms, of "console_init ?dv d1"] by blast
  obtain d4 where 4: "tick_init ?dv 10000 d3 = Some d4" "log d4 = log d3 @ tick_writes p"
    using tick_init_log [OF assms(1,2), of d3] by blast
  let ?d5 = "dev_irq_enable ?dv (IRQ_UART0 (board_of p)) (dev_irq_enable ?dv (IRQ_TIMER (board_of p)) d4)"
  have "device_setup p B d s = Some (?d5, irq_setup (board_of p) s)"
    using 1(1) 3(1) 4(1) by (simp add: device_setup_def Let_def dev_irq_init_def irq_setup_def)
  moreover have "log ?d5 = log d @ (w1 @ w2 @ w3) @ tick_writes p @ line_enables p"
    using 1(2) 2(1) 3(2) 4(2) by (simp add: enables_log [OF assms(1)])
  moreover have "ctl_masks p typer ((w1 @ w2) @ w3 @ tick_writes p)"
    by (rule ctl_masks_between [OF _ 3(3) tick_leaves_lines]) (use 1(3) 2(2) in simp)
  then have "before_enables p ((w1 @ w2 @ w3) @ tick_writes p)"
    "\<forall>n < ctl_lines p. \<forall>on. lines_after p (((w1 @ w2) @ w3 @ tick_writes p) @ line_enables p) n on =
       (n = unat (IRQ_TIMER (board_of p)) \<or> n = unat (IRQ_UART0 (board_of p)) \<or> n \<notin> masked_lines p typer \<and> on)"
    unfolding ctl_masks_def lines_after_append [of p "(w1 @ w2) @ w3 @ tick_writes p" "line_enables p"] by (simp_all add: line_enables_effect)
  ultimately show ?thesis by (intro exI [of _ ?d5] exI [of _ "w1 @ w2 @ w3"]) (simp del: lines_after_append)
qed

text \<open>A BeagleBone whose clock follows the mode at once and whose controller is out of reset.\<close>

definition sim_bbb_setup :: "recorder bus" where
  "sim_bbb_setup = recorder_bus (\<lambda>r a. if a = 0x44E00080 then (if r a = 2 then 0 else 0x30000) else if a = 0x48200014 then 1 else 0)"

lemma sim_bbb_settles: "board_settles Bbb sim_bbb_setup"
proof -
  have "clock_settles sim_bbb_setup"
    unfolding clock_settles_def
    by (rule exI [of _ "\<lambda>d. rec_regs d 0x44E00080 = 2"], rule exI [of _ "\<lambda>_. 0"])
      (simp add: sim_bbb_setup_def recorder_bus_def clock_const idle_status_def)
  moreover have "dmtimer_settles sim_bbb_setup (TIMER_BASE bbb_board)"
    unfolding dmtimer_settles_def sim_bbb_setup_def
    by (intro conjI recorder_settles) (simp_all add: board_defs dmtimer_const)
  moreover have "settles sim_bbb_setup (INTC_BASE + INTC_SYSSTATUS) (\<lambda>v. v AND INTC_SYSSTATUS_RESETDONE \<noteq> 0)"
    unfolding sim_bbb_setup_def by (rule recorder_settles) (simp add: INTC_BASE_def am335x_const)
  ultimately show ?thesis by simp
qed

theorem device_setup_correct_witness:
  "\<forall>s. \<exists>d' ws. device_setup Bbb sim_bbb_setup \<lparr>rec_regs = (\<lambda>_. 0), rec_log = []\<rparr> s = Some (d', irq_setup bbb_board s) \<and>
     rec_log d' = ws @ [(0x482000C8, 0x10), (0x482000C8, 0x100)] \<and> lines_after Bbb (rec_log d') 68 False \<and> \<not> lines_after Bbb (rec_log d') 67 True"
proof
  fix s
  let ?d = "\<lparr>rec_regs = (\<lambda>_. 0), rec_log = []\<rparr>"
  have "logs sim_bbb_setup rec_log" unfolding sim_bbb_setup_def by (rule recorder_logs)
  moreover have "board_typer Bbb sim_bbb_setup 0" by simp
  ultimately obtain d' ws where d': "device_setup Bbb sim_bbb_setup ?d s = Some (d', irq_setup (board_of Bbb) s)"
    "rec_log d' = rec_log ?d @ ws @ tick_writes Bbb @ line_enables Bbb"
    "\<forall>n < ctl_lines Bbb. \<forall>on. lines_after Bbb (ws @ tick_writes Bbb @ line_enables Bbb) n on =
       (n = unat (IRQ_TIMER (board_of Bbb)) \<or> n = unat (IRQ_UART0 (board_of Bbb)) \<or> n \<notin> masked_lines Bbb 0 \<and> on)"
    using device_setup_correct [OF _ sim_bbb_settles, of rec_log 0 ?d s] by blast
  have l: "rec_log d' = ws @ tick_writes Bbb @ line_enables Bbb" using d'(2) by simp
  have "lines_after Bbb (rec_log d') 68 False" "\<not> lines_after Bbb (rec_log d') 67 True"
    unfolding l using d'(3) by (simp_all add: board_defs del: lines_after_append)
  then show "\<exists>d' ws. device_setup Bbb sim_bbb_setup ?d s = Some (d', irq_setup bbb_board s) \<and>
     rec_log d' = ws @ [(0x482000C8, 0x10), (0x482000C8, 0x100)] \<and> lines_after Bbb (rec_log d') 68 False \<and> \<not> lines_after Bbb (rec_log d') 67 True"
    using d'(1) l by (intro exI [of _ d'] exI [of _ "ws @ tick_writes Bbb"]) simp
qed

end
