(* ===== verification/Spec2Isabelle.thy ===== *)
theory Spec2Isabelle
  imports Scheduler_Properties Syscall_Properties Mmu_Cache Cache_Sync Start Linker Shell User_Runs Kernel_Streams Noninterference Devices
begin

text \<open>
  Verification of Cortex-A-OS, a small preemptive kernel for ARMv7-A with three user programs (sources under \<open>src/\<close>).

  \<^bold>\<open>The program.\<close> \<open>kernel/arch/arm/boot/start.S\<close> clears the BSS, builds the boot page table and calls \<open>kmain\<close>
  (\<open>kernel/main.c\<close>), which binds the chip drivers of the board, sets up interrupts, builds three processes of two threads each, and enters
  user mode. From then on the kernel runs only in exceptions, with interrupts masked: system calls
  (\<open>kernel/syscall/syscall.c\<close>), timer and UART interrupts, and faults. Each of them ends in \<open>schedule\<close> (\<open>kernel/sched/scheduler.c\<close>). User programs print
  and read through system calls only.

  \<^bold>\<open>The model, by theory.\<close>
  \<^item> \<open>Kernel_Prelude\<close>: machine types, fact collections, lemmas on words, array loops and ring buffers. \<open>Platform\<close>: the constants of
    \<open>platform.h\<close> and of both \<open>board.h\<close>; theorems quantify over the board (\<open>platform\<close>).
  \<^item> \<open>Fifo_Interface\<close>: the contract of a queue as the locales \<open>fifo_queue\<close>, \<open>bounded_fifo\<close> and \<open>unique_fifo\<close>; \<open>Uart_Ring\<close> (the receive ring of
    \<open>uart_core.c\<close>) and \<open>Wait_Queue\<close> (the input wait queue of \<open>scheduler.c\<close>) interpret it and refine a bounded FIFO.
  \<^item> \<open>Uart_Format\<close>: the printing functions of \<open>uart_core.c\<close>, as the characters they emit.
  \<^item> \<open>Pgtable\<close>: \<open>pgtable.c\<close>, \<open>mmu.c\<close>, \<open>mmu.h\<close>, \<open>periph_map.c\<close>, and the table walk of the hardware; the locale \<open>platform_port\<close> is what
    the page tables need of a board, interpreted for both. \<open>User_Pointer\<close>: \<open>valid_user_ptr\<close>.
  \<^item> \<open>Kernel_State\<close>: one record for the state the C files share, \<open>thread_t\<close>, \<open>process_t\<close>; the type \<open>kcont\<close> says where a thread's kernel code goes on.
    \<open>Scheduler\<close>: all of \<open>scheduler.c\<close> and the effect of \<open>context_switch\<close>. \<open>Syscall\<close>: the eight handlers and the dispatcher.
    \<open>Exceptions\<close>: \<open>exception_handlers.c\<close>, \<open>timer_core.c\<close>, \<open>intc_core.c\<close>, and the running system as the step relation \<open>kstep\<close>
    (a user computation, a system call, an interrupt, a fault, or the resumption of kernel code).
    \<open>Process_Init\<close>: \<open>process.c\<close> and \<open>thread.c\<close>. \<open>Boot\<close>: \<open>mmu_init\<close> and \<open>kmain\<close>, from a cleared BSS on.
  \<^item> \<open>Context_Switch\<close>: \<open>context_switch.S\<close>, the entry and exit stubs of \<open>exception_entry.S\<close> and the initial frame of a thread, on
    registers and stack memory; where a thread is suspended in the kernel is a \<open>kpoint\<close>. \<open>Start\<close>: \<open>start.S\<close>, \<open>mmu_enable.S\<close> and \<open>vectors.S\<close> on the same machine, from reset to \<open>kmain\<close>. \<open>Struct_Layout\<close>: the layout of the
    structures the assembly reads. \<open>Linker\<close>: the linker scripts and the embedded images, from which the addresses used elsewhere result.
  \<^item> \<open>Mmu_Cache\<close>: the running system with a TLB and an instruction cache, and their maintenance in \<open>mmu_enable.S\<close>, \<open>mmu_drop_identity\<close> and
    \<open>context_switch\<close>, the operations of the switch one by one, with cache events between them and a delay until they take effect. \<open>Cache_Sync\<close>: \<open>icache_sync\<close> of \<open>process.c\<close> on a data and an instruction cache.
  \<^item> \<open>Mmio\<close>: device registers as a parameter of the model. \<open>Chip_Uart\<close>, \<open>Chip_Timer\<close>, \<open>Chip_Intc\<close>: the six chip drivers. \<open>Devices\<close>: both
    \<open>board.c\<close> and the calls of the subsystem cores through the operation tables down to the bound driver. What a driver relies on is a locale about its
    chip (\<open>pl011_hw\<close>, \<open>ns16550_hw\<close>, \<open>gic_hw\<close>, \<open>am335x_hw\<close>), what it promises a locale about the operation table (\<open>uart_driver\<close>, \<open>intc_driver\<close>); a
    \<open>sublocale\<close> gives the second from the first.
  \<^item> \<open>Ulib\<close>, \<open>User_Calls\<close>, \<open>Shell\<close>: \<open>user/libc/ulib.c\<close>, \<open>user/libc/syscall.h\<close>, \<open>user/crt0.S\<close> and the programs under \<open>user/apps/\<close>. A user function is
    the tree of its system calls, for every sequence of answers. \<open>User_Runs\<close>: such a tree executed by a thread of the running system, as the
    step relation \<open>ustep\<close>, and with the list of its answered calls as \<open>utrace\<close>.
  \<^item> \<open>Kernel_Invariant\<close>, \<open>Syscall_Correct\<close>, \<open>System\<close>: the invariant \<open>kinv\<close>, that every operation keeps it, and what one step can change;
    \<open>Kernel_Frame\<close>: what the handlers leave alone, as the locales \<open>kernel_frame\<close>, \<open>kernel_frame_rx\<close> and \<open>kernel_frame_all\<close>, interpreted
    in \<open>Kernel_Static\<close> (what no step changes) and in \<open>Kernel_Streams\<close> (the receive ring and the tick counter along runs).
    \<open>Noninterference\<close>: the replacement of what a process keeps to itself, with which every operation commutes; the locale \<open>unwinding\<close> makes
    the step from operations to runs.
    \<open>Sample_State\<close>, \<open>Sample_Runs\<close>: reachable states and concrete runs from boot, at which hypotheses are discharged.

  \<^bold>\<open>What is shown.\<close> The linker scripts place the kernel as the code expects it (\<open>Linker\<close>), reset reaches \<open>kmain\<close> (\<open>Start\<close>), and boot
  reaches user mode on both boards with the images in place and visible to instruction fetches (this theory, \<open>Cache_Sync\<close>); in every reachable state the
  invariant holds and the kernel's data is well formed, no step touches the memory of another process, a process that is off the CPU leaks
  nothing of its memory and registers (\<open>Noninterference\<close>), a thread that is switched out keeps its context, dead
  threads stay dead, the kernel stops only when nothing is runnable, and a fault retires exactly the faulting process
  (this theory). Scheduling is round-robin and fair, readers are woken in the order in which they wait
  (\<open>Scheduler_Properties\<close>), the input that the ring accepts passes from the UART to the readers as one stream, and \<open>sys_ticks\<close> counts the timer
  interrupts since boot (\<open>Kernel_Streams\<close>). Each system call does what it should on every branch (\<open>Syscall_Properties\<close>). The ring, the wait queue, the switch in
  assembly and the interrupt dispatch down to the chip registers refine their specifications (\<open>Uart_Ring\<close>,
  \<open>Wait_Queue\<close>, \<open>Context_Switch\<close>, \<open>Devices\<close>). Page tables give user code exactly its window (\<open>Pgtable\<close>), and no stale translation or
  instruction survives a switch of process on hardware that applies the operations of a switch in program order, which the code needs (\<open>Mmu_Cache\<close>). The shell parses
  lines as it should (\<open>Shell\<close>); run on the kernel, with interrupts and other threads at any point, its editor stays within its buffer and hands over
  the edited line, its \<open>kill\<close> kills, its \<open>crash\<close> takes down nothing else, and messages of user programs reach the console whole (\<open>User_Runs\<close>). The last section
  of this theory proves where the code does not do what its comments say.

  \<^bold>\<open>Bounds.\<close> There is no fuel in the kernel model: its loops are structural recursions or come with a termination proof. Loops that poll a device are
  \<open>partial_function (option)\<close>, and that they end is proved from the hypothesis that the device settles. The
  endless loops of user programs are their rounds; \<open>ulib_delay_ticks\<close> takes a bound on the rounds as an argument and is shown to return within
  it once the tick counter has advanced far enough.

  Every loop of the boot code (\<open>zero_bss\<close>, \<open>clean_loop\<close>) is a \<open>partial_function (option)\<close> too, with a proof that it ends.

  \<^bold>\<open>Not modelled.\<close> The branch predictor, and the data cache after boot: memory is one there, which the architecture grants to normal memory
  that only one processor accesses. The FIQ stub, a loop: no line is routed to it. The reads of coprocessor registers for messages: what they return is an argument. The
  code the compiler makes of the C functions: between an entry stub and a switch only the calling convention is used, and what the code does from a
  suspended place on is a parameter (\<open>cont\<close> of \<open>switch_rel\<close>). Issued MMU operations that take effect out of order: \<open>stale_entry_without_order\<close> shows what they could do. The execution of user
  instructions: a user step may do anything to the user registers and to the memory the page table lets it write. Time other than the tick counter.
  The boot loader of the BeagleBone, which is not part of the repository; the makefiles and the scripts. Where the linker puts a symbol within
  a section is a parameter, with what the code relies on as a hypothesis (\<open>places\<close> of \<open>Context_Switch\<close>); \<open>link_ok\<close> and \<open>start_ok\<close> follow from the scripts
  when the kernel ends below the slots of the processes, which the scripts do not check and \<open>link_ok\<close> includes; \<open>images_ok\<close> when the user script has linked the programs.
\<close>

section \<open>Boot\<close>

lemma upa_offset: "upa p i (USER_VIRT_BASE + of_nat k) = user_slot (board_of p) i + of_nat k"
  by (simp add: upa_def)

text \<open>C1: boot succeeds on both platforms. When the linker has placed the tables as its script
  says, the kernel ends below the slots of the processes and every image fits its 1 MB slot, \<open>kmain\<close> reaches user mode: the first thread of the first process
  is about to execute at 0x40000000 in user mode with r0 = 0, the window of each process holds
  its image followed by zeros, and the invariant of the running kernel holds. Filling the slots has not touched the kernel: of its memory, from
  the start of its text to the top of its stacks, no byte lies in a slot, and all of it is as it was before.\<close>

theorem boot_reaches_user_mode:
  assumes "link_ok lk" "images_ok imgs"
  shows "\<exists>s. boot p lk imgs date time cpsr sctlr ram = Some s \<and> kinv p s \<and> current s = Some 0 \<and>
    cpu s = ToUser \<lparr>ec_spsr = 0x10, ec_r = 0 # replicate 12 0, ec_lr = 0x40000000\<rparr> \<and>
    (\<forall>i < 3. user_bytes p i s 0x40000000 0x100000 = slot_image (imgs ! i)) \<and>
    (\<forall>a. fst (lk_text lk) \<le> a \<and> a < lk_svc_stack_top lk \<longrightarrow>
       (\<forall>i < 3. a - PHYS_OFFSET (board_of p) \<notin> slot_range p i) \<and> pmem s (a - PHYS_OFFSET (board_of p)) = ram (a - PHYS_OFFSET (board_of p)))"
proof -
  obtain co mem tb where b: "boot p lk imgs date time cpsr sctlr ram = Some (booted p lk imgs co mem tb)"
    "slots_loaded p imgs mem" "tables_built p lk imgs tb" and out: "\<forall>pa. (\<forall>i < 3. pa \<notin> slot_range p i) \<longrightarrow> mem pa = ram pa"
    using boot_reaches [OF assms] by blast
  have "user_bytes p i (booted p lk imgs co mem tb) 0x40000000 0x100000 = slot_image (imgs ! i)" if "i < 3" for i
  proof (rule nth_equalityI)
    have "length (imgs ! i) \<le> 0x100000" using assms(2) that by (simp add: images_ok_def)
    then show "length (user_bytes p i (booted p lk imgs co mem tb) 0x40000000 0x100000) = length (slot_image (imgs ! i))"
      by (simp add: user_bytes_def slot_image_def)
    fix k assume "k < length (user_bytes p i (booted p lk imgs co mem tb) 0x40000000 0x100000)"
    then have "k < 0x100000" by (simp add: user_bytes_def)
    then show "user_bytes p i (booted p lk imgs co mem tb) 0x40000000 0x100000 ! k = slot_image (imgs ! i) ! k"
      using b(2) that upa_offset [of p i k] by (simp add: user_bytes_def slots_loaded_def USER_VIRT_BASE_def)
  qed
  then show ?thesis
    using b(1) booted_kinv [OF assms(1) b(3)] out kernel_below_slots [OF assms(1)] by (simp add: first_ctx_def USER_VIRT_BASE_def)
qed

theorem boot_reaches_user_mode_witness:
  "\<exists>s. boot Bbb sample_link [[CHR ''x''], [], []] ''Jan'' ''12:00'' 0x1D3 0 (\<lambda>_. CHR 0xFF) = Some s \<and>
     user_bytes Bbb 0 s 0x40000000 0x100000 = slot_image ''x''"
  using boot_reaches_user_mode [OF sample_link_ok, of "[[CHR ''x''], [], []]" Bbb "''Jan''" "''12:00''" "0x1D3" 0 "\<lambda>_. CHR 0xFF"]
  by (auto simp: images_ok_def)

section \<open>Safety of every run\<close>

text \<open>C2: the invariant of the running kernel, in every state reachable from boot: there is a
  current thread; only it may be RUNNING; every BLOCKED thread is in the input wait queue, which
  has no duplicates, so no sleeping reader is forgotten; the page table the MMU uses is
  that of the current thread's process; the receive ring holds at most 127 bytes; and no
  call of \<open>uart_printf\<close> or other code of the kernel has run into undefined behaviour.\<close>

theorem reachable_invariant:
  assumes "reachable p s"
  shows "\<exists>c < 6. current s = Some c \<and>
    (\<forall>t < 6. state_of s t = TASK_RUNNING \<longrightarrow> t = c) \<and>
    (\<forall>t < 6. state_of s t = TASK_BLOCKED \<longrightarrow> t \<in> set (waitq_list (waitq s))) \<and>
    distinct (waitq_list (waitq s)) \<and>
    (\<exists>old. active_table s = proc_table p (c div 2) old) \<and>
    length (rx_contents (rx s)) \<le> 127 \<and> \<not> undefined_behaviour s"
proof -
  obtain c where c: "current s = Some c" "c < 6" "kernel_layout p s" "core_inv s"
    using reachable_inv(1) [OF assms] by (metis kinvD)
  note D = core_invD [OF c(4,1)]
  show ?thesis
    using c D threads_invD [OF D(2)] waitq_list_distinct [OF D(4)] rx_contents_bound [OF D(5)]
      active_table_current [OF c(3,4,1)]
    by blast
qed

theorem reachable_invariant_witness:
  "\<exists>s. reachable Qemu s \<and> current s = Some 0 \<and> (\<exists>old. active_table s = proc_table Qemu 0 old)"
proof -
  obtain co mem tb where r: "reachable Qemu (booted Qemu sample_link sample_images co mem tb)"
    using booted_reachable by blast
  from reachable_invariant [OF r] r show ?thesis by (intro exI [of _ "booted Qemu sample_link sample_images co mem tb"]) auto
qed

text \<open>C3: the kernel's data stays well formed, in every state reachable from boot. Every array has the length it was declared with; every index
  and every pointer into an array (the owner of a thread, the threads of a process, the queued and the hinted thread, the ring and queue positions) is
  in range; threads and processes refer to each other; the interrupt table, the stacks of the threads and the slots of the processes are what
  \<open>kmain\<close> set up, whatever user code and the devices do.\<close>

theorem reachable_well_typed:
  assumes "reachable p s"
  shows "length (threads s) = 6 \<and> length (processes s) = 3 \<and> irq_table s = irq_lines (board_of p) \<and>
    user_handler s = Some H_scheduler_tick \<and>
    length (rx_buf (rx s)) = 128 \<and> length (uart_waitq (waitq s)) = 6 \<and> waitq_head (waitq s) < 6 \<and> waitq_count (waitq s) \<le> 6 \<and>
    set (waitq_list (waitq s)) \<subseteq> {..<6} \<and> set_option (wake_hint s) \<subseteq> {..<6} \<and>
    (\<exists>kb. \<forall>t < 6. let th = threads s ! t in tid th = of_nat t \<and> t_proc th < 3 \<and>
       p_threads (processes s ! t_proc th) ! unat (t_index th) = Some t \<and> kstack_base th = kb + of_nat t * 8192 \<and>
       kstack_size th = 8192 \<and> user_stack_top th = 0x40100000 - t_index th * 0x10000) \<and>
    (\<forall>i < 3. let pr = processes s ! i in pid pr = of_nat i \<and> user_entry pr = 0x40000000 \<and> user_phys_base pr = user_slot (board_of p) i \<and>
       length (p_threads pr) = 2)"
proof -
  from assms obtain lk imgs date time cpsr sctlr ram s0 es where b: "link_ok lk" "images_ok imgs"
    "boot p lk imgs date time cpsr sctlr ram = Some s0" "ksteps s0 es s" unfolding reachable_def by blast
  from boot_reaches [OF b(1,2), of p date time cpsr sctlr ram] b(3) obtain co mem tb where
    s0: "s0 = booted p lk imgs co mem tb" by auto
  note F = static_partD [OF ksteps_static [OF b(4)], unfolded s0]
  obtain c where c: "current s = Some c" "kernel_layout p s" "core_inv s" using reachable_inv(1) [OF assms] by (metis kinvD)
  note D = core_invD [OF c(3,1)]
  have th: "let th = threads s ! t in tid th = of_nat t \<and> t_proc th < 3 \<and> p_threads (processes s ! t_proc th) ! unat (t_index th) = Some t \<and>
      kstack_base th = lk_thread_kstack lk + of_nat t * 8192 \<and> kstack_size th = 8192 \<and>
      user_stack_top th = 0x40100000 - t_index th * 0x10000" if t: "t < 6" for t
  proof -
    have id: "thread_static (threads s ! t) = thread_static (made_thread lk USER_VIRT_BASE t zero_thread)"
      using F(6) [of t] t booted_thread [OF t] by simp
    have "processes s ! (t div 2) = (proc_rec p lk imgs (t div 2))\<lparr>p_threads := [Some (2 * (t div 2)), Some (2 * (t div 2) + 1)]\<rparr>"
      using F(1) booted_process [of "t div 2" p lk imgs co mem tb] t by (simp add: less_mult_imp_div_less)
    then show ?thesis
      using id less_6_cases [OF t] by (auto simp: thread_static_def made_thread_def Let_def)
  qed
  have pr: "let pr = processes s ! i in pid pr = of_nat i \<and> user_entry pr = 0x40000000 \<and> user_phys_base pr = user_slot (board_of p) i \<and>
      length (p_threads pr) = 2" if "i < 3" for i
    using F(1) booted_process [OF that, of p lk imgs co mem tb] by (simp add: make_process_def user_slot_def USER_VIRT_BASE_def Let_def)
  have "set (waitq_list (waitq s)) \<subseteq> {..<6}" "set_option (wake_hint s) \<subseteq> {..<6}"
    using waitq_list_valid [OF D(4)] D(6) by (auto simp: elem_set)
  with th pr D(4,5) F(1,3-5) show ?thesis by (auto simp: waitq_invar_def rx_invar_def)
qed

theorem reachable_well_typed_witness:
  "\<exists>s. reachable Qemu s \<and> length (threads s) = 6 \<and> irq_table s = irq_lines qemu_board"
proof -
  obtain co mem tb where r: "reachable Qemu (booted Qemu sample_link sample_images co mem tb)"
    using booted_reachable by blast
  from reachable_well_typed [OF r] r show ?thesis by (intro exI [of _ "booted Qemu sample_link sample_images co mem tb"]) auto
qed

text \<open>C4: address spaces are isolated. Whatever a thread does in user mode and whatever the kernel
  does on its behalf (system calls, interrupts, faults, switches), one step changes no byte of
  the memory of another process.\<close>

theorem memory_isolation:
  assumes "reachable p s" "kstep s e s'" "current s = Some c" "i < 3" "i \<noteq> c div 2" "pa \<in> slot_range p i"
  shows "pmem s' pa = pmem s pa"
proof -
  have k: "kinv p s" using reachable_inv(1) [OF assms(1)] .
  then have "c < 6" using assms(3) by (metis kinvD option.inject)
  then have "c div 2 < 3" by (simp add: less_mult_imp_div_less)
  then have "pa \<notin> slot_range p (c div 2)" using slot_range_disjoint [of i "c div 2" p] assms(4-6) by auto
  then show ?thesis by (rule kstep_memory [OF assms(2) k assms(3)])
qed

theorem memory_isolation_witness:
  "\<exists>s s'. kstep s Svc s' \<and> pmem s' 0x70300000 = pmem s 0x70300000"
proof -
  obtain co mem tb where r: "reachable Qemu (booted Qemu sample_link sample_images co mem tb)" (is "reachable Qemu ?s")
    using booted_reachable by blast
  have st: "kstep ?s Svc (handle_svc (first_ctx USER_VIRT_BASE 0) ?s)" by (rule kstep.svc) simp
  have "0x70300000 \<in> slot_range Qemu 1" by (simp add: slot_range_nat board_defs)
  then have "pmem (handle_svc (first_ctx USER_VIRT_BASE 0) ?s) 0x70300000 = pmem ?s 0x70300000"
    using memory_isolation [OF r st, of 0 1 "0x70300000"] by simp
  with st show ?thesis by blast
qed

text \<open>C28: a thread that is dead and off the CPU stays dead and never gets the CPU again, however
  the run goes on.\<close>

theorem dead_threads_stay_dead:
  assumes "reachable p s" "t < 6" "state_of s t = TASK_DEAD" "current s \<noteq> Some t" "ksteps s es s'"
  shows "state_of s' t = TASK_DEAD \<and> current s' \<noteq> Some t"
  using ksteps_dead [OF assms(5) reachable_inv(1) [OF assms(1)] assms(2-4)] .

text \<open>C7: the kernel preserves the context of every thread it has switched out. A step either leaves the
  saved registers and the saved place in the kernel of thread \<open>t\<close> untouched, or it switches \<open>t\<close> in, and then the
  CPU goes on exactly there, with exactly the saved banked registers.\<close>

theorem context_preserved:
  assumes "reachable p s" "kstep s e s'" "current s = Some c" "t < 6" "t \<noteq> c"
  shows "if current s' = Some t
    then cpu s' = resume_at (threads s ! t) \<and> sp_usr s' = ctx_sp_usr (ctx (threads s ! t)) \<and>
      lr_usr s' = ctx_lr_usr (ctx (threads s ! t))
    else resume_at (threads s' ! t) = resume_at (threads s ! t) \<and> ctx (threads s' ! t) = ctx (threads s ! t)"
  using kstep_others [OF assms(2) reachable_inv(1) [OF assms(1)] assms(3-5)] by auto

theorem context_preserved_witness:
  "\<exists>s s'. kstep s Svc s' \<and> current s' \<noteq> Some 4 \<and> resume_at (threads s' ! 4) = resume_at (threads s ! 4)"
proof -
  obtain co mem tb where r: "reachable Qemu (booted Qemu sample_link sample_images co mem tb)" (is "reachable Qemu ?s")
    using booted_reachable by blast
  let ?x = "first_ctx USER_VIRT_BASE 0"
  have st: "kstep ?s Svc (handle_svc ?x ?s)" by (rule kstep.svc) simp
  have "\<not> valid_user_ptr 0 0" by (simp add: valid_user_ptr_nat)
  then have h: "handler_result ?x ?s = (Ret E_FAULT, ?s)"
    by (simp add: handler_result_def syscall_table_eq first_ctx_def sys_write_def)
  have "ec_r ?x ! 7 < 8" by (simp add: first_ctx_def)
  then have "handle_svc ?x ?s = ?s\<lparr>cpu := ToUser (set_r0 E_FAULT ?x)\<rparr>"
    using h by (simp add: handle_svc_def dispatch_handler schedule_idle)
  then have "current (handle_svc ?x ?s) \<noteq> Some 4" by simp
  moreover from this context_preserved [OF r st, of 0 4]
  have "resume_at (threads (handle_svc ?x ?s) ! 4) = resume_at (threads ?s ! 4)" by simp
  ultimately show ?thesis using st by blast
qed

text \<open>The kernel halts only when no thread is runnable any more: neither a system call, nor an
  interrupt, nor a fault of one process stops the system while another process can run.\<close>

theorem halts_only_when_idle:
  assumes "reachable p s" "cpu s = Halted"
  shows "\<forall>t < 6. state_of s t \<noteq> TASK_READY \<and> state_of s t \<noteq> TASK_RUNNING"
  using reachable_inv(2) [OF assms(1)] assms(2) by (simp add: stops_only_dead_def runnable_def)

theorem halts_only_when_idle_witness:
  "\<exists>s. reachable Qemu s \<and> cpu s = Halted \<and> (\<forall>t < 6. state_of s t \<noteq> TASK_READY \<and> state_of s t \<noteq> TASK_RUNNING)"
proof -
  obtain s where s: "reachable Qemu s" "cpu s = AfterFault" using crashed_three by blast
  then have "reachable Qemu (user_fault_panic s)" using kstep.resume_fault reachable_step by blast
  moreover have "cpu (user_fault_panic s) = Halted" by (simp add: user_fault_panic_def halt_forever_def)
  ultimately show ?thesis using halts_only_when_idle by blast
qed

theorem dead_threads_stay_dead_witness:
  "\<exists>s t. reachable Qemu s \<and> state_of s t = TASK_DEAD \<and> current s \<noteq> Some t \<and>
     (\<forall>es s'. ksteps s es s' \<longrightarrow> current s' \<noteq> Some t)"
proof -
  obtain co mem tb where r: "reachable Qemu (booted Qemu sample_link sample_images co mem tb)"
    using booted_reachable by blast
  let ?s = "booted Qemu sample_link sample_images co mem tb"
  let ?x = "first_ctx USER_VIRT_BASE 0"
  have st: "kstep ?s UndefinedInstr (handle_undefined ?x ?s)" by (rule kstep.undefined_instr) simp
  note k = reachable_inv(1) [OF r]
  from fault_shape [OF k st] obtain s1 where s1: "handle_undefined ?x ?s = schedule AfterFault s1"
    "keeps Qemu 0 ?s s1" "retired 0 ?s s1" by auto
  have d: "state_of s1 1 = TASK_DEAD" using s1(3) by (simp add: retired_def)
  have "state_of (handle_undefined ?x ?s) 1 = TASK_DEAD \<and> current (handle_undefined ?x ?s) \<noteq> Some 1"
    using schedule_others [of Qemu s1 0 1 AfterFault] s1(1,2) d by (auto simp: keeps_def runnable_def)
  moreover have "reachable Qemu (handle_undefined ?x ?s)" by (rule reachable_step [OF r st])
  ultimately show ?thesis using dead_threads_stay_dead [of Qemu "handle_undefined ?x ?s" 1] by auto
qed

section \<open>Faults\<close>

text \<open>C19: a fault in user mode (data abort, prefetch abort, undefined instruction) retires
  exactly the process that faulted: both its threads are dead afterwards, every thread of another
  process keeps its state (apart from the one that gets the CPU), and if another process
  has a runnable thread, such a thread runs next.\<close>

theorem fault_kills_process:
  assumes "reachable p s" "current s = Some c" "kstep s e s'" "is_fault e"
  shows "(\<forall>t < 6. t div 2 = c div 2 \<longrightarrow> state_of s' t = TASK_DEAD) \<and>
    (\<forall>t < 6. t div 2 \<noteq> c div 2 \<longrightarrow>
       state_of s' t = state_of s t \<or> (current s' = Some t \<and> runnable s t \<and> state_of s' t = TASK_RUNNING)) \<and>
    ((\<exists>t < 6. t div 2 \<noteq> c div 2 \<and> runnable s t) \<longrightarrow>
       (\<exists>t < 6. t div 2 \<noteq> c div 2 \<and> current s' = Some t \<and> cpu s' = resume_at (threads s ! t)))"
proof -
  have k: "kinv p s" using reachable_inv(1) [OF assms(1)] .
  from fault_shape [OF k assms(3,4,2)] obtain s1 where s1: "s' = schedule AfterFault s1"
    "keeps p c s s1" "sched_arg c AfterFault s1" "retired c s s1" by auto
  have l: "kernel_layout p s1" and i: "core_inv s1" and c1: "current s1 = Some c" and nr: "need_reschedule s1"
    using s1(2,3) by (simp_all add: keeps_def sched_arg_def)
  have c: "c < 6" using core_invD(1) [OF i c1] .
  have th: "threads s1 ! t = (if t div 2 = c div 2 then (threads s ! t)\<lparr>t_state := TASK_DEAD\<rparr> else threads s ! t)" if "t < 6" for t
    using s1(4) that by (simp add: retired_def)
  from l i c1 show ?thesis
  proof (cases rule: schedule_cases [where k = AfterFault])
    case (switch t)
    let ?s = "s1\<lparr>need_reschedule := False, wake_hint := None\<rparr>"
    have ct: "c < length (threads ?s)" "t < length (threads ?s)" "c \<noteq> t"
      using switch c layout_lengths [OF l] by auto
    have t: "t div 2 \<noteq> c div 2" "runnable s t" using th [OF switch(1)] switch(3) by (auto simp: runnable_def split: if_splits)
    have sw: "s' = perform_switch c t AfterFault ?s" using switch s1(1) by simp
    have st: "state_of s' u = (if u = t then TASK_RUNNING else state_of s1 u)" if "u < 6" for u
      using perform_switch_threads [OF ct, of AfterFault u] th [OF c] ct(3) by (auto simp: sw)
    show ?thesis
      using st th t switch(1) perform_switch_machine(1) [OF ct, of AfterFault] by (auto simp: sw)
  next
    case stay
    have "state_of s' u = state_of s1 u" for u using stay(4) s1(1) by simp
    moreover have "\<not> runnable s u" if "u < 6" "u div 2 \<noteq> c div 2" for u
      using stay(3) [of u] th [of u] that by (auto simp: runnable_def)
    ultimately show ?thesis using th by auto
  next
    case none
    with nr show ?thesis by simp
  qed
qed

theorem fault_kills_process_witness:
  "\<exists>s s'. kstep s (DataAbort 5 0) s' \<and> current s = Some 0 \<and> state_of s' 1 = TASK_DEAD \<and>
     (\<exists>t < 6. t div 2 \<noteq> 0 \<and> current s' = Some t)"
proof -
  obtain co mem tb where r: "reachable Qemu (booted Qemu sample_link sample_images co mem tb)" (is "reachable Qemu ?s")
    using booted_reachable by blast
  let ?s' = "handle_data_abort 5 0 (first_ctx USER_VIRT_BASE 0) ?s"
  have st: "kstep ?s (DataAbort 5 0) ?s'" by (rule kstep.data_abort) simp
  have "runnable ?s 2" by (simp add: runnable_def booted_thread)
  then have "\<exists>t < 6. t div 2 \<noteq> 0 \<and> runnable ?s t" by (intro exI [of _ 2]) simp
  with fault_kills_process [OF r _ st, of 0] obtain t where t: "t < 6" "t div 2 \<noteq> 0" "current ?s' = Some t"
      "cpu ?s' = resume_at (threads ?s ! t)" by auto
  from fault_kills_process [OF r _ st, of 0] have "state_of ?s' 1 = TASK_DEAD" by auto
  with t st show ?thesis by (intro exI [of _ ?s] exI [of _ ?s']) auto
qed

section \<open>Interrupts\<close>

text \<open>C29: every interrupt is acknowledged exactly once, with the number the controller reported,
  whether or not a handler is registered; a timer interrupt counts one tick (modulo $2^{32}$) and preempts
  the running thread whenever another thread is runnable.\<close>

theorem irq_acknowledged:
  assumes "reachable p s" "cpu s = ToUser x" "current s = Some c" "user_handler s = Some H_scheduler_tick"
  shows "eois (handle_irq n bs x s) = eois s @ [n] \<and>
    (if n < 128 \<and> irq_table s ! unat n = Some H_timer_irq
     then tick_count (handle_irq n bs x s) = tick_count s + 1 \<and>
       ((\<exists>t < 6. t \<noteq> c \<and> runnable s t) = (current (handle_irq n bs x s) \<noteq> Some c))
     else tick_count (handle_irq n bs x s) = tick_count s)"
proof -
  have k: "kinv p s" using reachable_inv(1) [OF assms(1)] .
  have l: "kernel_layout p s" and i: "core_inv s" and f: "fits_cpu s c (cpu s)"
    using k assms(3) by (auto simp: kinv_def)
  have fr: "eois (schedule k s') = eois s'" "tick_count (schedule k s') = tick_count s'" for k s'
    by (auto simp: schedule_def Let_def split: option.split)
  have w: "eois (scheduler_wake_reader s') = eois s' \<and> tick_count (scheduler_wake_reader s') = tick_count s'"
    if "waitq_invar (waitq s')" for s'
    using wake_reader_spec [OF that] by (auto split: list.splits)
  have d: "eois (irq_dispatch n bs s) = eois s @ [n]"
    using w [of "s\<lparr>rx := fold uart_rx_push bs (rx s)\<rparr>"] core_invD(4) [OF i assms(3)]
    by (auto simp: irq_dispatch_def run_handler_def timer_irq_def timer_tick_def uart_rx_irq_def scheduler_tick_def
        Let_def assms(4) split: option.split irq_handler.split)
  show ?thesis
  proof (cases "n < 128 \<and> irq_table s ! unat n = Some H_timer_irq")
    case True
    let ?s = "s\<lparr>tick_count := tick_count s + 1, need_reschedule := True, eois := eois s @ [n]\<rparr>"
    have di: "irq_dispatch n bs s = ?s"
      using True by (simp add: irq_dispatch_def run_handler_def timer_irq_def timer_tick_def scheduler_tick_def
          assms(4) kernel_const)
    have c': "kernel_layout p ?s" "core_inv ?s" "current ?s = Some c" using l i assms(3) by simp_all
    have "(\<exists>t < 6. t \<noteq> c \<and> runnable s t) = (current (schedule (ToUser x) ?s) \<noteq> Some c)"
      using c'
    proof (cases rule: schedule_cases [where k = "ToUser x"])
      case (switch t)
      then show ?thesis by (auto simp: runnable_def)
    next
      case stay
      then show ?thesis using assms(3) by (auto simp: runnable_def)
    qed simp
    with True show ?thesis by (simp add: handle_irq_def di fr)
  next
    case False
    then have "tick_count (irq_dispatch n bs s) = tick_count s"
      using w [of "s\<lparr>rx := fold uart_rx_push bs (rx s)\<rparr>"] core_invD(4) [OF i assms(3)]
      by (auto simp: irq_dispatch_def run_handler_def uart_rx_irq_def Let_def kernel_const
          split: option.split irq_handler.split)
    with False d show ?thesis by (auto simp: handle_irq_def fr)
  qed
qed

theorem irq_acknowledged_witness:
  "\<exists>s x. reachable Qemu s \<and> tick_count (handle_irq 36 [] x s) = tick_count s + 1 \<and>
     current s = Some 0 \<and> current (handle_irq 36 [] x s) \<noteq> Some 0"
proof -
  obtain co mem tb where r: "reachable Qemu (booted Qemu sample_link sample_images co mem tb)" (is "reachable Qemu ?s")
    using booted_reachable by blast
  have "irq_table ?s ! unat (36 :: u32) = Some H_timer_irq"
    by (simp add: irq_lines_def qemu_board_def)
  moreover have "\<exists>t < 6. t \<noteq> 0 \<and> runnable ?s t"
    by (intro exI [of _ 1]) (simp add: runnable_def booted_thread)
  ultimately show ?thesis
    using irq_acknowledged [OF r booted_fields(11) booted_fields(1) booted_fields(9), of 36 "[]"] r
    by (intro exI [of _ ?s] exI [of _ "first_ctx USER_VIRT_BASE 0"]) simp
qed

section \<open>Input\<close>

text \<open>C16: input reaches the thread that has waited longest. When the UART interrupt arrives while
  threads wait in \<open>sys_read\<close>, the first blocked thread of the queue gets the CPU at once,
  and its system call completes: the oldest bytes of the ring (what was there followed by
  what just arrived, as far as it fits) are in its buffer, r0 is their number, the rest
  stays in the ring.\<close>

theorem input_reaches_first_reader:
  assumes "reachable p s" "cpu s = ToUser x" "current s = Some c"
    and "n < 128" "irq_table s ! unat n = Some H_uart_rx_irq" "bs \<noteq> []"
    and "waitq_list (waitq s) = ds @ t # ts" "\<forall>d \<in> set ds. state_of s d \<noteq> TASK_BLOCKED" "state_of s t = TASK_BLOCKED"
  defines "s1 \<equiv> handle_irq n bs x s"
    and "inp \<equiv> rx_contents (rx s) @ take (127 - length (rx_contents (rx s))) bs"
  shows "\<exists>y. resume_at (threads s ! t) = InSysRead y \<and> current s1 = Some t \<and> cpu s1 = InSysRead y \<and>
    (let m = min (unat (ec_r y ! 2)) (length inp); s2 = resume_read y s1
     in cpu s2 = ToUser (set_r0 (of_nat m) y) \<and> current s2 = Some t \<and>
        user_bytes p (t div 2) s2 (ec_r y ! 1) m = take m inp \<and> rx_contents (rx s2) = drop m inp)"
  using input_delivery [OF reachable_inv(1) [OF assms(1)] assms(2-9)]
  unfolding s1_def inp_def by (metis (no_types, lifting))

theorem input_reaches_first_reader_witness:
  "\<exists>s x. reachable Qemu s \<and> current (handle_irq 44 ''a'' x s) = Some 0 \<and>
     (let s2 = resume_read read_ctx1 (handle_irq 44 ''a'' x s)
      in cpu s2 = ToUser (set_r0 1 read_ctx1) \<and> user_bytes Qemu 0 s2 0x40000000 1 = ''a'')"
proof -
  obtain s where s: "readers 1 s" using readers_exist [of 1] by auto
  then obtain x where x: "reachable Qemu s" "cpu s = ToUser x" "current s = Some 1"
    "irq_table s ! unat (44 :: u32) = Some H_uart_rx_irq" "waitq_list (waitq s) = [] @ 0 # []"
    "state_of s 0 = TASK_BLOCKED" "resume_at (threads s ! 0) = InSysRead read_ctx1" "rx_contents (rx s) = []"
    unfolding readers_def by (auto simp: irq_lines_def qemu_board_def)
  have "\<forall>d \<in> set []. state_of s d \<noteq> TASK_BLOCKED" by simp
  from input_reaches_first_reader [OF x(1-3) _ x(4) _ x(5) this x(6), of "''a''"] x(1,7,8)
  show ?thesis by (intro exI [of _ s] exI [of _ x]) (auto simp: Let_def)
qed

section \<open>Where the code falls short of its comments\<close>

text \<open>C38: a system call that waits for input when no other thread is runnable never returns. The
  comment on \<open>scheduler_block_on_input\<close> calls the result a busy-wait for input; but the loop
  spins with interrupts masked, so no input can arrive any more: from such a state every run
  stays in the read loop with an empty ring for ever.\<close>

theorem read_without_other_threads_hangs:
  assumes "reachable p s" "current s = Some c" "cpu s = InSysRead x" "uart_rx_empty (rx s)"
    and "\<forall>t < 6. t \<noteq> c \<longrightarrow> \<not> runnable s t" "ksteps s es s'"
  shows "cpu s' = InSysRead x \<and> uart_rx_empty (rx s') \<and> current s' = Some c"
proof -
  have step: "cpu s'' = InSysRead x \<and> uart_rx_empty (rx s'') \<and> current s'' = Some c \<and>
      (\<forall>t < 6. t \<noteq> c \<longrightarrow> \<not> runnable s'' t) \<and> kinv p s''"
    if st: "kstep s e s''" and k: "kinv p s" and c: "current s = Some c" "cpu s = InSysRead x" "uart_rx_empty (rx s)"
      "\<forall>t < 6. t \<noteq> c \<longrightarrow> \<not> runnable s t" for s e s''
  proof -
    have l: "kernel_layout p s" and i: "core_inv s" and rc: "read_ctx x"
      using k c by (auto simp: kinv_def fits_cpu_def)
    then have v: "valid_user_ptr (ec_r x ! 1) (ec_r x ! 2)" "ec_r x ! 2 \<noteq> 0" by (simp_all add: read_ctx_def)
    have s'': "s'' = resume_read x s" using st c(2) by cases auto
    let ?s = "(set_state c TASK_BLOCKED s)\<lparr>waitq := waitq_push c (waitq s), need_reschedule := True\<rparr>"
    have "resume_read x s = scheduler_block_on_input (InSysRead x) s"
      unfolding resume_read_def read_ctx_sys_read [OF rc, where fd = 0 and u = 0] sys_read_waits [OF v c(3)] by simp
    then have eq: "s'' = schedule (InSysRead x) ?s" using c(1) s'' by (simp add: scheduler_block_on_input_def)
    have kp: "keeps p c s ?s" by (rule block_keeps [OF l i c(1)])
    have cl: "c < length (threads s)" using core_invD(1) [OF i c(1)] layout_lengths [OF l] by simp
    have run: "\<not> runnable ?s t" if "t < 6" for t
      using c(4) that by (auto simp: runnable_def nth_set_state [OF cl])
    have P: "kernel_layout p ?s" "core_inv ?s" "current ?s = Some c" using kp by (simp_all add: keeps_def)
    from P have "schedule (InSysRead x) ?s = ?s\<lparr>need_reschedule := False, wake_hint := None, cpu := InSysRead x\<rparr>"
    proof (cases rule: schedule_cases [where k = "InSysRead x"])
      case (switch t)
      with run show ?thesis by blast
    qed simp_all
    then show ?thesis unfolding eq [symmetric] using c(1,3) run kstep_inv [OF st k] by (auto simp: runnable_def)
  qed
  have "cpu s' = InSysRead x \<and> uart_rx_empty (rx s') \<and> current s' = Some c"
    if "ksteps s es s'" "kinv p s" "current s = Some c" "cpu s = InSysRead x" "uart_rx_empty (rx s)"
      "\<forall>t < 6. t \<noteq> c \<longrightarrow> \<not> runnable s t" for s es s'
    using that
  proof (induction rule: ksteps.induct)
    case (more s e s' es s'')
    then show ?case using step [OF more(1)] by blast
  qed simp
  from this [OF assms(6) reachable_inv(1) [OF assms(1)] assms(2-5)] show ?thesis .
qed

theorem read_without_other_threads_hangs_witness:
  "\<exists>s x. reachable Qemu s \<and> cpu s = InSysRead x \<and> (\<forall>es s'. ksteps s es s' \<longrightarrow> cpu s' = InSysRead x)"
proof -
  obtain s c where "reachable Qemu s" "current s = Some c" "cpu s = InSysRead read_ctx1" "uart_rx_empty (rx s)"
    "\<forall>t < 6. t \<noteq> c \<longrightarrow> \<not> runnable s t"
    using lonely_exists lonely_read by blast
  with read_without_other_threads_hangs [of Qemu s c] show ?thesis by blast
qed

text \<open>C39: one interrupt wakes one reader, whatever it brings. The comments say that each arriving byte
  wakes a reader; but the receive interrupt drains the whole FIFO of the UART and then wakes once. When it
  brings more than the first reader asked for, the next reader in the queue goes on sleeping although the
  ring holds its input, with no wake-up pending.\<close>

theorem lost_wakeup:
  assumes "reachable p s" "cpu s = ToUser x" "current s = Some c"
    and "n < 128" "irq_table s ! unat n = Some H_uart_rx_irq" "bs \<noteq> []"
    and "waitq_list (waitq s) = t # u # ts" "state_of s t = TASK_BLOCKED" "state_of s u = TASK_BLOCKED"
    and "resume_at (threads s ! t) = InSysRead y"
    and "unat (ec_r y ! 2) < length (rx_contents (rx s) @ take (127 - length (rx_contents (rx s))) bs)"
  defines "s2 \<equiv> resume_read y (handle_irq n bs x s)"
  shows "(\<exists>y'. cpu s2 = ToUser y') \<and> current s2 = Some t \<and> \<not> uart_rx_empty (rx s2) \<and>
    state_of s2 u = TASK_BLOCKED \<and> waitq_list (waitq s2) = u # ts \<and> wake_hint s2 = None \<and> \<not> need_reschedule s2"
proof -
  have k: "kinv p s" using reachable_inv(1) [OF assms(1)] .
  have f: "fits_cpu s c (cpu s)" and i: "core_inv s" using k assms(3) by (auto simp: kinv_def)
  have uc: "u \<noteq> c" using f assms(2,9) by (auto simp: fits_cpu_def)
  have ut: "u \<noteq> t" using waitq_list_distinct [OF core_invD(4) [OF i assms(3)]] assms(7) by auto
  have q: "waitq_list (waitq s) = [] @ t # u # ts" "\<forall>d \<in> set []. state_of s d \<noteq> TASK_BLOCKED" using assms(7) by auto
  show ?thesis
  proof (rule input_delivery [OF k assms(2-6) q assms(8)])
    fix y' m s3
    assume d: "resume_at (threads s ! t) = InSysRead y'" "s3 = resume_read y' (handle_irq n bs x s)"
      "m = min (unat (ec_r y' ! 2)) (length (rx_contents (rx s) @ take (127 - length (rx_contents (rx s))) bs))"
      "cpu s3 = ToUser (set_r0 (of_nat m) y')" "current s3 = Some t"
      "rx_contents (rx s3) = drop m (rx_contents (rx s) @ take (127 - length (rx_contents (rx s))) bs)"
      "waitq_list (waitq s3) = u # ts" "wake_hint s3 = None" "\<not> need_reschedule s3"
      "\<And>v. v \<noteq> c \<Longrightarrow> v \<noteq> t \<Longrightarrow> threads s3 ! v = threads s ! v"
    have y: "y' = y" using d(1) assms(10) by simp
    then have s3: "s3 = s2" using d(2) by (simp add: s2_def)
    have "m < length (rx_contents (rx s) @ take (127 - length (rx_contents (rx s))) bs)"
      using assms(11) unfolding d(3) y by (rule min.strict_coboundedI1)
    then have "rx_contents (rx s2) \<noteq> []" using d(6) unfolding s3 by (metis drop_eq_Nil2 linorder_not_le)
    then have "\<not> uart_rx_empty (rx s2)" by (simp add: rx_empty_iff)
    then show ?thesis using d(4,5,7-9) d(10) [OF uc ut] assms(9) unfolding s3 by simp
  qed
qed

theorem lost_wakeup_witness:
  "\<exists>s s2. readers 2 s \<and> reachable Qemu s2 \<and> (\<exists>y. cpu s2 = ToUser y) \<and> \<not> uart_rx_empty (rx s2) \<and> state_of s2 1 = TASK_BLOCKED"
proof -
  obtain s where s: "readers 2 s" using readers_exist [of 2] by auto
  then obtain x where x: "reachable Qemu s" "cpu s = ToUser x" "current s = Some 2"
    "irq_table s ! unat (44 :: u32) = Some H_uart_rx_irq" "waitq_list (waitq s) = 0 # 1 # []"
    "state_of s 0 = TASK_BLOCKED" "state_of s 1 = TASK_BLOCKED" "resume_at (threads s ! 0) = InSysRead read_ctx1"
    "rx_contents (rx s) = []"
    unfolding readers_def by (auto simp: irq_lines_def qemu_board_def upt_rec)
  let ?s1 = "handle_irq 44 ''ab'' x s"
  let ?s2 = "resume_read read_ctx1 ?s1"
  have w: "(\<exists>y. cpu ?s2 = ToUser y) \<and> \<not> uart_rx_empty (rx ?s2) \<and> state_of ?s2 1 = TASK_BLOCKED"
    using lost_wakeup [OF x(1-3) _ x(4) _ x(5-8), of "''ab''"] x(9) by simp
  have q: "waitq_list (waitq s) = [] @ 0 # [1]" "\<forall>d \<in> set []. state_of s d \<noteq> TASK_BLOCKED" using x(5) by simp_all
  have "cpu ?s1 = InSysRead read_ctx1"
    by (rule input_delivery [OF reachable_inv(1) [OF x(1)] x(2,3) _ x(4) _ q x(6), of "''ab''"]) (use x(8) in simp_all)
  then have "reachable Qemu ?s2"
    using x(1,2) by (meson kstep.irq kstep.resume_read reachable_step)
  with s w show ?thesis by blast
qed

text \<open>C40: \<open>sys_exit\<close> says that the kernel never returns to the exiting thread's user frame. It does when
  no other thread is runnable: the caller is marked dead and goes on in user mode.\<close>

theorem last_thread_survives_exit:
  assumes "reachable p s" "current s = Some c" "cpu s = ToUser x" "ec_r x ! 7 = 3"
    and "\<forall>t < 6. t \<noteq> c \<longrightarrow> \<not> runnable s t"
  shows "cpu (handle_svc x s) = ToUser (set_r0 0 x) \<and> current (handle_svc x s) = Some c \<and>
    state_of (handle_svc x s) c = TASK_DEAD"
proof -
  have k: "kinv p s" using reachable_inv(1) [OF assms(1)] .
  have l: "kernel_layout p s" and i: "core_inv s" using k by (simp_all add: kinv_def)
  have c: "c < 6" using core_invD(1) [OF i assms(2)] .
  have cl: "c < length (threads s)" using c layout_lengths [OF l] by simp
  obtain msg where h: "handle_svc x s = schedule (ToUser (set_r0 0 x)) (scheduler_request_resched (kputs msg (set_state c TASK_DEAD s)))"
      (is "_ = schedule _ ?s")
    and kp: "sys_keeps p c s (scheduler_request_resched (kputs msg (set_state c TASK_DEAD s)))"
    using exit_svc [OF l i assms(2,4)] by blast
  then have P: "kernel_layout p ?s" "core_inv ?s" "current ?s = Some c" by (simp_all add: sys_keeps_defs)
  have run: "\<not> runnable ?s t" if "t < 6" for t
    using assms(5) that by (auto simp: runnable_def scheduler_request_resched_def nth_set_state [OF cl])
  from P have "schedule (ToUser (set_r0 0 x)) ?s = ?s\<lparr>need_reschedule := False, wake_hint := None, cpu := ToUser (set_r0 0 x)\<rparr>"
  proof (cases rule: schedule_cases [where k = "ToUser (set_r0 0 x)"])
    case (switch t)
    with run show ?thesis by blast
  next
    case none
    then show ?thesis by (simp add: scheduler_request_resched_def)
  qed simp
  then show ?thesis using P(3) unfolding h by (simp add: scheduler_request_resched_def nth_set_state [OF cl])
qed

theorem last_thread_survives_exit_witness:
  "\<exists>s c x. reachable Qemu s \<and> cpu s = ToUser x \<and> (\<exists>y. cpu (handle_svc x s) = ToUser y) \<and>
     current (handle_svc x s) = Some c \<and> state_of (handle_svc x s) c = TASK_DEAD"
proof -
  obtain s c x where s: "reachable Qemu s" "current s = Some c" "cpu s = ToUser x" "\<forall>t < 6. t \<noteq> c \<longrightarrow> \<not> runnable s t"
    using lonely_exists unfolding lonely_def by blast
  let ?s = "s\<lparr>cpu := ToUser (call_ctx 3 0 0)\<rparr>"
  have r: "reachable Qemu ?s" by (rule user_call [OF s(1,3)]) simp
  have "\<forall>t < 6. t \<noteq> c \<longrightarrow> \<not> runnable ?s t" using s(4) by (simp add: runnable_def)
  with last_thread_survives_exit [OF r, of c "call_ctx 3 0 0"] s(2) r show ?thesis
    by (intro exI [of _ ?s] exI [of _ c] exI [of _ "call_ctx 3 0 0"]) simp
qed

end
